(* ===== verification/Prelude.thy ===== *)
theory Prelude
  imports Main "HOL-Library.Word" "HOL-Library.Product_Lexorder"
begin

unbundle bit_operations_syntax

text \<open>
  Shared vocabulary of the development: the machine types of the Rust sources, the two effect
  types (a panic, and an \<^verbatim>\<open>io::Result\<close>), byte slices and readers, UTF-8 validity, and the
  pieces of \<^verbatim>\<open>core::str\<close> the sources use (splitting, trimming, integer parsing and
  printing). A Rust \<^verbatim>\<open>String\<close> is a \<^typ>\<open>string\<close> whose characters are the bytes of its
  UTF-8 encoding, so that \<^term>\<open>length\<close> is Rust's \<^verbatim>\<open>len()\<close>.
\<close>

named_theorems effect_simps \<open>computation rules of the effect types\<close>
named_theorems slice_simps \<open>computation rules of slices and readers\<close>
named_theorems wire_simps \<open>wire formats unfolded to bytes\<close>
named_theorems str_simps \<open>string splitting and joining\<close>

section \<open>Machine types\<close>

type_synonym u8 = "8 word"
type_synonym u16 = "16 word"
type_synonym u32 = "32 word"
type_synonym u64 = "64 word"
type_synonym bytes = "u8 list"

text \<open>
  \<^verbatim>\<open>std::net::SocketAddr\<close>, and \<^verbatim>\<open>std::time::Duration\<close> in nanoseconds.
\<close>

datatype ip_addr = V4 u32 | V6 "128 word"

fun is_ipv4 :: "ip_addr \<Rightarrow> bool" where
  "is_ipv4 (V4 _) = True"
| "is_ipv4 (V6 _) = False"

type_synonym socket_addr = "ip_addr \<times> u16"
type_synonym duration = nat

definition from_secs :: "nat \<Rightarrow> duration" where
  "from_secs n = n * 1000000000"

section \<open>Effects\<close>

text \<open>A computation that may panic (an index out of bounds, \<^verbatim>\<open>unreachable!\<close>).\<close>

datatype 'a exec = Panic | Ret 'a

fun exec_bind :: "'a exec \<Rightarrow> ('a \<Rightarrow> 'b exec) \<Rightarrow> 'b exec" where
  "exec_bind Panic f = Panic"
| "exec_bind (Ret x) f = f x"

text \<open>
  \<^verbatim>\<open>a += b\<close> on a \<^verbatim>\<open>u8\<close>: the development profile (\<open>checked\<close>) panics on overflow, the
  release profile wraps. Indexing panics out of bounds.
\<close>

definition add_u8 :: "bool \<Rightarrow> u8 \<Rightarrow> u8 \<Rightarrow> u8 exec" where
  "add_u8 checked a b = (if checked \<and> 256 \<le> unat a + unat b then Panic else Ret (a + b))"

definition index_at :: "'a list \<Rightarrow> nat \<Rightarrow> 'a exec" where
  "index_at xs i = (if i < length xs then Ret (xs ! i) else Panic)"

text \<open>\<^verbatim>\<open>div_ceil\<close> of the unsigned integer types.\<close>

definition div_ceil :: "nat \<Rightarrow> nat \<Rightarrow> nat" where
  "div_ceil a b = (a + b - 1) div b"

text \<open>Rust's \<^verbatim>\<open>?\<close> on a \<^verbatim>\<open>Result\<close>: \<^term>\<open>Inl\<close> is \<^verbatim>\<open>Err\<close>.\<close>

fun and_then :: "'e + 'a \<Rightarrow> ('a \<Rightarrow> 'e + 'b) \<Rightarrow> 'e + 'b" where
  "and_then (Inl e) f = Inl e"
| "and_then (Inr x) f = f x"

text \<open>\<^verbatim>\<open>std::io::Error\<close>: the kinds the sources tell apart, with the message carried.\<close>

datatype io_error = UnexpectedEof | InvalidData string | OtherIo string

text \<open>
  The \<^verbatim>\<open>rand\<close> crate is a parameter of what uses it: \<open>rng k n\<close> is the \<open>k\<close>-th draw of a call,
  from \<^verbatim>\<open>0..n\<close>. It stays below a positive bound.
\<close>

type_synonym rng = "nat \<Rightarrow> nat \<Rightarrow> nat"

definition rng_ok :: "rng \<Rightarrow> bool" where
  "rng_ok rng \<longleftrightarrow> (\<forall>k n. 0 < n \<longrightarrow> rng k n < n)"

section \<open>Slices and readers\<close>

text \<open>\<^verbatim>\<open>buf[i..i + src.len()].copy_from_slice(src)\<close>.\<close>

definition copy_at :: "bytes \<Rightarrow> nat \<Rightarrow> bytes \<Rightarrow> bytes exec" where
  "copy_at buf i src =
     (if i + length src \<le> length buf
      then Ret (take i buf @ src @ drop (i + length src) buf) else Panic)"

text \<open>\<^verbatim>\<open>Read::read_exact\<close> over an in-memory reader: the bytes read and the rest.\<close>

definition read_exact :: "nat \<Rightarrow> bytes \<Rightarrow> io_error + (bytes \<times> bytes)" where
  "read_exact n inp = (if n \<le> length inp then Inr (take n inp, drop n inp) else Inl UnexpectedEof)"

section \<open>Strings as UTF-8 bytes\<close>

definition as_bytes :: "string \<Rightarrow> bytes" where
  "as_bytes s = map (\<lambda>c. of_nat (of_char c)) s"

definition raw_string :: "bytes \<Rightarrow> string" where
  "raw_string bs = map (\<lambda>b. char_of (unat b)) bs"

definition cont_byte :: "u8 \<Rightarrow> bool" where
  "cont_byte b \<longleftrightarrow> 0x80 \<le> b \<and> b \<le> 0xBF"

text \<open>The table of well-formed UTF-8 sequences that \<^verbatim>\<open>core::str::from_utf8\<close> accepts.\<close>

definition utf8_second3 :: "u8 \<Rightarrow> u8 \<Rightarrow> bool" where
  "utf8_second3 a b \<longleftrightarrow>
     (a = 0xE0 \<and> 0xA0 \<le> b \<and> b \<le> 0xBF) \<or> (0xE1 \<le> a \<and> a \<le> 0xEC \<and> cont_byte b) \<or>
     (a = 0xED \<and> 0x80 \<le> b \<and> b \<le> 0x9F) \<or> (0xEE \<le> a \<and> a \<le> 0xEF \<and> cont_byte b)"

definition utf8_second4 :: "u8 \<Rightarrow> u8 \<Rightarrow> bool" where
  "utf8_second4 a b \<longleftrightarrow>
     (a = 0xF0 \<and> 0x90 \<le> b \<and> b \<le> 0xBF) \<or> (0xF1 \<le> a \<and> a \<le> 0xF3 \<and> cont_byte b) \<or>
     (a = 0xF4 \<and> 0x80 \<le> b \<and> b \<le> 0x8F)"

fun utf8_valid :: "bytes \<Rightarrow> bool" where
  "utf8_valid [] = True"
| "utf8_valid (a # r) =
     (if a < 0x80 then utf8_valid r
      else case r of
        [] \<Rightarrow> False
      | b # r2 \<Rightarrow>
          if 0xC2 \<le> a \<and> a \<le> 0xDF then cont_byte b \<and> utf8_valid r2
          else case r2 of
            [] \<Rightarrow> False
          | c # r3 \<Rightarrow>
              if a < 0xF0 then utf8_second3 a b \<and> cont_byte c \<and> utf8_valid r3
              else case r3 of
                [] \<Rightarrow> False
              | d # r4 \<Rightarrow> utf8_second4 a b \<and> cont_byte c \<and> cont_byte d \<and> utf8_valid r4)"

text \<open>\<^verbatim>\<open>String::from_utf8\<close>.\<close>

definition from_utf8 :: "bytes \<Rightarrow> string option" where
  "from_utf8 bs = (if utf8_valid bs then Some (raw_string bs) else None)"

text \<open>What every Rust \<^verbatim>\<open>str\<close> satisfies.\<close>

definition is_str :: "string \<Rightarrow> bool" where
  "is_str s \<longleftrightarrow> utf8_valid (as_bytes s)"

section \<open>Pieces of \<^verbatim>\<open>core::str\<close>\<close>

text \<open>\<^verbatim>\<open>s.split(p)\<close> for a character predicate; never an empty list.\<close>

fun split_when :: "(char \<Rightarrow> bool) \<Rightarrow> string \<Rightarrow> string list" where
  "split_when p [] = [[]]"
| "split_when p (c # cs) =
     (if p c then [] # split_when p cs
      else case split_when p cs of [] \<Rightarrow> [[c]] | x # xs \<Rightarrow> (c # x) # xs)"

abbreviation split_char :: "char \<Rightarrow> string \<Rightarrow> string list" where
  "split_char d \<equiv> split_when (\<lambda>c. c = d)"

text \<open>\<^verbatim>\<open>s.split_once(c)\<close> and \<^verbatim>\<open>s.rsplit_once(c)\<close>.\<close>

definition split_once :: "char \<Rightarrow> string \<Rightarrow> (string \<times> string) option" where
  "split_once d s =
     (if d \<in> set s
      then Some (takeWhile (\<lambda>c. c \<noteq> d) s, tl (dropWhile (\<lambda>c. c \<noteq> d) s)) else None)"

definition rsplit_once :: "char \<Rightarrow> string \<Rightarrow> (string \<times> string) option" where
  "rsplit_once d s =
     map_option (\<lambda>(a, b). (rev b, rev a)) (split_once d (rev s))"

text \<open>\<^verbatim>\<open>s.strip_prefix(p)\<close> and \<^verbatim>\<open>s.split_once(p)\<close> for a string pattern.\<close>

fun strip_prefix :: "string \<Rightarrow> string \<Rightarrow> string option" where
  "strip_prefix [] s = Some s"
| "strip_prefix (p # ps) [] = None"
| "strip_prefix (p # ps) (c # cs) = (if p = c then strip_prefix ps cs else None)"

fun split_once_str :: "string \<Rightarrow> string \<Rightarrow> (string \<times> string) option" where
  "split_once_str p [] = (case strip_prefix p [] of Some r \<Rightarrow> Some ([], r) | None \<Rightarrow> None)"
| "split_once_str p (c # cs) =
     (case strip_prefix p (c # cs) of
        Some r \<Rightarrow> Some ([], r)
      | None \<Rightarrow> map_option (\<lambda>(a, b). (c # a, b)) (split_once_str p cs))"

text \<open>\<^verbatim>\<open>eq_ignore_ascii_case\<close>.\<close>

definition ascii_lower :: "char \<Rightarrow> char" where
  "ascii_lower c =
     (let n = (of_char c :: nat) in if 65 \<le> n \<and> n \<le> 90 then char_of (n + 32) else c)"

definition eq_ignore_ascii_case :: "string \<Rightarrow> string \<Rightarrow> bool" where
  "eq_ignore_ascii_case a b \<longleftrightarrow> map ascii_lower a = map ascii_lower b"

text \<open>
  \<^verbatim>\<open>str::parse\<close> for an unsigned type of maximum \<open>mx\<close>: an optional \<^verbatim>\<open>+\<close>, then at
  least one decimal digit, \<^verbatim>\<open>None\<close> on any other character and on overflow.
\<close>

definition digit_val :: "char \<Rightarrow> nat option" where
  "digit_val c = (let n = (of_char c :: nat) in if 48 \<le> n \<and> n \<le> 57 then Some (n - 48) else None)"

fun parse_digits :: "nat \<Rightarrow> nat \<Rightarrow> string \<Rightarrow> nat option" where
  "parse_digits mx acc [] = Some acc"
| "parse_digits mx acc (c # cs) =
     (case digit_val c of
        None \<Rightarrow> None
      | Some d \<Rightarrow> if acc * 10 + d \<le> mx then parse_digits mx (acc * 10 + d) cs else None)"

definition parse_uint :: "nat \<Rightarrow> string \<Rightarrow> nat option" where
  "parse_uint mx s =
     (case s of
        [] \<Rightarrow> None
      | c # cs \<Rightarrow>
          if c = CHR ''+'' then (if cs = [] then None else parse_digits mx 0 cs)
          else parse_digits mx 0 s)"

definition parse_u16 :: "string \<Rightarrow> u16 option" where
  "parse_u16 s = map_option of_nat (parse_uint 65535 s)"

definition parse_u64 :: "string \<Rightarrow> u64 option" where
  "parse_u64 s = map_option of_nat (parse_uint 18446744073709551615 s)"

text \<open>\<^verbatim>\<open>to_string\<close> of an unsigned integer.\<close>

fun show_nat :: "nat \<Rightarrow> string" where
  "show_nat n =
     (if n < 10 then [char_of (48 + n)] else show_nat (n div 10) @ [char_of (48 + n mod 10)])"

declare show_nat.simps [simp del]

text \<open>
  \<^verbatim>\<open>trim\<close>: the UTF-8 sequences of the code points with the \<^verbatim>\<open>White_Space\<close> property,
  removed from both ends. In valid UTF-8 a suffix that spells such a sequence is that code point.
\<close>

definition ws_seq :: "nat list \<Rightarrow> bool" where
  "ws_seq bs \<longleftrightarrow>
     (case bs of
        [a] \<Rightarrow> (9 \<le> a \<and> a \<le> 13) \<or> a = 32
      | [a, b] \<Rightarrow> a = 0xC2 \<and> (b = 0x85 \<or> b = 0xA0)
      | [a, b, c] \<Rightarrow>
          (a = 0xE1 \<and> b = 0x9A \<and> c = 0x80) \<or>
          (a = 0xE2 \<and> b = 0x80 \<and> ((0x80 \<le> c \<and> c \<le> 0x8A) \<or> c = 0xA8 \<or> c = 0xA9 \<or> c = 0xAF)) \<or>
          (a = 0xE2 \<and> b = 0x81 \<and> c = 0x9F) \<or> (a = 0xE3 \<and> b = 0x80 \<and> c = 0x80)
      | _ \<Rightarrow> False)"

function trim_with :: "(nat list \<Rightarrow> bool) \<Rightarrow> string \<Rightarrow> string" where
  "trim_with w s =
     (if s = [] then []
      else if w (map of_char (take 1 s)) then trim_with w (drop 1 s)
      else if w (map of_char (take 2 s)) then trim_with w (drop 2 s)
      else if w (map of_char (take 3 s)) then trim_with w (drop 3 s)
      else s)"
  by pat_completeness auto
termination
  by (relation "measure (\<lambda>(w, s). length s)") auto

declare trim_with.simps [simp del]

definition str_trim :: "string \<Rightarrow> string" where
  "str_trim s = rev (trim_with (\<lambda>bs. ws_seq (rev bs)) (rev (trim_with ws_seq s)))"

section \<open>Systems driven by events\<close>

text \<open>
  The contract the stateful components share: one step per event, and an invariant every step
  keeps. A run is the fold of the steps over the events.
\<close>

locale event_system =
  fixes step :: "'e \<Rightarrow> 's \<Rightarrow> 's"
    and inv :: "'s \<Rightarrow> bool"
  assumes step_inv: "inv s \<Longrightarrow> inv (step e s)"
begin

lemma run_inv: "inv s \<Longrightarrow> inv (fold step es s)"
  by (induction es arbitrary: s) (auto intro: step_inv)

end

text \<open>A step may also have an observable trace: then what every step shows, every run shows.\<close>

locale traced_system = event_system step inv
  for step :: "'e \<Rightarrow> 's \<Rightarrow> 's" and inv +
  fixes out :: "'e \<Rightarrow> 's \<Rightarrow> 'o list"
    and good :: "'o \<Rightarrow> bool"
  assumes step_out: "inv s \<Longrightarrow> o' \<in> set (out e s) \<Longrightarrow> good o'"
begin

fun outputs :: "'e list \<Rightarrow> 's \<Rightarrow> 'o list" where
  "outputs [] s = []"
| "outputs (e # es) s = out e s @ outputs es (step e s)"

lemma outputs_good: "inv s \<Longrightarrow> o' \<in> set (outputs es s) \<Longrightarrow> good o'"
  by (induction es arbitrary: s) (auto dest: step_out intro: step_inv)

end

section \<open>Effect and slice lemmas\<close>

declare exec_bind.simps [effect_simps] and_then.simps [effect_simps]

lemma and_then_eq_Inr [effect_simps]:
  "and_then r f = Inr y \<longleftrightarrow> (\<exists>x. r = Inr x \<and> f x = Inr y)"
  by (cases r) auto

lemma and_then_eq_Inl [effect_simps]:
  "and_then r f = Inl e \<longleftrightarrow> r = Inl e \<or> (\<exists>x. r = Inr x \<and> f x = Inl e)"
  by (cases r) auto

lemma exec_bind_eq_Ret [effect_simps]:
  "exec_bind m f = Ret y \<longleftrightarrow> (\<exists>x. m = Ret x \<and> f x = Ret y)"
  by (cases m) auto

lemma exec_bind_assoc: "exec_bind (exec_bind m f) g = exec_bind m (\<lambda>x. exec_bind (f x) g)"
  by (cases m) auto

lemma exec_bind_Ret: "exec_bind m Ret = m"
  by (cases m) auto

lemma read_exact_append [slice_simps]:
  "n = length a \<Longrightarrow> read_exact n (a @ r) = Inr (a, r)"
  by (simp add: read_exact_def)

lemma read_exact_short [slice_simps]:
  "length inp < n \<Longrightarrow> read_exact n inp = Inl UnexpectedEof"
  by (simp add: read_exact_def)

lemma read_exact_one [slice_simps]:
  "read_exact (Suc 0) (b # r) = Inr ([b], r)" "read_exact (Suc 0) [] = Inl UnexpectedEof"
  by (simp_all add: read_exact_def)

lemma read_exact_eq_Inr:
  "read_exact n inp = Inr (a, r) \<longleftrightarrow> inp = a @ r \<and> length a = n"
  by (auto simp: read_exact_def)

lemma read_exact_eq_Inl: "read_exact n inp = Inl e \<longleftrightarrow> length inp < n \<and> e = UnexpectedEof"
  by (auto simp: read_exact_def)

lemma copy_at_fill [slice_simps]:
  "i = length a \<Longrightarrow> length src + length r = length b \<Longrightarrow> r = drop (length src) b \<Longrightarrow>
   copy_at (a @ b) i src = Ret (a @ src @ r)"
  by (simp add: copy_at_def)

lemma add_u8_small [effect_simps]: "unat a + unat b < 256 \<Longrightarrow> add_u8 checked a b = Ret (a + b)"
  by (simp add: add_u8_def)

lemma index_at_in [effect_simps]: "i < length xs \<Longrightarrow> index_at xs i = Ret (xs ! i)"
  by (simp add: index_at_def)

section \<open>Byte and string lemmas\<close>

lemma length_as_bytes [simp]: "length (as_bytes s) = length s"
  by (simp add: as_bytes_def)

lemma length_raw_string [simp]: "length (raw_string s) = length s"
  by (simp add: raw_string_def)

lemma raw_string_as_bytes [simp]: "raw_string (as_bytes s) = s"
proof -
  have "char_of (unat (of_nat (of_char c) :: u8)) = c" for c
    using nat_of_char_less_256 [of c] by (simp add: unat_of_nat)
  then show ?thesis by (simp add: raw_string_def as_bytes_def comp_def)
qed

lemma as_bytes_raw_string [simp]: "as_bytes (raw_string bs) = bs"
proof -
  have "(of_nat (of_char (char_of (unat b) :: char)) :: u8) = b" for b :: u8
    using unsigned_less [of b, where ?'a = nat] by simp
  then show ?thesis by (simp add: raw_string_def as_bytes_def comp_def)
qed

lemma from_utf8_as_bytes [simp]: "is_str s \<Longrightarrow> from_utf8 (as_bytes s) = Some s"
  by (simp add: from_utf8_def is_str_def)

lemma from_utf8_Some: "from_utf8 bs = Some s \<Longrightarrow> as_bytes s = bs \<and> is_str s"
  by (auto simp: from_utf8_def is_str_def split: if_splits)

section \<open>Splitting lemmas\<close>

lemma split_when_ne: "split_when f s \<noteq> []"
  by (induction s) (auto split: list.splits)

lemma hd_split_when: "hd (split_when f s) = takeWhile (\<lambda>c. \<not> f c) s"
proof (induction s)
  case (Cons c cs)
  show ?case using Cons split_when_ne [of f cs] by (auto split: list.splits)
qed simp

end
