(* ===== verification/Varint.thy ===== *)
theory Varint
  imports Prelude
begin

unbundle bit_operations_syntax

text \<open>
  The QUIC variable-length integer codec, \<^verbatim>\<open>crates/hysteria/src/internal/protocol/varint.rs\<close>:
  \<^verbatim>\<open>len\<close>, \<^verbatim>\<open>put\<close> (into the front of a slice, with its panics) and \<^verbatim>\<open>read\<close>. The locale
  \<open>prefix_codec\<close> states what a reader of a self-delimiting frame promises; varints are one, and
  \<^verbatim>\<open>Proxy\<close> shows that TCP responses are another.
\<close>

section \<open>Definitions\<close>

definition MAX_VAR_INT1 :: u64 where "MAX_VAR_INT1 = 63"
definition MAX_VAR_INT2 :: u64 where "MAX_VAR_INT2 = 16383"
definition MAX_VAR_INT4 :: u64 where "MAX_VAR_INT4 = 1073741823"
definition MAX_VAR_INT8 :: u64 where "MAX_VAR_INT8 = 4611686018427387903"

definition varint_len :: "u64 \<Rightarrow> nat" where
  "varint_len i =
     (if i \<le> MAX_VAR_INT1 then 1
      else if i \<le> MAX_VAR_INT2 then 2
      else if i \<le> MAX_VAR_INT4 then 4
      else 8)"

text \<open>\<^verbatim>\<open>i as u8\<close>, and the assignments \<^verbatim>\<open>b[0] = _; b[1] = _; ...\<close> followed by the count.\<close>

definition as_u8 :: "u64 \<Rightarrow> u8" where
  "as_u8 i = ucast i"

definition store_front :: "bytes \<Rightarrow> bytes \<Rightarrow> (bytes \<times> nat) exec" where
  "store_front b bs =
     (if length bs \<le> length b then Ret (bs @ drop (length bs) b, length bs) else Panic)"

definition varint_put :: "bytes \<Rightarrow> u64 \<Rightarrow> (bytes \<times> nat) exec" where
  "varint_put b i =
     (if i \<le> MAX_VAR_INT1 then store_front b [as_u8 i]
      else if i \<le> MAX_VAR_INT2 then
        store_front b [as_u8 (drop_bit 8 i) OR 0x40, as_u8 i]
      else if i \<le> MAX_VAR_INT4 then
        store_front b
          [as_u8 (drop_bit 24 i) OR 0x80, as_u8 (drop_bit 16 i), as_u8 (drop_bit 8 i), as_u8 i]
      else if i \<le> MAX_VAR_INT8 then
        store_front b
          [as_u8 (drop_bit 56 i) OR 0xc0, as_u8 (drop_bit 48 i), as_u8 (drop_bit 40 i),
           as_u8 (drop_bit 32 i), as_u8 (drop_bit 24 i), as_u8 (drop_bit 16 i),
           as_u8 (drop_bit 8 i), as_u8 i]
      else Panic)"

text \<open>\<^verbatim>\<open>put(&mut buf[i..], v)\<close>.\<close>

definition varint_put_at :: "bytes \<Rightarrow> nat \<Rightarrow> u64 \<Rightarrow> (bytes \<times> nat) exec" where
  "varint_put_at buf i v =
     (if i \<le> length buf
      then exec_bind (varint_put (drop i buf) v) (\<lambda>(b, n). Ret (take i buf @ b, n)) else Panic)"

fun varint_read_loop :: "nat \<Rightarrow> u64 \<Rightarrow> bytes \<Rightarrow> io_error + (u64 \<times> bytes)" where
  "varint_read_loop 0 v r = Inr (v, r)"
| "varint_read_loop (Suc n) v r =
     and_then (read_exact 1 r)
       (\<lambda>(b, r'). varint_read_loop n (push_bit 8 v OR ucast (hd b)) r')"

definition varint_read :: "bytes \<Rightarrow> io_error + (u64 \<times> bytes)" where
  "varint_read r =
     and_then (read_exact 1 r)
       (\<lambda>(first, r').
          let length' = 2 ^ unat (drop_bit 6 (hd first AND 0xc0));
              v = ucast (hd first AND 0x3f)
          in varint_read_loop (length' - 1) v r')"

text \<open>
  The wire format of RFC 9000 section 16 as a specification: the big-endian digits of the value
  in base 256 over the chosen width, with the two length bits added to the first byte.
\<close>

fun be_digits :: "nat \<Rightarrow> nat \<Rightarrow> bytes" where
  "be_digits 0 v = []"
| "be_digits (Suc n) v = be_digits n (v div 256) @ [of_nat (v mod 256)]"

definition varint_wire :: "u64 \<Rightarrow> bytes" where
  "varint_wire i =
     (let n = varint_len i; d = be_digits n (unat i);
          tag = (if n = 1 then 0 else if n = 2 then 0x40 else if n = 4 then 0x80 else 0xc0)
      in (hd d + tag) # tl d)"

section \<open>The contract of a self-delimiting frame\<close>

locale prefix_codec =
  fixes valid :: "'a \<Rightarrow> bool"
    and enc :: "'a \<Rightarrow> bytes"
    and dec :: "bytes \<Rightarrow> io_error + ('b \<times> bytes)"
    and view :: "'a \<Rightarrow> 'b"
  assumes dec_enc: "valid x \<Longrightarrow> dec (enc x @ r) = Inr (view x, r)"
    and dec_short: "valid x \<Longrightarrow> k < length (enc x) \<Longrightarrow> dec (take k (enc x)) = Inl UnexpectedEof"
begin

lemma enc_inj: "valid x \<Longrightarrow> valid y \<Longrightarrow> enc x @ r = enc y @ s \<Longrightarrow> view x = view y \<and> r = s"
  by (metis dec_enc Inr_inject prod.inject)

text \<open>On any prefix of a stream that starts with a frame, the reader waits or decodes it.\<close>

lemma dec_prefix:
  assumes "valid x"
  shows "dec (take k (enc x @ r)) =
    (if k < length (enc x) then Inl UnexpectedEof else Inr (view x, take (k - length (enc x)) r))"
  using assms by (simp add: dec_short dec_enc)

end

section \<open>Word and digit lemmas\<close>

lemma length_be_digits [simp]: "length (be_digits n v) = n"
  by (induction n arbitrary: v) auto

lemma as_u8_drop_bit: "as_u8 (drop_bit k i) = of_nat (unat i div 2 ^ k mod 256)"
proof -
  have "unat (as_u8 (drop_bit k i)) = take_bit 8 (drop_bit k (unat i))"
    unfolding as_u8_def unsigned_ucast_eq unat_drop_bit_eq by simp
  also have "\<dots> = unat i div 2 ^ k mod 256"
    by (simp add: drop_bit_eq_div take_bit_eq_mod)
  finally show ?thesis by (simp add: word_unat_eq_iff unat_of_nat)
qed

lemma as_u8_low: "as_u8 i = of_nat (unat i mod 256)"
  using as_u8_drop_bit [of 0 i] by simp

lemma or_shift_byte:
  fixes v :: u64 and b :: u8
  assumes "unat v < 2 ^ 56"
  shows "unat (push_bit 8 v OR ucast b) = unat v * 256 + unat b"
proof -
  have "push_bit 8 (unat v) < 2 ^ 64" using assms by (simp add: push_bit_eq_mult)
  then have "unat (push_bit 8 v) = push_bit 8 (unat v)"
    unfolding unsigned_push_bit_eq by (simp add: take_bit_eq_mod)
  moreover have "unat (ucast b :: u64) = unat b"
    unfolding unsigned_ucast_eq using unsigned_less [of b, where ?'a = nat]
    by (simp add: take_bit_eq_mod)
  ultimately have "unat (push_bit 8 v OR ucast b) = (push_bit 8 (unat v) OR unat b)"
    by (simp only: unsigned_or_eq)
  also have "\<dots> = push_bit 8 (unat v) + unat b"
    by (rule disjunctive_add_eq_or [symmetric])
       (auto simp: bit_eq_iff bit_simps dest: bit_imp_le_length)
  finally show ?thesis by (simp add: push_bit_eq_mult)
qed

lemma or_tag:
  fixes x :: u8
  assumes "unat x < 64"
  shows "x OR 0x40 = x + 0x40" "x OR 0x80 = x + 0x80" "x OR 0xc0 = x + 0xc0"
proof -
  have "take_bit 6 x = x"
    using assms by (simp add: word_unat_eq_iff unat_mod_distrib take_bit_eq_mod)
  then have low: "bit x n \<Longrightarrow> n < 6" for n
    by (metis bit_take_bit_iff)
  have "x OR push_bit 6 t = x + push_bit 6 t" for t
    by (rule disjunctive_add_eq_or [symmetric]) (auto simp: bit_eq_iff bit_simps dest: low)
  from this [of 1] this [of 2] this [of 3]
  show "x OR 0x40 = x + 0x40" "x OR 0x80 = x + 0x80" "x OR 0xc0 = x + 0xc0" by simp_all
qed

lemma tag_bits: "unat (drop_bit 6 (x AND 0xc0)) = unat x div 64" for x :: u8
proof -
  have "drop_bit 6 (x AND 0xc0) = drop_bit 6 x"
  proof (rule bit_word_eqI)
    fix n assume "n < LENGTH(8)"
    have "(0xc0 :: u8) = push_bit 6 3" by simp
    then have "bit (0xc0 :: u8) (6 + n) \<longleftrightarrow> bit (3 :: u8) n \<and> n < 2"
      using bit_push_bit_iff [of 6 "3 :: u8" "6 + n"] by (auto dest: bit_imp_le_length)
    moreover have "bit x (6 + n) \<Longrightarrow> n < 2" by (auto dest: bit_imp_le_length)
    moreover have "n < 2 \<Longrightarrow> bit (3 :: u8) n" by (auto simp: less_2_cases_iff)
    ultimately show "bit (drop_bit 6 (x AND 0xc0)) n = bit (drop_bit 6 x) n"
      by (auto simp: bit_drop_bit_eq bit_and_iff)
  qed
  then show ?thesis by (simp only: unat_drop_bit_eq) (simp add: drop_bit_eq_div)
qed

lemma value_bits: "unat (ucast (x AND 0x3f) :: u64) = unat x mod 64" for x :: u8
proof -
  have "x AND 0x3f = take_bit 6 x" by (simp add: take_bit_eq_mask mask_eq_exp_minus_1)
  then have "unat (x AND 0x3f) = unat x mod 64"
    by (simp add: unat_mod_distrib take_bit_eq_mod)
  moreover have "unat x mod 64 < 64" by simp
  ultimately show ?thesis
    unfolding unsigned_ucast_eq by (simp add: take_bit_eq_mod)
qed

lemma unat_add_tag:
  fixes x :: u8
  assumes "unat x < 64"
  shows "unat (x + 0x40) = unat x + 64" "unat (x + 0x80) = unat x + 128"
    "unat (x + 0xc0) = unat x + 192"
  using assms by (simp_all add: unat_word_ariths)

lemma tag_arith:
  fixes a :: nat
  assumes "a < 64"
  shows "(a + 64) mod 64 = a" "(a + 128) mod 64 = a" "(a + 192) mod 64 = a"
    "(a + 64) div 64 = 1" "(a + 128) div 64 = 2" "(a + 192) div 64 = 3"
proof -
  have "(a + t * 64) mod 64 = a \<and> (a + t * 64) div 64 = t" for t
    using assms by simp
  from this [of 1] this [of 2] this [of 3]
  show "(a + 64) mod 64 = a" "(a + 128) mod 64 = a" "(a + 192) mod 64 = a"
    "(a + 64) div 64 = 1" "(a + 128) div 64 = 2" "(a + 192) div 64 = 3" by simp_all
qed

section \<open>Digits in base 256\<close>

definition be_val :: "bytes \<Rightarrow> nat" where
  "be_val ds = foldl (\<lambda>a d. a * 256 + unat d) 0 ds"

lemma be_val_foldl: "foldl (\<lambda>a d. a * 256 + unat d) a ds = a * 256 ^ length ds + be_val ds"
proof -
  have "foldl (\<lambda>a d. a * 256 + unat (d :: u8)) a ds =
    a * 256 ^ length ds + foldl (\<lambda>a d. a * 256 + unat d) 0 ds"
  proof (induction ds arbitrary: a)
    case (Cons d ds)
    from Cons [of "a * 256 + unat d"] Cons [of "unat d"] show ?case
      by (simp add: add_mult_distrib mult.assoc)
  qed simp
  then show ?thesis by (simp add: be_val_def)
qed

lemma be_val_simps [simp]:
  "be_val [] = 0" "be_val (d # ds) = unat d * 256 ^ length ds + be_val ds"
  "be_val (ds @ [d]) = be_val ds * 256 + unat d"
  using be_val_foldl [of "unat d" ds] by (simp_all add: be_val_def)

lemma be_val_be_digits: "be_val (be_digits n v) = v mod 256 ^ n"
proof (induction n arbitrary: v)
  case (Suc n)
  have "v mod 256 ^ Suc n = v div 256 mod 256 ^ n * 256 + v mod 256"
    by (simp add: mod_mult2_eq mult.commute)
  with Suc show ?case by (simp add: unat_of_nat)
qed simp

lemma varint_read_loop_val:
  assumes "unat v * 256 ^ length ds + be_val ds < 2 ^ 64"
  shows "\<exists>w. varint_read_loop (length ds) v (ds @ r) = Inr (w, r) \<and>
    unat w = unat v * 256 ^ length ds + be_val ds"
  using assms
proof (induction ds arbitrary: v)
  case (Cons d ds)
  have "unat v * 256 < 2 ^ 64"
  proof -
    have "unat v * 256 * 1 \<le> unat v * 256 * 256 ^ length ds" by (intro mult_left_mono) simp_all
    also have "\<dots> \<le> unat v * 256 ^ length (d # ds) + be_val (d # ds)" by (simp add: mult.assoc)
    also note Cons.prems
    finally show ?thesis by simp
  qed
  then have step: "unat (push_bit 8 v OR ucast d) = unat v * 256 + unat d"
    by (intro or_shift_byte) simp
  with Cons.prems have "unat (push_bit 8 v OR ucast d) * 256 ^ length ds + be_val ds < 2 ^ 64"
    by (simp add: algebra_simps)
  from Cons.IH [OF this] step show ?case
    by (simp add: slice_simps algebra_simps)
qed simp

lemma varint_read_loop_short:
  "length ds < n \<Longrightarrow> varint_read_loop n v ds = Inl UnexpectedEof"
proof (induction ds arbitrary: n v)
  case Nil
  then obtain m where "n = Suc m" by (cases n) auto
  then show ?case by (simp add: slice_simps)
next
  case (Cons d ds)
  then obtain m where "n = Suc m" by (cases n) auto
  with Cons show ?case by (simp add: slice_simps)
qed

section \<open>The codec writes and reads the wire format\<close>

lemmas MAX_VAR_INT_defs =
  MAX_VAR_INT1_def MAX_VAR_INT2_def MAX_VAR_INT4_def MAX_VAR_INT8_def

lemma varint_len_range:
  assumes "i \<le> MAX_VAR_INT8"
  shows "varint_len i \<in> {1, 2, 4, 8}" "unat i < 64 * 256 ^ (varint_len i - 1)"
  using assms by (auto simp: varint_len_def MAX_VAR_INT_defs word_le_nat_alt)

lemma be_digits_head:
  assumes "0 < n" "v < 64 * 256 ^ (n - 1)"
  obtains x ds where "be_digits n v = x # ds" "length ds = n - 1" "unat x < 64"
    "unat x * 256 ^ (n - 1) + be_val ds = v"
proof (cases "be_digits n v")
  case Nil
  then have "length (be_digits n v) = 0" by simp
  with assms(1) show ?thesis by simp
next
  case (Cons x ds)
  then have len: "length ds = n - 1" using length_be_digits [of n v] by simp
  have "v < 256 ^ n" using assms by (cases n) auto
  then have val: "unat x * 256 ^ (n - 1) + be_val ds = v"
    using be_val_be_digits [of n v] Cons len by simp
  then have "unat x * 256 ^ (n - 1) < 64 * 256 ^ (n - 1)" using assms(2) by linarith
  then have "unat x < 64" by simp
  with Cons len val show ?thesis by (intro that)
qed

text \<open>The two length bits, as a number: widths 1, 2, 4, 8 are tags 0, 1, 2, 3.\<close>

lemma varint_wire_cases:
  assumes "i \<le> MAX_VAR_INT8"
  obtains x ds t where "varint_wire i = x # ds" "length (x # ds) = varint_len i"
    "varint_len i = 2 ^ t" "unat x div 64 = t"
    "unat x mod 64 * 256 ^ length ds + be_val ds = unat i"
proof -
  note r = varint_len_range [OF assms]
  have pos: "0 < varint_len i" using r(1) by auto
  obtain x ds where d: "be_digits (varint_len i) (unat i) = x # ds" "length ds = varint_len i - 1"
    "unat x < 64" "unat x * 256 ^ (varint_len i - 1) + be_val ds = unat i"
    by (rule be_digits_head [OF pos r(2)])
  consider "varint_len i = 1" | "varint_len i = 2" | "varint_len i = 4" | "varint_len i = 8"
    using r(1) by auto
  then show ?thesis
  proof cases
    case 1 with d show ?thesis by (intro that [of x ds 0]) (simp_all add: varint_wire_def)
  next
    case 2 with d unat_add_tag [OF d(3)] show ?thesis
      by (intro that [of "x + 0x40" ds 1]) (simp_all add: varint_wire_def Let_def tag_arith)
  next
    case 3 with d unat_add_tag [OF d(3)] show ?thesis
      by (intro that [of "x + 0x80" ds 2]) (simp_all add: varint_wire_def Let_def tag_arith)
  next
    case 4 with d unat_add_tag [OF d(3)] show ?thesis
      by (intro that [of "x + 0xc0" ds 3]) (simp_all add: varint_wire_def Let_def tag_arith)
  qed
qed

lemma length_varint_wire: "i \<le> MAX_VAR_INT8 \<Longrightarrow> length (varint_wire i) = varint_len i"
  by (erule varint_wire_cases) simp

lemma varint_read_wire:
  assumes "i \<le> MAX_VAR_INT8"
  shows "varint_read (varint_wire i @ r) = Inr (i, r)"
proof -
  obtain x ds t where w: "varint_wire i = x # ds" "length (x # ds) = varint_len i"
    "varint_len i = 2 ^ t" "unat x div 64 = t"
    "unat x mod 64 * 256 ^ length ds + be_val ds = unat i"
    by (rule varint_wire_cases [OF assms])
  let ?v = "ucast (x AND 0x3f) :: u64"
  have "unat ?v * 256 ^ length ds + be_val ds < 2 ^ 64"
    using w(5) unsigned_less [of i, where ?'a = nat] by (simp add: value_bits)
  from varint_read_loop_val [OF this, of r] obtain v
    where "varint_read_loop (length ds) ?v (ds @ r) = Inr (v, r)" "unat v = unat i"
    using w(5) by (auto simp: value_bits)
  moreover from w(2,3,4) have "2 ^ unat (drop_bit 6 (x AND 0xc0)) - 1 = length ds"
    unfolding tag_bits by simp
  ultimately show ?thesis
    using w(1) by (simp add: varint_read_def slice_simps word_unat_eq_iff Let_def)
qed

lemma varint_read_short:
  assumes "i \<le> MAX_VAR_INT8" "k < varint_len i"
  shows "varint_read (take k (varint_wire i)) = Inl UnexpectedEof"
proof -
  obtain x ds t where w: "varint_wire i = x # ds" "length (x # ds) = varint_len i"
    "varint_len i = 2 ^ t" "unat x div 64 = t"
    by (rule varint_wire_cases [OF assms(1)])
  have len: "2 ^ unat (drop_bit 6 (x AND 0xc0)) - 1 = length ds"
    using w(2,3,4) unfolding tag_bits by simp
  show ?thesis
  proof (cases k)
    case 0 then show ?thesis by (simp add: varint_read_def slice_simps)
  next
    case (Suc j)
    with assms(2) w(2) have "length (take j ds) < length ds" by simp
    from varint_read_loop_short [OF this] Suc w(1) len show ?thesis
      by (simp add: varint_read_def slice_simps Let_def)
  qed
qed

lemma be_digits_widths:
  "be_digits 1 v = [of_nat (v mod 256)]"
  "be_digits 2 v = [of_nat (v div 256 mod 256), of_nat (v mod 256)]"
  "be_digits 4 v =
    [of_nat (v div 16777216 mod 256), of_nat (v div 65536 mod 256), of_nat (v div 256 mod 256),
     of_nat (v mod 256)]"
  "be_digits 8 v =
    [of_nat (v div 72057594037927936 mod 256), of_nat (v div 281474976710656 mod 256),
     of_nat (v div 1099511627776 mod 256), of_nat (v div 4294967296 mod 256),
     of_nat (v div 16777216 mod 256), of_nat (v div 65536 mod 256), of_nat (v div 256 mod 256),
     of_nat (v mod 256)]"
proof -
  have n: "(2 :: nat) = Suc (Suc 0)" "(4 :: nat) = Suc (Suc (Suc (Suc 0)))"
    "(8 :: nat) = Suc (Suc (Suc (Suc (Suc (Suc (Suc (Suc 0)))))))" by simp_all
  note split = div_mult2_eq [of v, symmetric]
  show "be_digits 1 v = [of_nat (v mod 256)]" by simp
  show "be_digits 2 v = [of_nat (v div 256 mod 256), of_nat (v mod 256)]"
    unfolding n by (simp add: split)
  show "be_digits 4 v = [of_nat (v div 16777216 mod 256), of_nat (v div 65536 mod 256),
     of_nat (v div 256 mod 256), of_nat (v mod 256)]"
    unfolding n by (simp add: split)
  show "be_digits 8 v =
    [of_nat (v div 72057594037927936 mod 256), of_nat (v div 281474976710656 mod 256),
     of_nat (v div 1099511627776 mod 256), of_nat (v div 4294967296 mod 256),
     of_nat (v div 16777216 mod 256), of_nat (v div 65536 mod 256), of_nat (v div 256 mod 256),
     of_nat (v mod 256)]"
    unfolding n by (simp add: split)
qed

lemma varint_put_wire:
  assumes "i \<le> MAX_VAR_INT8"
  shows "varint_put b i = store_front b (varint_wire i)"
proof -
  have b56: "unat (of_nat (unat i div 2 ^ 56 mod 256) :: u8) < 64"
    using assms by (simp add: MAX_VAR_INT_defs word_le_nat_alt unat_of_nat)
  have b24: "i \<le> MAX_VAR_INT4 \<Longrightarrow> unat (of_nat (unat i div 2 ^ 24 mod 256) :: u8) < 64"
    by (simp add: MAX_VAR_INT_defs word_le_nat_alt unat_of_nat)
  have b8: "i \<le> MAX_VAR_INT2 \<Longrightarrow> unat (of_nat (unat i div 2 ^ 8 mod 256) :: u8) < 64"
    by (simp add: MAX_VAR_INT_defs word_le_nat_alt unat_of_nat)
  show ?thesis
    unfolding varint_put_def varint_wire_def varint_len_def Let_def as_u8_drop_bit
    unfolding as_u8_low
    using assms or_tag(1) [OF b8] or_tag(2) [OF b24] or_tag(3) [OF b56]
    by (simp add: be_digits_widths [simplified])
qed

interpretation vi: prefix_codec "\<lambda>i. i \<le> MAX_VAR_INT8" varint_wire varint_read "\<lambda>i. i"
  by unfold_locales (auto simp: varint_read_wire varint_read_short length_varint_wire)

lemma varint_put_at_wire [slice_simps]:
  assumes "v \<le> MAX_VAR_INT8" "i = length a" "varint_len v \<le> length b"
  shows "varint_put_at (a @ b) i v = Ret (a @ varint_wire v @ drop (varint_len v) b, varint_len v)"
  using assms
  by (simp add: varint_put_at_def varint_put_wire store_front_def length_varint_wire)

lemma varint_put_panics:
  "varint_put b i = Panic \<longleftrightarrow> MAX_VAR_INT8 < i \<or> length b < varint_len i"
proof (cases "i \<le> MAX_VAR_INT8")
  case True
  then show ?thesis
    by (auto simp: varint_put_wire store_front_def length_varint_wire)
next
  case False
  then have "\<not> i \<le> MAX_VAR_INT1" "\<not> i \<le> MAX_VAR_INT2" "\<not> i \<le> MAX_VAR_INT4"
    by (auto simp: MAX_VAR_INT_defs word_le_nat_alt)
  with False have "varint_put b i = Panic" by (simp add: varint_put_def)
  moreover from False have "MAX_VAR_INT8 < i" by simp
  ultimately show ?thesis by blast
qed

text \<open>How much of its input a varint takes, and when it is too short.\<close>

lemma varint_read_loop_cases:
  "varint_read_loop k v r = Inr (w, r') \<Longrightarrow> k \<le> length r \<and> r' = drop k r"
  "varint_read_loop k v r = Inl e \<Longrightarrow> e = UnexpectedEof \<and> length r < k"
  by (induction k v r rule: varint_read_loop.induct) (fastforce simp: read_exact_def split: if_splits)+

lemma varint_width_le: "2 ^ unat (drop_bit 6 (b AND 0xc0 :: u8)) \<le> (8 :: nat)"
proof -
  have "unat (drop_bit 6 (b AND 0xc0)) \<le> 3"
    using word_and_le1 [of "drop_bit 6 b" 3] by (simp add: word_le_nat_alt)
  from power_increasing [OF this, of "2 :: nat"] show ?thesis by simp
qed

lemma varint_read_cases:
  "varint_read r = Inr (v, r') \<Longrightarrow> length r \<le> length r' + 8"
  "varint_read r = Inl e \<Longrightarrow> e = UnexpectedEof \<and> length r < 8"
proof -
  define k :: nat where "k = 2 ^ unat (drop_bit 6 (hd r AND 0xc0)) - 1"
  have k: "k \<le> 7" using varint_width_le [of "hd r"] by (simp add: k_def)
  have r: "varint_read r = (if r = [] then Inl UnexpectedEof
    else varint_read_loop k (ucast (hd r AND 0x3f)) (tl r))"
    by (cases r) (auto simp: varint_read_def read_exact_def Let_def k_def)
  show "length r \<le> length r' + 8" if "varint_read r = Inr (v, r')"
  proof -
    have "varint_read_loop k (ucast (hd r AND 0x3f)) (tl r) = Inr (v, r')"
      using that by (simp add: r split: if_splits)
    from varint_read_loop_cases(1) [OF this] k show ?thesis by auto
  qed
  show "e = UnexpectedEof \<and> length r < 8" if "varint_read r = Inl e"
  proof (cases "r = []")
    case False
    with that have "varint_read_loop k (ucast (hd r AND 0x3f)) (tl r) = Inl e" by (simp add: r)
    from varint_read_loop_cases(2) [OF this] k show ?thesis by auto
  qed (use that r in simp)
qed

lemma varint_read_rest: "varint_read r = Inr (v, r') \<Longrightarrow> length r' \<le> length r"
  by (auto simp: varint_read_def read_exact_def Let_def dest!: varint_read_loop_cases split: if_splits)

section \<open>Properties\<close>

text \<open>
  C37. \<^verbatim>\<open>varint::put\<close> into a slice that holds the encoding writes exactly \<^verbatim>\<open>varint::len\<close>
  bytes at its front, leaves the rest of the slice as it was, and \<^verbatim>\<open>varint::read\<close> gives back the
  value together with exactly the bytes that follow; outside these conditions \<^verbatim>\<open>put\<close> panics.
\<close>

theorem varint_put_read_roundtrip:
  "varint_put b i =
     (if i \<le> MAX_VAR_INT8 \<and> varint_len i \<le> length b
      then Ret (varint_wire i @ drop (varint_len i) b, varint_len i)
      else Panic) \<and>
   (i \<le> MAX_VAR_INT8 \<longrightarrow>
      length (varint_wire i) = varint_len i \<and> varint_read (varint_wire i @ r) = Inr (i, r))"
proof (cases "i \<le> MAX_VAR_INT8")
  case True
  then show ?thesis
    by (simp add: varint_put_wire store_front_def length_varint_wire vi.dec_enc)
next
  case False
  then show ?thesis using varint_put_panics [of b i] by auto
qed

theorem varint_put_read_roundtrip_witness:
  "varint_put [7, 7, 7] 300 = Ret ([0x41, 0x2c, 7], 2) \<and> varint_read [0x41, 0x2c, 9] = Inr (300, [9])"
proof -
  have m: "(300 :: u64) \<le> MAX_VAR_INT8" by (simp add: MAX_VAR_INT8_def)
  have w: "varint_wire 300 = [0x41, 0x2c]" "varint_len 300 = 2"
    by (simp_all add: varint_wire_def varint_len_def MAX_VAR_INT_defs be_digits_widths)
  show ?thesis
    using varint_put_read_roundtrip [of "[7, 7, 7]" 300 "[9]"] m by (simp add: w)
qed

end
