(* ===== verification/Proxy.thy ===== *)
theory Proxy
  imports Varint
begin

text \<open>
  The Hysteria wire framing of \<^verbatim>\<open>crates/hysteria/src/internal/protocol/\<close>: random padding
  (\<^verbatim>\<open>padding.rs\<close>), the TCP proxy request and response, and UDP messages (\<^verbatim>\<open>proxy.rs\<close>). The
  writers fill a zeroed or caller-supplied buffer slice by slice as the code does; the lemmas
  show that what they leave there is the documented format, without a panic, and that the readers
  take it back apart.
\<close>

section \<open>Padding\<close>

definition PADDING_CHARS :: string where
  "PADDING_CHARS = ''abcdefghijklmnopqrstuvwxyzABCDEFGHIJKLMNOPQRSTUVWXYZ0123456789''"

record padding_range =
  pad_min :: nat
  pad_max :: nat

definition AUTH_REQUEST_PADDING :: padding_range where
  "AUTH_REQUEST_PADDING = \<lparr>pad_min = 256, pad_max = 2048\<rparr>"

definition TCP_REQUEST_PADDING :: padding_range where
  "TCP_REQUEST_PADDING = \<lparr>pad_min = 64, pad_max = 512\<rparr>"

definition padding_string :: "rng \<Rightarrow> padding_range \<Rightarrow> string" where
  "padding_string rng p =
     (let extra = pad_max p - pad_min p;
          n = pad_min p + (if extra = 0 then 0 else rng 0 extra)
      in map (\<lambda>i. PADDING_CHARS ! rng (Suc i) (length PADDING_CHARS)) [0..<n])"

section \<open>TCP proxy requests and responses\<close>

definition FRAME_TYPE_TCP_REQUEST :: u64 where "FRAME_TYPE_TCP_REQUEST = 0x401"
definition MAX_MESSAGE_LENGTH :: nat where "MAX_MESSAGE_LENGTH = 2048"
definition MAX_PADDING_LENGTH :: nat where "MAX_PADDING_LENGTH = 4096"
definition MAX_UDP_SIZE :: nat where "MAX_UDP_SIZE = 4096"

definition discard_exact :: "bytes \<Rightarrow> u64 \<Rightarrow> io_error + bytes" where
  "discard_exact r n =
     (let copied = min (unat n) (length r)
      in if copied < unat n then Inl UnexpectedEof else Inr (drop copied r))"

definition write_tcp_request :: "rng \<Rightarrow> string \<Rightarrow> bytes exec" where
  "write_tcp_request rng addr =
     (let padding = padding_string rng TCP_REQUEST_PADDING;
          padding_len = length padding;
          addr_len = length addr;
          sz = varint_len FRAME_TYPE_TCP_REQUEST + varint_len (of_nat addr_len) + addr_len
             + varint_len (of_nat padding_len) + padding_len
      in exec_bind (varint_put_at (replicate sz 0) 0 FRAME_TYPE_TCP_REQUEST) (\<lambda>(buf, i).
         exec_bind (varint_put_at buf i (of_nat addr_len)) (\<lambda>(buf, n).
         let i = i + n in
         exec_bind (copy_at buf i (as_bytes addr)) (\<lambda>buf.
         let i = i + addr_len in
         exec_bind (varint_put_at buf i (of_nat padding_len)) (\<lambda>(buf, n).
         let i = i + n in
         copy_at buf i (as_bytes padding))))))"

text \<open>
  The conversions \<^verbatim>\<open>usize::try_from\<close> of a length already bounded by 2048 cannot fail and are
  left out.
\<close>

definition read_tcp_response :: "bytes \<Rightarrow> io_error + ((bool \<times> string) \<times> bytes)" where
  "read_tcp_response r =
     and_then (read_exact 1 r) (\<lambda>(status, r).
     and_then (varint_read r) (\<lambda>(msg_len, r).
     if of_nat MAX_MESSAGE_LENGTH < msg_len then Inl (InvalidData ''invalid message length'')
     else
     and_then (if 0 < msg_len then read_exact (unat msg_len) r else Inr ([], r)) (\<lambda>(msg_buf, r).
     and_then (varint_read r) (\<lambda>(padding_len, r).
     if of_nat MAX_PADDING_LENGTH < padding_len then Inl (InvalidData ''invalid padding length'')
     else
     and_then (if 0 < padding_len then discard_exact r padding_len else Inr r) (\<lambda>r.
     case from_utf8 msg_buf of
       None \<Rightarrow> Inl (InvalidData ''invalid message encoding'')
     | Some msg \<Rightarrow> Inr ((hd status = 0, msg), r))))))"

section \<open>UDP messages\<close>

record udp_message =
  session_id :: u32
  packet_id :: u16
  frag_id :: u8
  frag_count :: u8
  addr :: string
  data :: bytes

definition header_size :: "udp_message \<Rightarrow> nat" where
  "header_size m =
     (let l_addr = length (addr m) in 4 + 2 + 1 + 1 + varint_len (of_nat l_addr) + l_addr)"

definition udp_size :: "udp_message \<Rightarrow> nat" where
  "udp_size m = header_size m + length (data m)"

text \<open>\<^verbatim>\<open>to_be_bytes\<close> and \<^verbatim>\<open>from_be_bytes\<close>.\<close>

definition u32_to_be :: "u32 \<Rightarrow> bytes" where "u32_to_be w = be_digits 4 (unat w)"
definition u16_to_be :: "u16 \<Rightarrow> bytes" where "u16_to_be w = be_digits 2 (unat w)"
definition u32_from_be :: "bytes \<Rightarrow> u32" where "u32_from_be bs = of_nat (be_val bs)"
definition u16_from_be :: "bytes \<Rightarrow> u16" where "u16_from_be bs = of_nat (be_val bs)"

text \<open>The new contents of the buffer, and the byte count or \<^verbatim>\<open>None\<close>.\<close>

definition serialize :: "udp_message \<Rightarrow> bytes \<Rightarrow> (bytes \<times> nat option) exec" where
  "serialize m buf =
     (if length buf < udp_size m then Ret (buf, None)
      else
        exec_bind (copy_at buf 0 (u32_to_be (session_id m))) (\<lambda>buf.
        exec_bind (copy_at buf 4 (u16_to_be (packet_id m))) (\<lambda>buf.
        exec_bind (copy_at buf 6 [frag_id m]) (\<lambda>buf.
        exec_bind (copy_at buf 7 [frag_count m]) (\<lambda>buf.
        exec_bind (varint_put_at buf 8 (of_nat (length (addr m)))) (\<lambda>(buf, i).
        exec_bind (copy_at buf (8 + i) (as_bytes (addr m))) (\<lambda>buf.
        let i = i + length (addr m) in
        exec_bind (copy_at buf (8 + i) (data m)) (\<lambda>buf.
        let i = i + length (data m) in
        Ret (buf, Some (8 + i))))))))))"

definition parse_udp_message :: "bytes \<Rightarrow> io_error + udp_message" where
  "parse_udp_message msg =
     and_then (read_exact 8 msg) (\<lambda>(header, rest).
     let sid = u32_from_be (take 4 header);
         pid = u16_from_be (take 2 (drop 4 header));
         fid = header ! 6;
         fcount = header ! 7
     in and_then (varint_read rest) (\<lambda>(l_addr, rest).
     if l_addr = 0 \<or> of_nat MAX_MESSAGE_LENGTH < l_addr
     then Inl (InvalidData ''invalid address length'')
     else if length rest \<le> unat l_addr then Inl (InvalidData ''invalid message length'')
     else case from_utf8 (take (unat l_addr) rest) of
         None \<Rightarrow> Inl (InvalidData ''invalid address encoding'')
       | Some a \<Rightarrow>
           Inr \<lparr>session_id = sid, packet_id = pid, frag_id = fid, frag_count = fcount,
                addr = a, data = drop (unat l_addr) rest\<rparr>))"

section \<open>The documented formats\<close>

text \<open>
  The format comments of \<^verbatim>\<open>proxy.rs\<close> as byte lists. The response is what the server writes
  (\<open>(status, message, padding)\<close>); the client only reads it.
\<close>

definition tcp_request_wire :: "string \<Rightarrow> string \<Rightarrow> bytes" where
  "tcp_request_wire a padding =
     varint_wire FRAME_TYPE_TCP_REQUEST @ varint_wire (of_nat (length a)) @ as_bytes a @
     varint_wire (of_nat (length padding)) @ as_bytes padding"

fun tcp_response_wire :: "u8 \<times> string \<times> bytes \<Rightarrow> bytes" where
  "tcp_response_wire (status, msg, padding) =
     [status] @ varint_wire (of_nat (length msg)) @ as_bytes msg @
     varint_wire (of_nat (length padding)) @ padding"

fun tcp_response_ok :: "u8 \<times> string \<times> bytes \<Rightarrow> bool" where
  "tcp_response_ok (status, msg, padding) \<longleftrightarrow>
     is_str msg \<and> length msg \<le> MAX_MESSAGE_LENGTH \<and> length padding \<le> MAX_PADDING_LENGTH"

fun tcp_response_view :: "u8 \<times> string \<times> bytes \<Rightarrow> bool \<times> string" where
  "tcp_response_view (status, msg, padding) = (status = 0, msg)"

definition udp_wire :: "udp_message \<Rightarrow> bytes" where
  "udp_wire m =
     u32_to_be (session_id m) @ u16_to_be (packet_id m) @ [frag_id m, frag_count m] @
     varint_wire (of_nat (length (addr m))) @ as_bytes (addr m) @ data m"

text \<open>The messages a peer accepts: a non-empty UTF-8 address of at most 2048 bytes, and data.\<close>

definition udp_ok :: "udp_message \<Rightarrow> bool" where
  "udp_ok m \<longleftrightarrow>
     is_str (addr m) \<and> addr m \<noteq> [] \<and> length (addr m) \<le> MAX_MESSAGE_LENGTH \<and> data m \<noteq> []"

section \<open>Lemmas\<close>

lemma MAX_lengths [simp]:
  "MAX_MESSAGE_LENGTH = 2048" "MAX_PADDING_LENGTH = 4096" "MAX_UDP_SIZE = 4096"
  by (simp_all add: MAX_MESSAGE_LENGTH_def MAX_PADDING_LENGTH_def MAX_UDP_SIZE_def)

lemma of_nat_varint_ok:
  assumes "n < 2 ^ 62"
  shows "of_nat n \<le> MAX_VAR_INT8" "unat (of_nat n :: u64) = n"
proof -
  have "n < 2 ^ 64" using assms by simp
  then show u: "unat (of_nat n :: u64) = n" by (simp add: unat_of_nat)
  show "of_nat n \<le> MAX_VAR_INT8"
    using assms by (simp add: word_le_nat_alt u MAX_VAR_INT8_def)
qed

lemma frame_type_ok: "FRAME_TYPE_TCP_REQUEST \<le> MAX_VAR_INT8"
  by (simp add: FRAME_TYPE_TCP_REQUEST_def MAX_VAR_INT8_def)

lemma u32_be_roundtrip: "u32_from_be (u32_to_be w) = w"
  using unsigned_less [of w, where ?'a = nat]
  by (simp add: u32_from_be_def u32_to_be_def be_val_be_digits)

lemma u16_be_roundtrip: "u16_from_be (u16_to_be w) = w"
  using unsigned_less [of w, where ?'a = nat]
  by (simp add: u16_from_be_def u16_to_be_def be_val_be_digits)

lemma length_be [simp]: "length (u32_to_be w) = 4" "length (u16_to_be v) = 2"
  by (simp_all add: u32_to_be_def u16_to_be_def)

lemma copy_at_end [slice_simps]:
  "i = length a \<Longrightarrow> length src = length b \<Longrightarrow> copy_at (a @ b) i src = Ret (a @ src)"
  by (simp add: copy_at_def)

lemma length_padding:
  assumes "rng_ok rng" "pad_min p < pad_max p"
  shows "pad_min p \<le> length (padding_string rng p)" "length (padding_string rng p) < pad_max p"
proof -
  have "rng 0 (pad_max p - pad_min p) < pad_max p - pad_min p"
    using assms by (simp add: rng_ok_def)
  with assms(2) show "pad_min p \<le> length (padding_string rng p)"
    "length (padding_string rng p) < pad_max p" by (auto simp: padding_string_def Let_def)
qed

lemma padding_charset:
  assumes "rng_ok rng"
  shows "set (padding_string rng p) \<subseteq> set PADDING_CHARS"
proof -
  have "0 < length PADDING_CHARS" by (simp add: PADDING_CHARS_def)
  with assms have "rng k (length PADDING_CHARS) < length PADDING_CHARS" for k
    by (simp add: rng_ok_def)
  then show ?thesis by (auto simp: padding_string_def Let_def)
qed

section \<open>Filling a buffer from the front\<close>

text \<open>\<open>over a buf\<close>: the first bytes of \<open>buf\<close> overwritten with \<open>a\<close>.\<close>

definition over :: "bytes \<Rightarrow> bytes \<Rightarrow> bytes" where
  "over a buf = a @ drop (length a) buf"

lemma over_Nil: "over [] buf = buf"
  by (simp add: over_def)

lemma length_over: "length a \<le> length buf \<Longrightarrow> length (over a buf) = length buf"
  by (simp add: over_def)

lemma over_full: "length a = length buf \<Longrightarrow> over a buf = a"
  by (simp add: over_def)

lemma copy_at_over [slice_simps]:
  "i = length a \<Longrightarrow> length a + length src \<le> length buf \<Longrightarrow>
   copy_at (over a buf) i src = Ret (over (a @ src) buf)"
  by (simp add: over_def copy_at_def add.commute)

lemma varint_put_at_over [slice_simps]:
  "i = length a \<Longrightarrow> v \<le> MAX_VAR_INT8 \<Longrightarrow> length a + varint_len v \<le> length buf \<Longrightarrow>
   varint_put_at (over a buf) i v = Ret (over (a @ varint_wire v) buf, varint_len v)"
  by (simp add: over_def varint_put_at_wire length_varint_wire add.commute)

lemma write_tcp_request_wire:
  assumes "length a < 2 ^ 62" "length (padding_string rng TCP_REQUEST_PADDING) < 2 ^ 62"
  shows "write_tcp_request rng a =
    Ret (tcp_request_wire a (padding_string rng TCP_REQUEST_PADDING))"
proof -
  let ?p = "padding_string rng TCP_REQUEST_PADDING"
  let ?f = "FRAME_TYPE_TCP_REQUEST"
  note ok = of_nat_varint_ok [OF assms(1)] of_nat_varint_ok [OF assms(2)] frame_type_ok
  define sz where "sz = varint_len ?f + varint_len (of_nat (length a)) + length a
    + varint_len (of_nat (length ?p)) + length ?p"
  define z where "z = replicate sz (0 :: u8)"
  have z: "length z = varint_len ?f + varint_len (of_nat (length a)) + length a
    + varint_len (of_nat (length ?p)) + length ?p" by (simp add: z_def sz_def)
  have start: "replicate sz 0 = over [] z" by (simp add: over_Nil z_def)
  have "write_tcp_request rng a = Ret (over (tcp_request_wire a ?p) z)"
    unfolding write_tcp_request_def Let_def sz_def [symmetric] start
    by (simp add: slice_simps ok z length_varint_wire tcp_request_wire_def)
  then show ?thesis
    by (simp add: over_full z tcp_request_wire_def length_varint_wire ok)
qed

lemma serialize_wire:
  assumes "length (addr m) < 2 ^ 62"
  shows "serialize m buf =
    (if length buf < udp_size m then Ret (buf, None)
     else Ret (udp_wire m @ drop (udp_size m) buf, Some (udp_size m)))"
proof (cases "length buf < udp_size m")
  case True
  then show ?thesis by (simp add: serialize_def)
next
  case False
  note ok = of_nat_varint_ok [OF assms]
  have len: "length (udp_wire m) = udp_size m"
    by (simp add: udp_wire_def udp_size_def header_size_def length_varint_wire ok Let_def)
  have "serialize m (over [] buf) = Ret (over (udp_wire m) buf, Some (udp_size m))"
    using False
    by (simp add: serialize_def slice_simps ok length_varint_wire udp_wire_def length_over
        udp_size_def header_size_def Let_def)
  with False len show ?thesis by (simp add: over_def)
qed

lemma discard_exact_append [slice_simps]:
  "unat n = length a \<Longrightarrow> discard_exact (a @ r) n = Inr r"
  by (simp add: discard_exact_def)

lemma discard_exact_short [slice_simps]:
  "length r < unat n \<Longrightarrow> discard_exact r n = Inl UnexpectedEof"
  by (simp add: discard_exact_def)

lemma of_nat_u64_small:
  assumes "n < 2 ^ 62" "k < 2 ^ 62"
  shows "(of_nat k < (of_nat n :: u64)) = (k < n)" "((0 :: u64) < of_nat n) = (0 < n)"
  by (simp_all add: word_less_nat_alt of_nat_varint_ok [OF assms(1)] of_nat_varint_ok [OF assms(2)])

text \<open>A TCP response is a self-delimiting frame, which \<^verbatim>\<open>Transport\<close> relies on.\<close>


lemma read_tcp_response_steps:
  assumes "length msg \<le> 2048" "length padding \<le> 4096"
  shows "\<not> (2048 :: u64) < of_nat (length msg)" "\<not> (4096 :: u64) < of_nat (length padding)"
    "((0 :: u64) < of_nat (length msg)) = (msg \<noteq> [])"
    "((0 :: u64) < of_nat (length padding)) = (padding \<noteq> [])"
    "unat (of_nat (length msg) :: u64) = length msg"
    "unat (of_nat (length padding) :: u64) = length padding"
    "of_nat (length msg) \<le> MAX_VAR_INT8" "of_nat (length padding) \<le> MAX_VAR_INT8"
proof -
  have m: "length msg < 2 ^ 62" and p: "length padding < 2 ^ 62" using assms by simp_all
  note u = of_nat_varint_ok [OF m] of_nat_varint_ok [OF p]
  show "\<not> (2048 :: u64) < of_nat (length msg)" "\<not> (4096 :: u64) < of_nat (length padding)"
    "((0 :: u64) < of_nat (length msg)) = (msg \<noteq> [])"
    "((0 :: u64) < of_nat (length padding)) = (padding \<noteq> [])"
    using assms by (simp_all add: word_less_nat_alt u)
qed (use assms in \<open>simp_all add: of_nat_varint_ok\<close>)

text \<open>Readers in sequence: a truncated stream ends the first or the second with an end of file.\<close>

lemma and_then_short:
  assumes "\<And>r. d (e @ r) = Inr (v, r)"
    and "\<And>k. k < length e \<Longrightarrow> d (take k e) = Inl UnexpectedEof"
    and "\<And>k. k < length e' \<Longrightarrow> f (v, take k e') = Inl UnexpectedEof"
    and "k < length (e @ e')"
  shows "and_then (d (take k (e @ e'))) f = Inl UnexpectedEof"
  using assms by (cases "k < length e") simp_all

lemma tcp_response_parts:
  fixes msg :: string and padding :: bytes
  assumes "length msg \<le> 2048" "length padding \<le> 4096"
  defines "lm \<equiv> of_nat (length msg)" and "lp \<equiv> of_nat (length padding)"
  shows "(if 0 < (lm :: u64) then read_exact (unat lm) (as_bytes msg @ s) else Inr ([], as_bytes msg @ s))
      = Inr (as_bytes msg, s)"
    "(if 0 < (lp :: u64) then discard_exact (padding @ s) lp else Inr (padding @ s)) = Inr s"
    "k < length msg \<Longrightarrow> (if 0 < lm then read_exact (unat lm) (take k (as_bytes msg))
       else Inr ([], take k (as_bytes msg))) = Inl UnexpectedEof"
    "k < length padding \<Longrightarrow> (if 0 < lp then discard_exact (take k padding) lp
       else Inr (take k padding)) = Inl UnexpectedEof"
  using read_tcp_response_steps [OF assms(1,2)] unfolding lm_def lp_def
  by (auto simp: slice_simps as_bytes_def)

lemma read_tcp_response_wire:
  assumes "tcp_response_ok x"
  shows "read_tcp_response (tcp_response_wire x @ r) = Inr (tcp_response_view x, r)"
proof -
  obtain status msg padding where x: "x = (status, msg, padding)" by (cases x)
  with assms have ok: "is_str msg" "length msg \<le> 2048" "length padding \<le> 4096" by auto
  note st = read_tcp_response_steps [OF ok(2,3)]
  show ?thesis using ok(1)
    by (simp add: x read_tcp_response_def slice_simps vi.dec_enc st(1,2,7,8)
        tcp_response_parts [OF ok(2,3)] del: of_nat_0_less_iff)
qed

text \<open>The steps of the reader after the message and after the status byte.\<close>

definition resp_tail :: "u8 \<Rightarrow> bytes \<times> bytes \<Rightarrow> io_error + ((bool \<times> string) \<times> bytes)" where
  "resp_tail status = (\<lambda>(msg_buf, r).
     and_then (varint_read r) (\<lambda>(padding_len, r).
     if of_nat MAX_PADDING_LENGTH < padding_len then Inl (InvalidData ''invalid padding length'')
     else
     and_then (if 0 < padding_len then discard_exact r padding_len else Inr r) (\<lambda>r.
     case from_utf8 msg_buf of
       None \<Rightarrow> Inl (InvalidData ''invalid message encoding'')
     | Some msg \<Rightarrow> Inr ((status = 0, msg), r))))"

definition resp_msg :: "u8 \<Rightarrow> u64 \<times> bytes \<Rightarrow> io_error + ((bool \<times> string) \<times> bytes)" where
  "resp_msg status = (\<lambda>(msg_len, r).
     if of_nat MAX_MESSAGE_LENGTH < msg_len then Inl (InvalidData ''invalid message length'')
     else and_then (if 0 < msg_len then read_exact (unat msg_len) r else Inr ([], r))
       (resp_tail status))"

lemma resp_tail_short:
  assumes "length padding \<le> 4096" "k < length (varint_wire (of_nat (length padding)) @ padding)"
  shows "resp_tail status (m, take k (varint_wire (of_nat (length padding)) @ padding)) =
    Inl UnexpectedEof"
  using assms read_tcp_response_steps [of "[]" padding] unfolding resp_tail_def prod.case
  by (intro and_then_short) (auto simp: vi.dec_enc vi.dec_short slice_simps)

lemma resp_msg_short:
  assumes "length msg \<le> 2048" "length padding \<le> 4096"
    and "k < length (as_bytes msg @ varint_wire (of_nat (length padding)) @ padding)"
  shows "resp_msg status (of_nat (length msg),
      take k (as_bytes msg @ varint_wire (of_nat (length padding)) @ padding)) = Inl UnexpectedEof"
  unfolding resp_msg_def prod.case
  using and_then_short [where f = "resp_tail status", OF tcp_response_parts(1,3) [OF assms(1,2)] _ assms(3)]
    resp_tail_short [OF assms(2)] read_tcp_response_steps [OF assms(1,2)]
  by simp

lemma read_tcp_response_short:
  assumes "tcp_response_ok x" "k < length (tcp_response_wire x)"
  shows "read_tcp_response (take k (tcp_response_wire x)) = Inl UnexpectedEof"
proof -
  obtain status msg padding where x: "x = (status, msg, padding)" by (cases x)
  with assms have ok: "length msg \<le> 2048" "length padding \<le> 4096" by auto
  let ?rest = "as_bytes msg @ varint_wire (of_nat (length padding)) @ padding"
  have rest: "and_then (varint_read (take j (varint_wire (of_nat (length msg)) @ ?rest)))
      (resp_msg status) = Inl UnexpectedEof"
    if "j < length (varint_wire (of_nat (length msg)) @ ?rest)" for j
    using read_tcp_response_steps [OF ok] resp_msg_short [OF ok]
    by (intro and_then_short [OF _ _ _ that]) (simp_all add: vi.dec_enc vi.dec_short)
  have unfold: "read_tcp_response (status # r) = and_then (varint_read r) (resp_msg status)" for r
    unfolding read_tcp_response_def resp_msg_def resp_tail_def
    by (simp only: One_nat_def read_exact_one and_then.simps prod.case list.sel)
  show ?thesis
  proof (cases k)
    case 0 then show ?thesis by (simp add: read_tcp_response_def slice_simps)
  next
    case (Suc j)
    with assms(2) rest [of j] show ?thesis by (simp add: x unfold)
  qed
qed

interpretation tr: prefix_codec tcp_response_ok tcp_response_wire read_tcp_response tcp_response_view
  by unfold_locales (simp_all add: read_tcp_response_wire read_tcp_response_short)


section \<open>Parsing UDP messages\<close>

lemma udp_header_take:
  "take 8 (u32_to_be s @ u16_to_be p @ f # c # r) = u32_to_be s @ u16_to_be p @ [f, c]"
  "drop 8 (u32_to_be s @ u16_to_be p @ f # c # r) = r"
proof -
  have "u32_to_be s @ u16_to_be p @ f # c # r = (u32_to_be s @ u16_to_be p @ [f, c]) @ r" by simp
  moreover have "length (u32_to_be s @ u16_to_be p @ [f, c]) = 8" by simp
  ultimately show "take 8 (u32_to_be s @ u16_to_be p @ f # c # r) = u32_to_be s @ u16_to_be p @ [f, c]"
    "drop 8 (u32_to_be s @ u16_to_be p @ f # c # r) = r"
    by (metis append_eq_conv_conj)+
qed

lemma udp_len_checks:
  fixes a :: string
  assumes "a \<noteq> []" "length a \<le> 2048"
  shows "(of_nat (length a) :: u64) \<noteq> 0" "\<not> (2048 :: u64) < of_nat (length a)"
    "unat (of_nat (length a) :: u64) = length a" "of_nat (length a) \<le> MAX_VAR_INT8"
proof -
  have "length a < 2 ^ 62" using assms by simp
  note u = of_nat_varint_ok [OF this]
  show "unat (of_nat (length a) :: u64) = length a" "of_nat (length a) \<le> MAX_VAR_INT8"
    by (rule u)+
  show "\<not> (2048 :: u64) < of_nat (length a)" using assms by (simp add: word_less_nat_alt u)
  show "(of_nat (length a) :: u64) \<noteq> 0" using u(2) assms by (metis length_0_conv unsigned_0)
qed

lemma parse_udp_wire:
  assumes "udp_ok m"
  shows "parse_udp_message (udp_wire m) = Inr m"
proof -
  have ok: "is_str (addr m)" "addr m \<noteq> []" "length (addr m) \<le> 2048" "data m \<noteq> []"
    using assms by (auto simp: udp_ok_def)
  note c = udp_len_checks [OF ok(2,3)]
  show ?thesis using ok(1,4)
    by (simp add: parse_udp_message_def udp_wire_def read_exact_def udp_header_take vi.dec_enc c
        u32_be_roundtrip u16_be_roundtrip nth_append)
qed

lemma varint_read_loop_suffix: "varint_read_loop n v r = Inr (w, r') \<Longrightarrow> \<exists>h. r = h @ r'"
  by (induction n arbitrary: v r)
     (auto simp: effect_simps read_exact_eq_Inr, metis append.assoc)

lemma varint_read_suffix: "varint_read r = Inr (w, r') \<Longrightarrow> \<exists>h. r = h @ r'"
  by (auto simp: varint_read_def effect_simps read_exact_eq_Inr Let_def
      dest!: varint_read_loop_suffix)

text \<open>What the parser accepts is inside its bounds, whatever the peer sent.\<close>

lemma parse_udp_ok:
  assumes "parse_udp_message bs = Inr m"
  shows "udp_ok m \<and> (\<exists>h. bs = h @ as_bytes (addr m) @ data m)"
proof -
  obtain header rest l_addr rest' where
    r: "read_exact 8 bs = Inr (header, rest)" "varint_read rest = Inr (l_addr, rest')"
    "l_addr \<noteq> 0" "\<not> of_nat MAX_MESSAGE_LENGTH < l_addr" "unat l_addr < length rest'"
    "from_utf8 (take (unat l_addr) rest') = Some (addr m)" "data m = drop (unat l_addr) rest'"
    using assms
    by (auto simp: parse_udp_message_def effect_simps Let_def split: if_splits option.splits)
  from r(1) obtain h where h: "bs = h @ rest" by (auto simp: read_exact_eq_Inr)
  from varint_read_suffix [OF r(2)] obtain h' where h': "rest = h' @ rest'" by blast
  have u: "unat l_addr \<noteq> 0" "unat l_addr \<le> 2048"
    using r(3,4) by (simp_all add: word_less_nat_alt unat_eq_0)
  from from_utf8_Some [OF r(6)] have a: "as_bytes (addr m) = take (unat l_addr) rest'"
    "is_str (addr m)" by auto
  from arg_cong [OF a(1), of length] r(5) have len: "length (addr m) = unat l_addr" by simp
  have "bs = (h @ h') @ as_bytes (addr m) @ data m" by (simp add: h h' a r(7))
  moreover have "udp_ok m" using a u len r(5,7) by (auto simp: udp_ok_def)
  ultimately show ?thesis by blast
qed

text \<open>The longest a response can be.\<close>

definition MAX_RESPONSE_LENGTH :: nat where
  "MAX_RESPONSE_LENGTH = 1 + 8 + MAX_MESSAGE_LENGTH + 8 + MAX_PADDING_LENGTH"

lemma read_tcp_response_eof:
  assumes "read_tcp_response r = Inl UnexpectedEof"
  shows "length r < MAX_RESPONSE_LENGTH"
  using assms unfolding read_tcp_response_def MAX_RESPONSE_LENGTH_def
  by (auto simp: and_then_eq_Inl read_exact_def discard_exact_def Let_def MAX_MESSAGE_LENGTH_def
      MAX_PADDING_LENGTH_def word_less_nat_alt dest!: varint_read_cases split: if_splits option.splits)

lemma read_tcp_response_errors:
  "read_tcp_response r = Inl e \<Longrightarrow> e = UnexpectedEof \<or> (\<exists>x. e = InvalidData x)"
  unfolding read_tcp_response_def
  by (auto simp: and_then_eq_Inl read_exact_def discard_exact_def Let_def dest!: varint_read_cases
      split: if_splits option.splits)

lemma read_tcp_response_rest: "read_tcp_response r = Inr (x, r') \<Longrightarrow> length r' \<le> length r"
  unfolding read_tcp_response_def
  by (auto simp: and_then_eq_Inr read_exact_def discard_exact_def Let_def dest!: varint_read_rest
      split: if_splits option.splits)

section \<open>Properties\<close>

text \<open>
  A TCP proxy request is written without a panic into a buffer of exactly the computed size,
  and what is written is the documented frame: the varint frame type 0x401, the address with its
  varint length, then random padding of 64 up to 511 characters of the padding alphabet.
\<close>

lemma write_tcp_request_format:
  assumes "rng_ok rng" "length a < 2 ^ 62"
  shows "\<exists>padding. write_tcp_request rng a = Ret (tcp_request_wire a padding) \<and>
    64 \<le> length padding \<and> length padding < 512 \<and> set padding \<subseteq> set PADDING_CHARS"
proof -
  note len = length_padding [OF assms(1), of TCP_REQUEST_PADDING, unfolded TCP_REQUEST_PADDING_def]
  have "length (padding_string rng TCP_REQUEST_PADDING) < 2 ^ 62"
    using len(2) by (simp add: TCP_REQUEST_PADDING_def)
  from write_tcp_request_wire [OF assms(2) this] len padding_charset [OF assms(1)]
  show ?thesis by (intro exI conjI) (auto simp: TCP_REQUEST_PADDING_def)
qed

text \<open>
  A TCP response frame is read back as its verdict and message, leaving exactly the bytes that
  follow it, and every strict prefix of a frame is reported as an unexpected end of file, the one
  error on which the caller waits for more bytes.
\<close>

lemma read_tcp_response_frames:
  assumes "tcp_response_ok x"
  shows "read_tcp_response (tcp_response_wire x @ r) = Inr (tcp_response_view x, r) \<and>
    (k < length (tcp_response_wire x) \<longrightarrow>
       read_tcp_response (take k (tcp_response_wire x)) = Inl UnexpectedEof)"
  using assms by (simp add: tr.dec_enc tr.dec_short)

text \<open>
  \<^verbatim>\<open>UdpMessage::serialize\<close> never panics: it declines a buffer smaller than
  \<^verbatim>\<open>size()\<close> and otherwise puts the message in the first \<^verbatim>\<open>size()\<close> bytes, leaving the
  others alone. A message with a non-empty address of at most 2048 bytes and with data parses
  back to itself from those bytes.
\<close>

lemma udp_message_roundtrip:
  assumes "length (addr m) < 2 ^ 62"
  shows "serialize m buf =
     (if length buf < udp_size m then Ret (buf, None)
      else Ret (udp_wire m @ drop (udp_size m) buf, Some (udp_size m))) \<and>
   (udp_ok m \<longrightarrow> parse_udp_message (udp_wire m) = Inr m)"
  using assms by (simp add: serialize_wire parse_udp_wire)



end
