(* ===== verification/Frag.thy ===== *)
theory Frag
  imports Proxy
begin

text \<open>
  UDP fragmentation and reassembly, \<^verbatim>\<open>crates/hysteria/src/internal/frag.rs\<close>:
  \<^verbatim>\<open>frag_udp_message\<close> and the one-packet-at-a-time \<^verbatim>\<open>Defragger\<close>. The arithmetic on
  \<^verbatim>\<open>u8\<close> counters follows the build profile (\<open>checked\<close>: overflow panics). The main lemma is
  that a defragmenter fed the fragments of a message in any order, with any repetitions, returns
  nothing until the first moment all of them have been seen and then the message.
\<close>

section \<open>Fragmentation\<close>

text \<open>
  The \<^verbatim>\<open>while\<close> loop from offset \<open>off\<close>. The caller has \<open>max_payload_size > 0\<close>; the guard
  only serves the termination proof.
\<close>

function frag_loop ::
  "bool \<Rightarrow> udp_message \<Rightarrow> nat \<Rightarrow> u8 \<Rightarrow> nat \<Rightarrow> u8 \<Rightarrow> udp_message list \<Rightarrow> udp_message list exec"
where
  "frag_loop checked m max_payload_size fcount off fid frags =
     (if off < length (data m) \<and> 0 < max_payload_size then
        let payload_size = min (length (data m) - off) max_payload_size;
            frag = m\<lparr>frag_id := fid, frag_count := fcount,
                     data := take payload_size (drop off (data m))\<rparr>
        in exec_bind (add_u8 checked fid 1) (\<lambda>fid'.
             frag_loop checked m max_payload_size fcount (off + payload_size) fid' (frags @ [frag]))
      else Ret frags)"
  by pat_completeness auto
termination
  by (relation "measure (\<lambda>(_, m, _, _, off, _, _). length (data m) - off)") auto

declare frag_loop.simps [simp del]

definition frag_udp_message :: "bool \<Rightarrow> udp_message \<Rightarrow> nat \<Rightarrow> udp_message list exec" where
  "frag_udp_message checked m max_size =
     (if udp_size m \<le> max_size then Ret [m]
      else if max_size \<le> header_size m then Ret []
      else
        let max_payload_size = max_size - header_size m;
            fcount = of_nat (div_ceil (length (data m)) max_payload_size)
        in frag_loop checked m max_payload_size fcount 0 0 [])"

section \<open>Reassembly\<close>

record defragger =
  pkt_id :: u16
  frags :: "udp_message option list"
  count :: u8
  size_sum :: nat

definition defragger_default :: defragger where
  "defragger_default = \<lparr>pkt_id = 0, frags = [], count = 0, size_sum = 0\<rparr>"

text \<open>The loop over \<^verbatim>\<open>frags.iter().flatten()\<close>.\<close>

definition assemble_data :: "udp_message option list \<Rightarrow> bytes" where
  "assemble_data fs =
     concat (map (\<lambda>f. case f of Some g \<Rightarrow> data g | None \<Rightarrow> []) fs)"

definition feed :: "bool \<Rightarrow> defragger \<Rightarrow> udp_message \<Rightarrow> (defragger \<times> udp_message option) exec" where
  "feed checked d m =
     (if frag_count m \<le> 1 then Ret (d, Some m)
      else if frag_count m \<le> frag_id m then Ret (d, None)
      else
        let i = unat (frag_id m) in
        if packet_id m \<noteq> pkt_id d \<or> unat (frag_count m) \<noteq> length (frags d) then
          let fresh = replicate (unat (frag_count m)) None in
          exec_bind (index_at fresh i) (\<lambda>_.
          Ret (\<lparr>pkt_id = packet_id m, frags = fresh[i := Some m], count = 1,
                size_sum = length (data m)\<rparr>, None))
        else
          exec_bind (index_at (frags d) i) (\<lambda>slot.
          if slot = None then
            exec_bind (add_u8 checked (count d) 1) (\<lambda>c.
            let fs = (frags d)[i := Some m];
                d' = d\<lparr>count := c, size_sum := size_sum d + length (data m), frags := fs\<rparr>
            in if unat c = length fs
               then Ret (d'\<lparr>frags := fs[i := None]\<rparr>,
                         Some (m\<lparr>data := assemble_data fs, frag_id := 0, frag_count := 1\<rparr>))
               else Ret (d', None))
          else Ret (d, None)))"

text \<open>A sequence of \<^verbatim>\<open>feed\<close> calls on one defragmenter.\<close>

fun feed_all ::
  "bool \<Rightarrow> defragger \<Rightarrow> udp_message list \<Rightarrow> (defragger \<times> udp_message option list) exec" where
  "feed_all checked d [] = Ret (d, [])"
| "feed_all checked d (m # ms) =
     exec_bind (feed checked d m) (\<lambda>(d', out).
     exec_bind (feed_all checked d' ms) (\<lambda>(d'', outs). Ret (d'', out # outs)))"

section \<open>What fragmentation produces\<close>

text \<open>The specification: the \<open>i\<close>-th slice of the payload, numbered.\<close>

definition nth_frag :: "udp_message \<Rightarrow> nat \<Rightarrow> nat \<Rightarrow> nat \<Rightarrow> udp_message" where
  "nth_frag m mps n i =
     m\<lparr>frag_id := of_nat i, frag_count := of_nat n, data := take mps (drop (i * mps) (data m))\<rparr>"

lemma div_ceil_less: "0 < b \<Longrightarrow> i < div_ceil a b \<longleftrightarrow> i * b < a"
proof -
  assume b: "0 < b"
  have "i < (a + b - 1) div b \<longleftrightarrow> Suc i * b \<le> a + b - 1"
    using less_eq_div_iff_mult_less_eq [OF b, of "Suc i" "a + b - 1"] by (simp add: Suc_le_eq)
  also have "\<dots> \<longleftrightarrow> i * b < a" using b by auto
  finally show ?thesis by (simp add: div_ceil_def)
qed

lemma frag_loop_spec:
  assumes "0 < mps" "n = div_ceil (length (data m)) mps" "n < 256" "i \<le> n"
  shows "frag_loop checked m mps (of_nat n) (i * mps) (of_nat i) acc =
    Ret (acc @ map (nth_frag m mps n) [i..<n])"
  using assms(4)
proof (induction "n - i" arbitrary: i acc)
  case 0
  then have "i = n" by simp
  then have "\<not> i * mps < length (data m)" using div_ceil_less [OF assms(1)] assms(2) by blast
  with \<open>i = n\<close> show ?case by (subst frag_loop.simps) simp
next
  case (Suc k)
  then have i: "i < n" by simp
  then have off: "i * mps < length (data m)"
    using div_ceil_less [OF assms(1), of i "length (data m)"] assms(2) by simp
  let ?p = "min (length (data m) - i * mps) mps"
  have add: "add_u8 checked (of_nat i) 1 = Ret (of_nat (Suc i))"
    using i assms(3) by (simp add: add_u8_small unat_of_nat)
  have frag: "m\<lparr>frag_id := of_nat i, frag_count := of_nat n, data := take ?p (drop (i * mps) (data m))\<rparr>
    = nth_frag m mps n i"
    by (simp add: nth_frag_def min_def)
  have next_off: "frag_loop checked m mps (of_nat n) (i * mps + ?p) (of_nat (Suc i)) a =
    frag_loop checked m mps (of_nat n) (Suc i * mps) (of_nat (Suc i)) a" for a
  proof (cases "length (data m) - i * mps \<ge> mps")
    case True then show ?thesis by (simp add: add.commute)
  next
    case False
    then have "length (data m) \<le> i * mps + ?p" "length (data m) \<le> Suc i * mps" by simp_all
    then show ?thesis by (subst (1 2) frag_loop.simps) simp
  qed
  have "frag_loop checked m mps (of_nat n) (i * mps) (of_nat i) acc =
    frag_loop checked m mps (of_nat n) (Suc i * mps) (of_nat (Suc i)) (acc @ [nth_frag m mps n i])"
    by (subst frag_loop.simps) (simp add: off assms(1) add frag next_off Let_def del: of_nat_Suc mult_Suc)
  also have "\<dots> = Ret (acc @ map (nth_frag m mps n) [i..<n])"
    using Suc i by (simp add: upt_conv_Cons del: of_nat_Suc mult_Suc)
  finally show ?case .
qed

lemma frag_udp_message_spec:
  assumes "max_size < udp_size m" "header_size m < max_size"
    and n: "n = div_ceil (length (data m)) (max_size - header_size m)" and "n < 256"
  shows "frag_udp_message checked m max_size =
    Ret (map (nth_frag m (max_size - header_size m) n) [0..<n])"
  using assms frag_loop_spec [OF _ n assms(4), of 0 checked "[]"]
  by (simp add: frag_udp_message_def Let_def)

lemma nth_frag_size:
  assumes "header_size m < max_size"
  shows "udp_size (nth_frag m (max_size - header_size m) n i) \<le> max_size"
  using assms by (simp add: udp_size_def nth_frag_def header_size_def Let_def)

lemma concat_slices:
  "0 < mps \<Longrightarrow> length xs \<le> n * mps \<Longrightarrow>
   concat (map (\<lambda>i. take mps (drop (i * mps) xs)) [0..<n]) = xs"
proof (induction n arbitrary: xs)
  case (Suc n)
  have "concat (map (\<lambda>i. take mps (drop (i * mps) xs)) [0..<Suc n]) =
    take mps xs @ concat (map (\<lambda>i. take mps (drop (i * mps) (drop mps xs))) [0..<n])"
    by (simp add: upt_conv_Cons map_Suc_upt [symmetric] comp_def add.commute del: upt_Suc)
  also have "\<dots> = xs" using Suc.IH [of "drop mps xs"] Suc.prems by simp
  finally show ?case .
qed simp

lemma nth_frag_data:
  assumes "0 < mps" "n = div_ceil (length (data m)) mps"
  shows "concat (map (data \<circ> nth_frag m mps n) [0..<n]) = data m"
proof -
  have "\<not> n * mps < length (data m)" using div_ceil_less [OF assms(1), of n "length (data m)"] assms(2) by simp
  then show ?thesis using concat_slices [OF assms(1), of "data m" n]
    by (simp add: nth_frag_def comp_def)
qed

section \<open>What reassembly does\<close>

text \<open>A numbered family of fragments of one packet.\<close>

definition frag_family :: "(nat \<Rightarrow> udp_message) \<Rightarrow> nat \<Rightarrow> u16 \<Rightarrow> bool" where
  "frag_family g n p \<longleftrightarrow> 2 \<le> n \<and> n < 256 \<and>
     (\<forall>i<n. frag_id (g i) = of_nat i \<and> frag_count (g i) = of_nat n \<and> packet_id (g i) = p)"

text \<open>The state in which the fragments numbered by \<open>S\<close> have arrived.\<close>

definition partial_state :: "(nat \<Rightarrow> udp_message) \<Rightarrow> nat \<Rightarrow> u16 \<Rightarrow> nat set \<Rightarrow> defragger" where
  "partial_state g n p S =
     \<lparr>pkt_id = p, frags = map (\<lambda>i. if i \<in> S then Some (g i) else None) [0..<n],
      count = of_nat (card S), size_sum = (\<Sum>i\<in>S. length (data (g i)))\<rparr>"

lemma unat_succ_u8: "k + 1 < 256 \<Longrightarrow> unat (of_nat k + 1 :: u8) = k + 1"
  using unat_of_nat [of "k + 1", where ?'a = 8] by (simp add: add.commute)

text \<open>The state once the last fragment, number \<open>i\<close>, has been taken out of its slot.\<close>

definition done_state :: "(nat \<Rightarrow> udp_message) \<Rightarrow> nat \<Rightarrow> u16 \<Rightarrow> nat \<Rightarrow> defragger" where
  "done_state g n p i =
     \<lparr>pkt_id = p, frags = (map (\<lambda>j. if j \<in> {..<n} then Some (g j) else None) [0..<n])[i := None],
      count = of_nat n, size_sum = (\<Sum>j<n. length (data (g j)))\<rparr>"

lemma frag_family_fields:
  assumes "frag_family g n p" "i < n"
  shows "unat (frag_id (g i)) = i" "unat (frag_count (g i)) = n" "packet_id (g i) = p"
    "\<not> frag_count (g i) \<le> 1" "\<not> frag_count (g i) \<le> frag_id (g i)"
  using assms by (auto simp: frag_family_def word_le_nat_alt unat_of_nat)

lemma feed_first:
  assumes "frag_family g n p" "i < n" "pkt_id d \<noteq> p \<or> length (frags d) \<noteq> n"
  shows "feed checked d (g i) = Ret (partial_state g n p {i}, None)"
proof -
  have "(replicate n None)[i := Some (g i)] =
    map (\<lambda>j. if j \<in> {i} then Some (g j) else None) [0..<n]"
    by (rule nth_equalityI) (auto simp: nth_list_update)
  then show ?thesis using assms(2,3)
    by (auto simp: feed_def frag_family_fields [OF assms(1,2)] effect_simps partial_state_def Let_def)
qed

lemma partial_state_insert:
  assumes "i < n" "i \<notin> S" "finite S"
  shows "(partial_state g n p S)\<lparr>count := count (partial_state g n p S) + 1,
      size_sum := size_sum (partial_state g n p S) + length (data (g i)),
      frags := (frags (partial_state g n p S))[i := Some (g i)]\<rparr> = partial_state g n p (insert i S)"
proof -
  have "(map (\<lambda>j. if j \<in> S then Some (g j) else None) [0..<n])[i := Some (g i)] =
    map (\<lambda>j. if j \<in> insert i S then Some (g j) else None) [0..<n]"
    by (rule nth_equalityI) (use assms in \<open>simp_all add: nth_list_update\<close>)
  with assms show ?thesis by (simp add: partial_state_def add.commute)
qed

lemma feed_partial:
  assumes "frag_family g n p" "i < n" "S \<subseteq> {..<n}" "insert i S \<noteq> {..<n}"
  shows "feed checked (partial_state g n p S) (g i) = Ret (partial_state g n p (insert i S), None)"
proof (cases "i \<in> S")
  case True
  then show ?thesis using assms
    by (simp add: feed_def frag_family_fields [OF assms(1,2)] effect_simps partial_state_def
        insert_absorb Let_def)
next
  case False
  have fin: "finite S" using assms(3) finite_subset by blast
  have "insert i S \<subset> {..<n}" using assms by auto
  then have c: "card (insert i S) < n" using psubset_card_mono [of "{..<n}"] by simp
  then have card: "card S + 1 < n" using False fin by simp
  have n: "n < 256" using assms(1) by (simp add: frag_family_def)
  have add: "add_u8 checked (of_nat (card S)) 1 = Ret (of_nat (card S) + 1)"
    using card n by (simp add: add_u8_small unat_of_nat)
  have len: "unat (of_nat (card S) + 1 :: u8) = card S + 1"
    using unat_succ_u8 card n by simp
  have len': "unat (of_nat (card (insert i S)) :: u8) \<noteq> n"
    using c n by (simp add: unat_of_nat)
  show ?thesis
    using partial_state_insert [OF assms(2) False fin, of g p] card False assms(2)
    by (simp add: feed_def frag_family_fields [OF assms(1,2)] index_at_in Let_def partial_state_def
        add len len')
qed

lemma assemble_partial_state:
  "assemble_data (map (\<lambda>i. if i \<in> {..<n} then Some (g i) else None) [0..<n]) =
   concat (map (data \<circ> g) [0..<n])"
proof -
  have "map (\<lambda>f. case f of Some h \<Rightarrow> data h | None \<Rightarrow> [])
      (map (\<lambda>i. if i \<in> {..<n} then Some (g i) else None) [0..<n]) = map (data \<circ> g) [0..<n]"
    by simp
  then show ?thesis unfolding assemble_data_def by (rule arg_cong)
qed

lemma feed_last:
  assumes "frag_family g n p" "i < n" "insert i S = {..<n}" "i \<notin> S"
  shows "feed checked (partial_state g n p S) (g i) =
    Ret (done_state g n p i, Some ((g i)\<lparr>data := concat (map (data \<circ> g) [0..<n]), frag_id := 0, frag_count := 1\<rparr>))"
proof -
  have fin: "finite S" using assms(3) by (metis finite_insert finite_lessThan)
  have "card (insert i S) = n" using assms(3) by simp
  then have card: "Suc (card S) = n" using fin assms(4) by simp
  have n: "n < 256" using assms(1) by (simp add: frag_family_def)
  have add: "add_u8 checked (of_nat (card S)) 1 = Ret (of_nat (card S) + 1)"
    using card n by (simp add: add_u8_small unat_of_nat)
  have len: "unat (of_nat (card S) + 1 :: u8) = n"
    using unat_succ_u8 [of "card S"] card n by simp
  have fs: "(map (\<lambda>j. if j \<in> S then Some (g j) else None) [0..<n])[i := Some (g i)] =
    map (\<lambda>j. if j \<in> {..<n} then Some (g j) else None) [0..<n]"
    using assms(2) unfolding assms(3) [symmetric]
    by (intro nth_equalityI) (simp_all add: nth_list_update)
  have c: "of_nat (card S) + 1 = (of_nat n :: u8)" using card by auto
  have sm: "(\<Sum>j\<in>S. length (data (g j))) + length (data (g i)) = (\<Sum>j<n. length (data (g j)))"
    unfolding assms(3) [symmetric] using fin assms(4) by simp
  show ?thesis using assms(2,4) assemble_partial_state [of n g]
    by (simp add: feed_def frag_family_fields [OF assms(1,2)] index_at_in Let_def partial_state_def
        done_state_def add len [unfolded c] c fs sm)
qed

lemma feed_all_append:
  "feed_all checked d (xs @ ys) =
   exec_bind (feed_all checked d xs) (\<lambda>(d', outs).
   exec_bind (feed_all checked d' ys) (\<lambda>(d'', outs'). Ret (d'', outs @ outs')))"
  by (induction xs arbitrary: d) (simp_all add: exec_bind_Ret exec_bind_assoc split_def)

lemma feed_all_partial:
  assumes "frag_family g n p" "set is \<subseteq> {..<n}" "S \<union> set is \<noteq> {..<n}" "S \<subseteq> {..<n}"
  shows "feed_all checked (partial_state g n p S) (map g is) =
    Ret (partial_state g n p (S \<union> set is), replicate (length is) None)"
  using assms(2-)
proof (induction "is" arbitrary: S)
  case (Cons i "is")
  have "insert i S \<noteq> {..<n}" using Cons.prems by auto
  with Cons.prems have "feed checked (partial_state g n p S) (g i) =
    Ret (partial_state g n p (insert i S), None)"
    by (intro feed_partial [OF assms(1)]) auto
  with Cons.IH [of "insert i S"] Cons.prems show ?case by simp
qed simp

text \<open>
  Any sequence of fragments, from the first one that resets the state to the first one that
  completes the set.
\<close>

lemma feed_all_reassembles:
  assumes "frag_family g n p" "pkt_id d \<noteq> p \<or> length (frags d) \<noteq> n"
    and "set (is @ [i]) = {..<n}" "i \<notin> set is"
  shows "feed_all checked d (map g (is @ [i])) =
    Ret (done_state g n p i, replicate (length is) None @
      [Some ((g i)\<lparr>data := concat (map (data \<circ> g) [0..<n]), frag_id := 0, frag_count := 1\<rparr>)])"
proof -
  have n: "2 \<le> n" using assms(1) by (simp add: frag_family_def)
  have "card (set (is @ [i])) = n" using assms(3) by simp
  with n obtain j js where is_eq: "is = j # js" by (cases "is") auto
  have neq: "set is \<noteq> {..<n}" using assms(3,4) by auto
  have "j < n" using assms(3) is_eq by auto
  from feed_first [OF assms(1) this assms(2)]
  have first: "feed checked d (g j) = Ret (partial_state g n p {j}, None)" .
  have "feed_all checked (partial_state g n p {j}) (map g js) =
    Ret (partial_state g n p ({j} \<union> set js), replicate (length js) None)"
    using assms(3) neq is_eq by (intro feed_all_partial [OF assms(1)]) auto
  with first have "feed_all checked d (map g is) =
    Ret (partial_state g n p (set is), replicate (length is) None)"
    by (simp add: is_eq)
  moreover have "i < n" "insert i (set is) = {..<n}" using assms(3) by auto
  from feed_last [OF assms(1) this assms(4)]
  have "feed checked (partial_state g n p (set is)) (g i) = Ret (done_state g n p i,
     Some ((g i)\<lparr>data := concat (map (data \<circ> g) [0..<n]), frag_id := 0, frag_count := 1\<rparr>))" .
  ultimately show ?thesis by (simp add: feed_all_append)
qed

lemma frag_family_nth_frag:
  "2 \<le> n \<Longrightarrow> n < 256 \<Longrightarrow> frag_family (nth_frag m mps n) n (packet_id m)"
  by (simp add: frag_family_def nth_frag_def)

lemma div_ceil_two:
  "0 < b \<Longrightarrow> b < a \<Longrightarrow> 2 \<le> div_ceil a b"
  using div_ceil_less [of b 1 a] by simp

lemma frag_family_inverse:
  "frag_family g n p \<Longrightarrow> f \<in> g ` {..<n} \<Longrightarrow> g (unat (frag_id f)) = f \<and> unat (frag_id f) < n"
  using frag_family_fields(1) by auto

lemma frag_family_indices:
  assumes "frag_family g n p" "set fs \<subseteq> g ` {..<n}"
  shows "map g (map (\<lambda>f. unat (frag_id f)) fs) = fs"
    "set fs = g ` {..<n} \<Longrightarrow> (\<lambda>f. unat (frag_id f)) ` set fs = {..<n}"
proof -
  show "map g (map (\<lambda>f. unat (frag_id f)) fs) = fs"
    using frag_family_inverse [OF assms(1)] assms(2) by (auto simp: comp_def intro!: map_idI)
  show "(\<lambda>f. unat (frag_id f)) ` set fs = {..<n}" if "set fs = g ` {..<n}"
    unfolding that image_image using frag_family_fields(1) [OF assms(1)] by (auto simp: image_iff)
qed

lemma feed_all_family:
  assumes fam: "frag_family g n p" and "pkt_id d \<noteq> p \<or> length (frags d) \<noteq> n"
    and seq: "set (seq @ [x]) = g ` {..<n}" "x \<notin> set seq"
  shows "feed_all checked d (seq @ [x]) =
    Ret (done_state g n p (unat (frag_id x)), replicate (length seq) None @
      [Some (x\<lparr>data := concat (map (data \<circ> g) [0..<n]), frag_id := 0, frag_count := 1\<rparr>)])"
proof -
  let ?ix = "\<lambda>f. unat (frag_id f)"
  have inv: "g (?ix f) = f" if "f \<in> set (seq @ [x])" for f
    using frag_family_inverse [OF fam] that unfolding seq(1) by blast
  have eq: "map g (map ?ix (seq @ [x])) = seq @ [x]"
    by (rule frag_family_indices(1) [OF fam]) (simp only: seq(1))
  have "set (map ?ix seq @ [?ix x]) = {..<n}"
    using frag_family_indices(2) [OF fam equalityD1 [OF seq(1)] seq(1)] by simp
  moreover have "?ix x \<notin> set (map ?ix seq)"
  proof
    assume "?ix x \<in> set (map ?ix seq)"
    then obtain f where "f \<in> set seq" "?ix f = ?ix x" by auto
    with inv [of f] inv [of x] have "f = x" by (metis UnI1 UnI2 list.set_intros(1) set_append)
    with \<open>f \<in> set seq\<close> seq(2) show False by simp
  qed
  ultimately have *: "feed_all checked d (map g (map ?ix seq @ [?ix x])) =
    Ret (done_state g n p (?ix x), replicate (length (map ?ix seq)) None @ [Some ((g (?ix x))
      \<lparr>data := concat (map (data \<circ> g) [0..<n]), frag_id := 0, frag_count := 1\<rparr>)])"
    by (rule feed_all_reassembles [OF fam assms(2)])
  have "g (?ix x) = x" by (rule inv) simp
  with * eq show ?thesis by (simp only: map_append list.map length_map)
qed

section \<open>An invariant for arbitrary input\<close>

definition filled :: "udp_message option list \<Rightarrow> nat" where
  "filled fs = length (filter (\<lambda>f. f \<noteq> None) fs)"

text \<open>
  Slots hold the fragment they are numbered for. The counter is the number of filled slots, or one
  more from the moment the message has been completed and its last fragment taken out.
\<close>

definition slots_ok :: "defragger \<Rightarrow> bool" where
  "slots_ok d \<longleftrightarrow> length (frags d) < 256 \<and>
     (\<forall>i<length (frags d). \<forall>f. frags d ! i = Some f \<longrightarrow>
        packet_id f = pkt_id d \<and> unat (frag_id f) = i \<and> unat (frag_count f) = length (frags d))"

definition count_ok :: "defragger \<Rightarrow> bool" where
  "count_ok d \<longleftrightarrow> frags d = [] \<or>
     (filled (frags d) < length (frags d) \<and> unat (count d) = filled (frags d)) \<or>
     (length (frags d) \<le> filled (frags d) + 1 \<and> unat (count d) = (filled (frags d) + 1) mod 256)"

lemma filled_le: "filled fs \<le> length fs"
  by (simp add: filled_def)

lemma filled_less: "i < length fs \<Longrightarrow> fs ! i = None \<Longrightarrow> filled fs < length fs"
  unfolding filled_def by (rule length_filter_less [of None]) (auto simp: in_set_conv_nth)

lemma filled_replicate: "filled (replicate n None) = 0"
  by (simp add: filled_def)

lemma filled_Cons: "filled (f # fs) = (if f = None then 0 else 1) + filled fs"
  by (simp add: filled_def)

lemma filled_update:
  "i < length fs \<Longrightarrow>
   filled (fs[i := x]) + (if fs ! i = None then 0 else 1) = filled fs + (if x = None then 0 else 1)"
proof (induction fs arbitrary: i)
  case (Cons f fs)
  then show ?case using Cons.IH [of "i - 1"] by (cases i) (simp_all add: filled_Cons)
qed simp

lemma filled_full: "filled fs = length fs \<Longrightarrow> i < length fs \<Longrightarrow> fs ! i \<noteq> None"
  using filled_less by fastforce

lemma slots_ok_default: "slots_ok defragger_default" "count_ok defragger_default"
  by (simp_all add: slots_ok_def count_ok_def defragger_default_def)

text \<open>The outcomes of one call.\<close>

definition feed_reset :: "udp_message \<Rightarrow> defragger" where
  "feed_reset m = \<lparr>pkt_id = packet_id m,
     frags = (replicate (unat (frag_count m)) None)[unat (frag_id m) := Some m], count = 1,
     size_sum = length (data m)\<rparr>"

definition feed_store :: "defragger \<Rightarrow> udp_message \<Rightarrow> defragger" where
  "feed_store d m = d\<lparr>count := count d + 1, size_sum := size_sum d + length (data m),
     frags := (frags d)[unat (frag_id m) := Some m]\<rparr>"

lemma feed_outcomes:
  obtains (whole) "frag_count m \<le> 1" "feed checked d m = Ret (d, Some m)"
  | (ignored) "1 < frag_count m" "feed checked d m = Ret (d, None)"
  | (reset) "1 < frag_count m" "frag_id m < frag_count m"
      "feed checked d m = Ret (feed_reset m, None)"
  | (overflow) "1 < frag_count m" "checked" "256 \<le> unat (count d) + 1" "packet_id m = pkt_id d"
      "unat (frag_count m) = length (frags d)" "unat (frag_id m) < length (frags d)"
      "frags d ! unat (frag_id m) = None" "feed checked d m = Panic"
  | (stored) "1 < frag_count m" "packet_id m = pkt_id d" "unat (frag_count m) = length (frags d)"
      "unat (frag_id m) < length (frags d)" "frags d ! unat (frag_id m) = None"
      "unat (count d + 1) \<noteq> length (frags d)" "feed checked d m = Ret (feed_store d m, None)"
  | (complete) "1 < frag_count m" "packet_id m = pkt_id d"
      "unat (frag_count m) = length (frags d)"
      "unat (frag_id m) < length (frags d)" "frags d ! unat (frag_id m) = None"
      "unat (count d + 1) = length (frags d)"
      "feed checked d m = Ret ((feed_store d m)\<lparr>frags := (frags d)[unat (frag_id m) := None]\<rparr>,
         Some (m\<lparr>data := assemble_data ((frags d)[unat (frag_id m) := Some m]),
                  frag_id := 0, frag_count := 1\<rparr>))"
proof -
  consider "frag_count m \<le> 1" | "1 < frag_count m" "frag_count m \<le> frag_id m"
    | "1 < frag_count m" "frag_id m < frag_count m"
      "packet_id m \<noteq> pkt_id d \<or> unat (frag_count m) \<noteq> length (frags d)"
    | "1 < frag_count m" "frag_id m < frag_count m"
      "packet_id m = pkt_id d" "unat (frag_count m) = length (frags d)"
    by fastforce
  then show thesis
  proof cases
    case 1 then show ?thesis by (intro whole) (simp_all add: feed_def)
  next
    case 2 then show ?thesis by (intro ignored) (simp_all add: feed_def)
  next
    case 3 then show ?thesis
      by (intro reset) (auto simp: feed_def feed_reset_def index_at_def Let_def word_less_nat_alt
        word_le_nat_alt)
  next
    case 4
    let ?i = "unat (frag_id m)"
    have i: "?i < length (frags d)" using 4 by (simp add: word_less_nat_alt)
    have nle: "\<not> frag_count m \<le> 1" "\<not> frag_count m \<le> frag_id m" using 4 by auto
    have eq: "feed checked d m = (if frags d ! ?i = None then
        exec_bind (add_u8 checked (count d) 1) (\<lambda>c.
        if unat c = length (frags d)
        then Ret (d\<lparr>count := c, size_sum := size_sum d + length (data m), frags := (frags d)[?i := None]\<rparr>,
          Some (m\<lparr>data := assemble_data ((frags d)[?i := Some m]), frag_id := 0, frag_count := 1\<rparr>))
        else Ret (d\<lparr>count := c, size_sum := size_sum d + length (data m), frags := (frags d)[?i := Some m]\<rparr>, None))
      else Ret (d, None))"
      using 4 i nle by (simp add: feed_def index_at_in Let_def cong: if_cong)
    show ?thesis
    proof (cases "frags d ! ?i = None")
      case False then show ?thesis using 4 eq by (intro ignored) auto
    next
      case True
      show ?thesis
      proof (cases "checked \<and> 256 \<le> unat (count d) + 1")
        case c: True then show ?thesis using 4 eq i True by (intro overflow) (simp_all add: add_u8_def)
      next
        case c: False
        then have "add_u8 checked (count d) 1 = Ret (count d + 1)" by (simp add: add_u8_def)
        note f = eq [unfolded this, simplified True, simplified]
        show ?thesis
        proof (cases "unat (count d + 1) = length (frags d)")
          case l: True
          show ?thesis by (rule complete) (use f l 4 i True in \<open>simp_all add: feed_store_def\<close>)
        next
          case l: False
          show ?thesis by (rule stored) (use f l 4 i True in \<open>simp_all add: feed_store_def\<close>)
        qed
      qed
    qed
  qed
qed

lemma u8_add_one: "unat (c + 1 :: u8) = (unat c + 1) mod 256"
  by (simp add: unat_word_ariths)

lemma feed_reset_ok:
  assumes "1 < frag_count m" "frag_id m < frag_count m"
  shows "slots_ok (feed_reset m)" "count_ok (feed_reset m)"
proof -
  let ?fs = "(replicate (unat (frag_count m)) None)[unat (frag_id m) := Some m]"
  have i: "unat (frag_id m) < unat (frag_count m)" "1 < unat (frag_count m)"
    using assms by (simp_all add: word_less_nat_alt)
  have "filled ?fs = 1"
    using filled_update [of "unat (frag_id m)" "replicate (unat (frag_count m)) None" "Some m"] i
    by (simp add: filled_replicate)
  then show "count_ok (feed_reset m)" using i by (simp add: count_ok_def feed_reset_def)
  show "slots_ok (feed_reset m)"
    using i unsigned_less [of "frag_count m", where ?'a = nat]
    by (auto simp: slots_ok_def feed_reset_def nth_list_update)
qed

lemma feed_store_ok:
  assumes "slots_ok d" "count_ok d" "packet_id m = pkt_id d" "unat (frag_count m) = length (frags d)"
    and i: "unat (frag_id m) < length (frags d)" "frags d ! unat (frag_id m) = None"
  shows "slots_ok (feed_store d m)"
    "unat (count d + 1) \<noteq> length (frags d) \<Longrightarrow> count_ok (feed_store d m)"
    "unat (count d + 1) = length (frags d) \<Longrightarrow>
      count_ok ((feed_store d m)\<lparr>frags := (frags d)[unat (frag_id m) := None]\<rparr>)"
    "unat (count d + 1) = length (frags d) \<Longrightarrow> Suc (filled (frags d)) = length (frags d)"
proof -
  let ?fs = "(frags d)[unat (frag_id m) := Some m]"
  have len: "length (frags d) < 256" using assms(1) by (simp add: slots_ok_def)
  have f: "filled ?fs = filled (frags d) + 1" using filled_update [OF i(1), of "Some m"] i(2) by simp
  have same: "(frags d)[unat (frag_id m) := None] = frags d" using i by (metis list_update_id)
  have less: "filled (frags d) < length (frags d)" by (rule filled_less [OF i])
  show "slots_ok (feed_store d m)"
    using assms by (auto simp: slots_ok_def feed_store_def nth_list_update)
  show "Suc (filled (frags d)) = length (frags d)" if "unat (count d + 1) = length (frags d)"
    using that assms(2) less len i by (auto simp: count_ok_def u8_add_one mod_Suc split: if_splits)
  show "count_ok (feed_store d m)" if "unat (count d + 1) \<noteq> length (frags d)"
    using that assms(2) less len i f
    by (auto simp: count_ok_def feed_store_def u8_add_one mod_Suc split: if_splits)
  show "count_ok ((feed_store d m)\<lparr>frags := (frags d)[unat (frag_id m) := None]\<rparr>)"
    if "unat (count d + 1) = length (frags d)"
    using that assms(2) less len i unfolding same
    by (auto simp: count_ok_def feed_store_def u8_add_one mod_Suc split: if_splits)
qed

text \<open>The fragments a defragmenter holds, and what it may return, given the messages \<open>M\<close> it saw.\<close>

definition holds_only :: "defragger \<Rightarrow> udp_message set \<Rightarrow> bool" where
  "holds_only d M \<longleftrightarrow> (\<forall>i<length (frags d). \<forall>f. frags d ! i = Some f \<longrightarrow> f \<in> M)"

definition assembled_from :: "udp_message set \<Rightarrow> udp_message \<Rightarrow> bool" where
  "assembled_from M x \<longleftrightarrow>
     (x \<in> M \<and> frag_count x \<le> 1) \<or>
     (\<exists>fs last. set fs \<subseteq> M \<and> last \<in> set fs \<and> 2 \<le> length fs \<and>
        (\<forall>i<length fs. packet_id (fs ! i) = packet_id last \<and> unat (frag_id (fs ! i)) = i \<and>
           unat (frag_count (fs ! i)) = length fs) \<and>
        x = last\<lparr>data := concat (map data fs), frag_id := 0, frag_count := 1\<rparr>)"

definition defrag_inv :: "defragger \<Rightarrow> udp_message set \<Rightarrow> bool" where
  "defrag_inv d M \<longleftrightarrow> slots_ok d \<and> count_ok d \<and> holds_only d M"

lemma assemble_complete:
  assumes inv: "defrag_inv d M" "m \<in> M" and m: "1 < frag_count m" "packet_id m = pkt_id d"
    "unat (frag_count m) = length (frags d)"
    and i: "unat (frag_id m) < length (frags d)" "frags d ! unat (frag_id m) = None"
    and c: "unat (count d + 1) = length (frags d)"
  shows "assembled_from M
    (m\<lparr>data := assemble_data ((frags d)[unat (frag_id m) := Some m]), frag_id := 0, frag_count := 1\<rparr>)"
proof -
  let ?fs = "(frags d)[unat (frag_id m) := Some m]"
  have ok: "slots_ok d" "count_ok d" "holds_only d M" using inv by (simp_all add: defrag_inv_def)
  have "filled ?fs = length ?fs"
    using feed_store_ok(4) [OF ok(1,2) m(2,3) i c] filled_update [OF i(1), of "Some m"] i(2) by simp
  then have full: "\<exists>f. ?fs ! j = Some f" if "j < length ?fs" for j
    using filled_full [of ?fs j] that by auto
  define gs where "gs = map the ?fs"
  have fs: "?fs = map Some gs"
    by (rule nth_equalityI) (use full in \<open>auto simp: gs_def\<close>)
  have nth: "?fs ! j = Some (gs ! j)" if "j < length (frags d)" for j
    unfolding fs using that arg_cong [OF fs, of length] by simp
  have len: "length gs = length (frags d)" by (simp add: gs_def)
  have m_in: "gs ! unat (frag_id m) = m" using nth [OF i(1)] i(1) by simp
  have old: "frags d ! j = Some (gs ! j)" if "j < length gs" "j \<noteq> unat (frag_id m)" for j
    using nth [of j] that len by simp
  have mem: "gs ! j \<in> M \<and> packet_id (gs ! j) = packet_id m \<and> unat (frag_id (gs ! j)) = j \<and>
      unat (frag_count (gs ! j)) = length gs" if "j < length gs" for j
    using that old [of j] ok(1,3) m inv(2) m_in len
    by (cases "j = unat (frag_id m)") (auto simp: slots_ok_def holds_only_def)
  have "assemble_data ?fs = concat (map data gs)"
    unfolding fs assemble_data_def by (simp add: comp_def)
  moreover have "m \<in> set gs" using m_in i(1) len by (metis nth_mem)
  moreover have "set gs \<subseteq> M" using mem by (auto simp: in_set_conv_nth)
  moreover have "2 \<le> length gs" using m(1,3) len by (simp add: word_less_nat_alt)
  ultimately show ?thesis unfolding assembled_from_def
    by (intro disjI2 exI [of _ gs] exI [of _ m] conjI) (simp_all add: mem)
qed

lemma feed_inv:
  assumes "defrag_inv d M" "m \<in> M" "feed checked d m = Ret (d', out)"
  shows "defrag_inv d' M \<and> (\<forall>x. out = Some x \<longrightarrow> assembled_from M x)"
proof -
  have ok: "slots_ok d" "count_ok d" "holds_only d M" using assms(1) by (simp_all add: defrag_inv_def)
  show ?thesis
  proof (rule feed_outcomes [of m checked d])
    assume "frag_count m \<le> 1" "feed checked d m = Ret (d, Some m)"
    then show ?thesis using assms by (auto simp: assembled_from_def)
  next
    assume r: "1 < frag_count m" "frag_id m < frag_count m"
      "feed checked d m = Ret (feed_reset m, None)"
    moreover have "holds_only (feed_reset m) M"
      using assms(2) r(2)
      by (auto simp: holds_only_def feed_reset_def nth_list_update word_less_nat_alt split: if_splits)
    ultimately show ?thesis using assms feed_reset_ok [of m] by (auto simp: defrag_inv_def)
  next
    assume *: "1 < frag_count m" "packet_id m = pkt_id d" "unat (frag_count m) = length (frags d)"
      "unat (frag_id m) < length (frags d)" "frags d ! unat (frag_id m) = None"
      "unat (count d + 1) \<noteq> length (frags d)" "feed checked d m = Ret (feed_store d m, None)"
    have "holds_only (feed_store d m) M"
      using ok(3) assms(2) *(4)
      by (auto simp: holds_only_def feed_store_def nth_list_update split: if_splits)
    with * feed_store_ok [OF ok(1,2) *(2-5)] assms(3) show ?thesis by (auto simp: defrag_inv_def)
  next
    assume *: "1 < frag_count m" "packet_id m = pkt_id d" "unat (frag_count m) = length (frags d)"
      "unat (frag_id m) < length (frags d)" "frags d ! unat (frag_id m) = None"
      "unat (count d + 1) = length (frags d)"
      "feed checked d m = Ret ((feed_store d m)\<lparr>frags := (frags d)[unat (frag_id m) := None]\<rparr>,
         Some (m\<lparr>data := assemble_data ((frags d)[unat (frag_id m) := Some m]),
                  frag_id := 0, frag_count := 1\<rparr>))"
    have "(frags d)[unat (frag_id m) := None] = frags d" using *(5) by (metis list_update_id)
    then have "slots_ok ((feed_store d m)\<lparr>frags := (frags d)[unat (frag_id m) := None]\<rparr>)"
      "holds_only ((feed_store d m)\<lparr>frags := (frags d)[unat (frag_id m) := None]\<rparr>) M"
      using ok(1,3) by (simp_all add: slots_ok_def holds_only_def feed_store_def)
    with * feed_store_ok(3) [OF ok(1,2) *(2-6)] assms(3) assemble_complete [OF assms(1,2) *(1-6)]
    show ?thesis by (auto simp: defrag_inv_def)
  qed (use assms in auto)
qed

lemma feed_no_panic:
  assumes "defrag_inv d M" "checked \<Longrightarrow> frag_count m \<noteq> 255"
  shows "feed checked d m \<noteq> Panic"
proof
  assume "feed checked d m = Panic"
  moreover have "\<not> (256 \<le> unat (count d) + 1 \<and> unat (frag_count m) = length (frags d) \<and>
      unat (frag_id m) < length (frags d) \<and> frags d ! unat (frag_id m) = None)" if checked
  proof
    assume *: "256 \<le> unat (count d) + 1 \<and> unat (frag_count m) = length (frags d) \<and>
      unat (frag_id m) < length (frags d) \<and> frags d ! unat (frag_id m) = None"
    then have less: "filled (frags d) < length (frags d)" by (intro filled_less) auto
    have len: "length (frags d) < 256" "count_ok d"
      using assms(1) by (auto simp: defrag_inv_def slots_ok_def)
    then have "length (frags d) = 255"
      using * less by (auto simp: count_ok_def mod_Suc split: if_splits)
    with * have "unat (frag_count m) = unat (255 :: u8)" by simp
    then have "frag_count m = 255" by (simp only: word_unat_eq_iff)
    with assms(2) that show False by simp
  qed
  ultimately show False by (cases rule: feed_outcomes [of m checked d]) auto
qed

lemma feed_all_inv:
  assumes "defrag_inv d M" "set ms \<subseteq> M" "checked \<Longrightarrow> \<forall>m\<in>set ms. frag_count m \<noteq> 255"
  shows "\<exists>d' outs. feed_all checked d ms = Ret (d', outs) \<and> defrag_inv d' M \<and>
    (\<forall>x. Some x \<in> set outs \<longrightarrow> assembled_from M x)"
  using assms
proof (induction ms arbitrary: d)
  case (Cons m ms)
  have "feed checked d m \<noteq> Panic" using Cons.prems by (intro feed_no_panic) auto
  then obtain d1 out where f: "feed checked d m = Ret (d1, out)"
    by (cases "feed checked d m") auto
  with Cons.prems have step: "defrag_inv d1 M \<and> (\<forall>x. out = Some x \<longrightarrow> assembled_from M x)"
    by (intro feed_inv) auto
  with Cons.IH [of d1] Cons.prems obtain d' outs where
    "feed_all checked d1 ms = Ret (d', outs)" "defrag_inv d' M"
    "\<forall>x. Some x \<in> set outs \<longrightarrow> assembled_from M x" by auto
  with f step show ?case by auto
qed simp

section \<open>Properties\<close>

text \<open>
  When a message does not fit \<open>max_size\<close> but its header does, and at most 255 fragments are
  needed, \<^verbatim>\<open>frag_udp_message\<close> returns fragments that each serialize to at most \<open>max_size\<close>
  bytes, differ from the message only in the fragment fields and data, are numbered in order with
  the number of fragments as their count, and whose data joined is the message's data.
\<close>

lemma frag_udp_message_splits:
  assumes "max_size < udp_size m" "header_size m < max_size"
    and "div_ceil (length (data m)) (max_size - header_size m) < 256"
  shows "\<exists>fs. frag_udp_message checked m max_size = Ret fs \<and>
    length fs = div_ceil (length (data m)) (max_size - header_size m) \<and>
    (\<forall>i<length fs. udp_size (fs ! i) \<le> max_size \<and>
       fs ! i = m\<lparr>frag_id := of_nat i, frag_count := of_nat (length fs), data := data (fs ! i)\<rparr>) \<and>
    concat (map data fs) = data m"
proof -
  let ?mps = "max_size - header_size m" and ?n = "div_ceil (length (data m)) (max_size - header_size m)"
  have mps: "0 < ?mps" using assms(2) by simp
  have "concat (map data (map (nth_frag m ?mps ?n) [0..<?n])) = data m"
    using nth_frag_data [OF mps refl, of m] by simp
  with frag_udp_message_spec [OF assms(1,2) refl assms(3), of checked] nth_frag_size [OF assms(2)]
  show ?thesis by (intro exI conjI) (auto simp: nth_frag_def)
qed

text \<open>
  C1. Fragmenting a message and feeding the fragments to a defragmenter, in any order and with any
  duplicates, returns nothing until the first moment every fragment has been fed, and then exactly
  the message with its fragment fields reset to an unfragmented one. The defragmenter may be in
  any state that is not already working on this packet id with this number of fragments.
\<close>

theorem frag_defrag_roundtrip:
  assumes "max_size < udp_size m" "header_size m < max_size"
    and "div_ceil (length (data m)) (max_size - header_size m) < 256"
    and "frag_udp_message checked m max_size = Ret fs"
    and "pkt_id d \<noteq> packet_id m \<or> length (frags d) \<noteq> length fs"
    and "set (seq @ [x]) = set fs" "x \<notin> set seq"
  shows "\<exists>d'. feed_all checked d (seq @ [x]) =
    Ret (d', replicate (length seq) None @ [Some (m\<lparr>frag_id := 0, frag_count := 1\<rparr>)])"
proof -
  let ?mps = "max_size - header_size m" and ?n = "div_ceil (length (data m)) (max_size - header_size m)"
  let ?g = "nth_frag m ?mps ?n"
  have fs: "fs = map ?g [0..<?n]"
    using frag_udp_message_spec [OF assms(1,2) refl assms(3), of checked] assms(4) by simp
  have "?mps < length (data m)" using assms(1,2) by (simp add: udp_size_def)
  then have fam: "frag_family ?g ?n (packet_id m)"
    using assms(2,3) by (intro frag_family_nth_frag div_ceil_two) simp_all
  have img: "set fs = ?g ` {..<?n}" by (auto simp: fs)
  have "concat (map (data \<circ> ?g) [0..<?n]) = data m"
    using assms(2) by (intro nth_frag_data) simp_all
  moreover have "x\<lparr>data := data m, frag_id := 0, frag_count := 1\<rparr> = m\<lparr>frag_id := 0, frag_count := 1\<rparr>"
  proof -
    have "x \<in> set fs" using assms(6) by auto
    then obtain j where "x = ?g j" by (auto simp: fs)
    then show ?thesis by (simp add: nth_frag_def)
  qed
  ultimately show ?thesis
    using feed_all_family [OF fam, of d seq x checked] assms(5-) img
    by (simp add: fs)
qed

theorem frag_defrag_roundtrip_witness:
  "\<exists>d'. feed_all True defragger_default
     [\<lparr>session_id = 7, packet_id = 9, frag_id = 1, frag_count = 2, addr = ''h:53'', data = [3]\<rparr>,
      \<lparr>session_id = 7, packet_id = 9, frag_id = 1, frag_count = 2, addr = ''h:53'', data = [3]\<rparr>,
      \<lparr>session_id = 7, packet_id = 9, frag_id = 0, frag_count = 2, addr = ''h:53'', data = [1, 2]\<rparr>] =
   Ret (d', [None, None, Some \<lparr>session_id = 7, packet_id = 9, frag_id = 0, frag_count = 1,
     addr = ''h:53'', data = [1, 2, 3]\<rparr>])"
proof -
  let ?m = "\<lparr>session_id = 7, packet_id = 9, frag_id = 0, frag_count = 1,
      addr = ''h:53'', data = [1, 2, 3 :: u8]\<rparr>"
  let ?a = "\<lparr>session_id = 7, packet_id = 9, frag_id = 0, frag_count = 2, addr = ''h:53'', data = [1, 2 :: u8]\<rparr>"
  let ?b = "\<lparr>session_id = 7, packet_id = 9, frag_id = 1, frag_count = 2, addr = ''h:53'', data = [3 :: u8]\<rparr>"
  have h: "header_size ?m = 13" "udp_size ?m = 16"
    by (simp_all add: header_size_def udp_size_def varint_len_def MAX_VAR_INT1_def)
  have f: "frag_udp_message True ?m 15 = Ret [?a, ?b]"
    by (subst frag_udp_message_spec [where n = 2])
       (simp_all add: h div_ceil_def nth_frag_def upt_conv_Cons)
  show ?thesis
    using frag_defrag_roundtrip [OF _ _ _ f, of defragger_default "[?b, ?b]" ?a]
    by (auto simp: h div_ceil_def defragger_default_def)
qed

text \<open>
  C14. Whatever messages arrive, a new defragmenter of the release profile never panics, and of the
  development profile neither as long as no message claims 255 fragments. All it ever returns is
  an unfragmented input, or a message put together from a complete set of inputs with one packet
  id and one fragment count, their data joined in the order of their fragment ids.
\<close>

theorem defragger_sound:
  assumes "checked \<Longrightarrow> \<forall>m\<in>set ms. frag_count m \<noteq> 255"
  shows "\<exists>d outs. feed_all checked defragger_default ms = Ret (d, outs) \<and>
    (\<forall>x. Some x \<in> set outs \<longrightarrow> assembled_from (set ms) x)"
proof -
  have "defrag_inv defragger_default (set ms)"
    using slots_ok_default by (simp add: defrag_inv_def holds_only_def defragger_default_def)
  from feed_all_inv [OF this order_refl, of checked] assms show ?thesis by blast
qed

theorem defragger_sound_witness:
  "\<exists>d outs. feed_all True defragger_default
      [\<lparr>session_id = 7, packet_id = 9, frag_id = 5, frag_count = 2, addr = ''a'', data = []\<rparr>] =
        Ret (d, outs)"
  using defragger_sound
    [of True "[\<lparr>session_id = 7, packet_id = 9, frag_id = 5, frag_count = 2, addr = ''a'', data = []\<rparr>]"]
  by auto

text \<open>
  C40. The exception is real: after a message of 255 fragments has been reassembled, a repetition
  of the fragment that completed it panics in the development profile (the counter is at 255 and
  its slot has been emptied), while the release profile stays silent.
\<close>

theorem defragger_duplicate_overflow:
  assumes "frag_family g 255 p" "set (seq @ [x]) = g ` {..<255}" "x \<notin> set seq"
  shows "feed_all checked defragger_default (seq @ [x, x]) = Panic \<longleftrightarrow> checked"
proof -
  from assms(2) obtain i where i: "i < 255" "x = g i" by auto
  note fields = frag_family_fields [OF assms(1) i(1)]
  have all: "feed_all checked defragger_default (seq @ [x]) =
    Ret (done_state g 255 p i, replicate (length seq) None @
      [Some (x\<lparr>data := concat (map (data \<circ> g) [0..<255]), frag_id := 0, frag_count := 1\<rparr>)])"
    using feed_all_family [OF assms(1) _ assms(2,3), of defragger_default checked] fields(1) i(2)
    by (simp add: defragger_default_def)
  have "feed checked (done_state g 255 p i) x = Panic \<longleftrightarrow> checked"
    using i fields by (simp add: feed_def done_state_def index_at_in add_u8_def Let_def)
  moreover have "seq @ [x, x] = (seq @ [x]) @ [x]" by simp
  moreover have "feed_all checked defragger_default ((seq @ [x]) @ [x]) = Panic \<longleftrightarrow>
      feed checked (done_state g 255 p i) x = Panic"
    unfolding feed_all_append [of _ _ "seq @ [x]"] all
    by (cases "feed checked (done_state g 255 p i) x") (auto split: prod.splits)
  ultimately show ?thesis by simp
qed

theorem defragger_duplicate_overflow_witness:
  "\<exists>g x. feed_all True defragger_default (map g [0..<254] @ [x, x]) = Panic"
proof -
  let ?g = "\<lambda>i. \<lparr>session_id = 1, packet_id = 7, frag_id = of_nat i, frag_count = 255, addr = ''h'', data = [3]\<rparr>"
  have fam: "frag_family ?g 255 7" by (simp add: frag_family_def unat_of_nat)
  have set: "set (map ?g [0..<254] @ [?g 254]) = ?g ` {..<255}"
    using lessThan_Suc [of 254] by (simp add: atLeast0LessThan)
  have "inj_on ?g {..<255}"
    by (auto simp: inj_on_def word_unat_eq_iff unat_of_nat)
  then have "?g 254 \<notin> set (map ?g [0..<254])"
    using inj_on_image_mem_iff [of ?g "{..<255}" 254 "{..<254}"] by (auto simp: atLeast0LessThan)
  from defragger_duplicate_overflow [OF fam set this, of True] show ?thesis by blast
qed

end
