(* ===== verification/Brutal.thy ===== *)
theory Brutal
  imports Prelude Complex_Main
begin

text \<open>
  The Brutal congestion controller, \<^verbatim>\<open>crates/hysteria/src/internal/congestion/brutal.rs\<close>. An
  \<^verbatim>\<open>f64\<close> is the real number it denotes, and an operation on \<^verbatim>\<open>f64\<close> is the exact operation followed
  by the rounding \<open>fl\<close> of the machine, a parameter of which \<open>f64_ok\<close> states what IEEE 754 promises.
  An \<^verbatim>\<open>Instant\<close> is a number of nanoseconds, an \<^verbatim>\<open>i64\<close> an integer, and \<open>checked\<close> says whether the build
  has overflow checks.
\<close>

section \<open>Arithmetic\<close>

definition add_u64 :: "bool \<Rightarrow> u64 \<Rightarrow> u64 \<Rightarrow> u64 exec" where
  "add_u64 checked a b = (if checked \<and> unat a + unat b \<ge> 2 ^ 64 then Panic else Ret (a + b))"

text \<open>\<^verbatim>\<open>n as f64\<close>, and \<^verbatim>\<open>x as u64\<close>, which truncates and saturates.\<close>

definition u64_to_f64 :: "(real \<Rightarrow> real) \<Rightarrow> u64 \<Rightarrow> real" where
  "u64_to_f64 fl n = fl (real (unat n))"

definition f64_to_u64 :: "real \<Rightarrow> u64" where
  "f64_to_u64 x = (if x \<le> 0 then 0 else if 2 ^ 64 \<le> x then - 1 else of_nat (nat \<lfloor>x\<rfloor>))"

text \<open>\<^verbatim>\<open>Duration::as_secs_f64\<close>.\<close>

definition as_secs_f64 :: "(real \<Rightarrow> real) \<Rightarrow> duration \<Rightarrow> real" where
  "as_secs_f64 fl d =
     fl (fl (real (d div 1000000000)) + fl (fl (real (d mod 1000000000)) / fl 1000000000))"

section \<open>The controller\<close>

definition PKT_INFO_SLOT_COUNT :: nat where "PKT_INFO_SLOT_COUNT = 5"
definition MIN_SAMPLE_COUNT :: u64 where "MIN_SAMPLE_COUNT = 50"
definition MIN_ACK_RATE :: "(real \<Rightarrow> real) \<Rightarrow> real" where "MIN_ACK_RATE fl = fl (8 / 10)"
definition CONGESTION_WINDOW_MULTIPLIER :: "(real \<Rightarrow> real) \<Rightarrow> real" where
  "CONGESTION_WINDOW_MULTIPLIER fl = fl 2"
definition INITIAL_WINDOW :: u64 where "INITIAL_WINDOW = 10240"

record pkt_info =
  timestamp :: int
  ack_count :: u64
  loss_count :: u64

definition pkt_info_default :: pkt_info where
  "pkt_info_default = \<lparr>timestamp = 0, ack_count = 0, loss_count = 0\<rparr>"

record brutal_sender =
  brutal_bps :: u64
  max_datagram_size :: u64
  rtt :: duration
  pkt_info_slots :: "pkt_info list"
  ack_rate :: real
  brutal_base :: nat

definition brutal_new :: "u64 \<Rightarrow> nat \<Rightarrow> u16 \<Rightarrow> brutal_sender" where
  "brutal_new bps now current_mtu =
     \<lparr>brutal_bps = bps, max_datagram_size = ucast current_mtu, rtt = 0,
      pkt_info_slots = replicate PKT_INFO_SLOT_COUNT pkt_info_default, ack_rate = 1, brutal_base = now\<rparr>"

definition seconds_since_base :: "brutal_sender \<Rightarrow> nat \<Rightarrow> int" where
  "seconds_since_base s now =
     (let secs = int ((now - brutal_base s) div 1000000000)
      in if secs < 2 ^ 63 then secs else 2 ^ 63 - 1)"

text \<open>The loop of \<^verbatim>\<open>update_ack_rate\<close>: the sums over the slots that are not too old.\<close>

fun sum_slots :: "bool \<Rightarrow> int \<Rightarrow> pkt_info list \<Rightarrow> u64 \<Rightarrow> u64 \<Rightarrow> (u64 \<times> u64) exec" where
  "sum_slots checked min_timestamp [] a l = Ret (a, l)"
| "sum_slots checked min_timestamp (i # is) a l =
     (if timestamp i < min_timestamp then sum_slots checked min_timestamp is a l
      else
        exec_bind (add_u64 checked a (ack_count i)) (\<lambda>a'.
        exec_bind (add_u64 checked l (loss_count i)) (\<lambda>l'.
        sum_slots checked min_timestamp is a' l')))"

definition rate_of :: "(real \<Rightarrow> real) \<Rightarrow> u64 \<Rightarrow> u64 \<Rightarrow> real" where
  "rate_of fl a n =
     (if n < MIN_SAMPLE_COUNT then 1
      else max (fl (u64_to_f64 fl a / u64_to_f64 fl n)) (MIN_ACK_RATE fl))"

definition update_ack_rate :: "(real \<Rightarrow> real) \<Rightarrow> bool \<Rightarrow> int \<Rightarrow> brutal_sender \<Rightarrow> brutal_sender exec" where
  "update_ack_rate fl checked current s =
     exec_bind (sum_slots checked (current - int PKT_INFO_SLOT_COUNT) (pkt_info_slots s) 0 0) (\<lambda>(a, l).
     exec_bind (add_u64 checked a l) (\<lambda>n.
     Ret (s\<lparr>ack_rate := rate_of fl a n\<rparr>)))"

definition add_samples ::
  "(real \<Rightarrow> real) \<Rightarrow> bool \<Rightarrow> nat \<Rightarrow> u64 \<Rightarrow> u64 \<Rightarrow> brutal_sender \<Rightarrow> brutal_sender exec" where
  "add_samples fl checked now acks losses s =
     (let current = seconds_since_base s now;
          slot = nat (current mod int PKT_INFO_SLOT_COUNT)
      in exec_bind (index_at (pkt_info_slots s) slot) (\<lambda>i.
         exec_bind
           (if timestamp i = current then
              exec_bind (add_u64 checked (loss_count i) losses) (\<lambda>l.
              exec_bind (add_u64 checked (ack_count i) acks) (\<lambda>a.
              Ret (i\<lparr>loss_count := l, ack_count := a\<rparr>)))
            else Ret \<lparr>timestamp = current, ack_count = acks, loss_count = losses\<rparr>) (\<lambda>i'.
         update_ack_rate fl checked current
           (s\<lparr>pkt_info_slots := (pkt_info_slots s)[slot := i']\<rparr>))))"

definition congestion_window :: "(real \<Rightarrow> real) \<Rightarrow> brutal_sender \<Rightarrow> u64" where
  "congestion_window fl s =
     (let r = as_secs_f64 fl (rtt s)
      in if r \<le> 0 then INITIAL_WINDOW
         else
           let cwnd = f64_to_u64 (fl (fl (fl (u64_to_f64 fl (brutal_bps s) * r) *
                        CONGESTION_WINDOW_MULTIPLIER fl) / ack_rate s))
           in max cwnd (max_datagram_size s))"

text \<open>The \<^verbatim>\<open>Controller\<close> callbacks that change the state.\<close>

definition on_ack :: "(real \<Rightarrow> real) \<Rightarrow> bool \<Rightarrow> nat \<Rightarrow> duration \<Rightarrow> brutal_sender \<Rightarrow> brutal_sender exec" where
  "on_ack fl checked now estimate s = add_samples fl checked now 1 0 (s\<lparr>rtt := estimate\<rparr>)"

definition on_congestion_event ::
  "(real \<Rightarrow> real) \<Rightarrow> bool \<Rightarrow> nat \<Rightarrow> u64 \<Rightarrow> brutal_sender \<Rightarrow> brutal_sender exec" where
  "on_congestion_event fl checked now lost_bytes s =
     (if lost_bytes = 0 then Ret s
      else
        let lost_packets = of_nat (div_ceil (unat lost_bytes) (unat (max (max_datagram_size s) 1)))
        in add_samples fl checked now 0 lost_packets s)"

definition on_mtu_update :: "u16 \<Rightarrow> brutal_sender \<Rightarrow> brutal_sender" where
  "on_mtu_update new_mtu s = s\<lparr>max_datagram_size := ucast new_mtu\<rparr>"

definition brutal_window :: "(real \<Rightarrow> real) \<Rightarrow> brutal_sender \<Rightarrow> u64" where
  "brutal_window fl s = congestion_window fl s"

definition initial_window :: u64 where "initial_window = INITIAL_WINDOW"

text \<open>\<^verbatim>\<open>BrutalConfig\<close>, the factory.\<close>

record brutal_config =
  config_bps :: u64

definition brutal_build :: "brutal_config \<Rightarrow> nat \<Rightarrow> u16 \<Rightarrow> brutal_sender" where
  "brutal_build c now current_mtu = brutal_new (config_bps c) now current_mtu"

datatype brutal_event = AckAt nat duration | LossAt nat u64 | MtuIs u16

fun brutal_step :: "(real \<Rightarrow> real) \<Rightarrow> bool \<Rightarrow> brutal_event \<Rightarrow> brutal_sender \<Rightarrow> brutal_sender exec" where
  "brutal_step fl checked (AckAt now r) s = on_ack fl checked now r s"
| "brutal_step fl checked (LossAt now b) s = on_congestion_event fl checked now b s"
| "brutal_step fl checked (MtuIs m) s = Ret (on_mtu_update m s)"

fun brutal_run :: "(real \<Rightarrow> real) \<Rightarrow> bool \<Rightarrow> brutal_event list \<Rightarrow> brutal_sender \<Rightarrow> brutal_sender exec" where
  "brutal_run fl checked [] s = Ret s"
| "brutal_run fl checked (e # es) s = exec_bind (brutal_step fl checked e s) (brutal_run fl checked es)"

section \<open>The samples of the last five seconds\<close>

text \<open>
  The reference: all samples ever recorded, as triples of second, acknowledged and lost packets.
\<close>

type_synonym sample = "int \<times> nat \<times> nat"

definition acks_at :: "sample list \<Rightarrow> int \<Rightarrow> nat" where
  "acks_at h t = sum_list (map (\<lambda>(s, a, l). if s = t then a else 0) h)"

definition losses_at :: "sample list \<Rightarrow> int \<Rightarrow> nat" where
  "losses_at h t = sum_list (map (\<lambda>(s, a, l). if s = t then l else 0) h)"

definition sample_total :: "sample list \<Rightarrow> nat" where
  "sample_total h = sum_list (map (\<lambda>(s, a, l). a + l) h)"

definition window_acks :: "sample list \<Rightarrow> int \<Rightarrow> nat" where
  "window_acks h c = (\<Sum>u\<in>{c - 4..c}. acks_at h u)"

definition window_losses :: "sample list \<Rightarrow> int \<Rightarrow> nat" where
  "window_losses h c = (\<Sum>u\<in>{c - 4..c}. losses_at h u)"

definition rate_spec :: "(real \<Rightarrow> real) \<Rightarrow> nat \<Rightarrow> nat \<Rightarrow> real" where
  "rate_spec fl a l =
     (if a + l < 50 then 1 else max (fl (fl (real a) / fl (real (a + l)))) (fl (8 / 10)))"

definition seconds_at :: "nat \<Rightarrow> nat \<Rightarrow> int" where
  "seconds_at base now =
     (let secs = int ((now - base) div 1000000000) in if secs < 2 ^ 63 then secs else 2 ^ 63 - 1)"

fun samples :: "nat \<Rightarrow> u64 \<Rightarrow> brutal_event list \<Rightarrow> sample list" where
  "samples base m [] = []"
| "samples base m (AckAt now r # es) = (seconds_at base now, 1, 0) # samples base m es"
| "samples base m (LossAt now b # es) =
     (if b = 0 then samples base m es
      else (seconds_at base now, 0, div_ceil (unat b) (unat (max m 1))) # samples base m es)"
| "samples base m (MtuIs m' # es) = samples base (ucast m') es"

lemma at_simps [simp]:
  "acks_at [] t = 0" "losses_at [] t = 0" "sample_total [] = 0"
  "acks_at (h @ h') t = acks_at h t + acks_at h' t"
  "losses_at (h @ h') t = losses_at h t + losses_at h' t"
  "sample_total (h @ h') = sample_total h + sample_total h'"
  "acks_at ((s, a, l) # h) t = (if s = t then a else 0) + acks_at h t"
  "losses_at ((s, a, l) # h) t = (if s = t then l else 0) + losses_at h t"
  "sample_total ((s, a, l) # h) = a + l + sample_total h"
  by (simp_all add: acks_at_def losses_at_def sample_total_def)

lemma window_total:
  "finite U \<Longrightarrow> (\<Sum>u\<in>U. acks_at h u) + (\<Sum>u\<in>U. losses_at h u) \<le> sample_total h"
proof (induction h)
  case (Cons x h)
  obtain s a l where x: "x = (s, a, l)" by (cases x) auto
  have "(\<Sum>u\<in>U. if s = u then k else 0) \<le> k" for k :: nat
    using Cons.prems by (simp add: sum.delta')
  from this [of a] this [of l] Cons show ?case by (simp add: x sum.distrib)
qed simp

lemma at_total: "acks_at h t + losses_at h t \<le> sample_total h"
  using window_total [of "{t}" h] by simp

section \<open>The ring of slots\<close>

definition slot_ok :: "sample list \<Rightarrow> int \<Rightarrow> nat \<Rightarrow> pkt_info \<Rightarrow> bool" where
  "slot_ok h cur j i \<longleftrightarrow>
     0 \<le> timestamp i \<and> timestamp i \<le> cur \<and> (timestamp i mod 5 = int j \<or> timestamp i = 0) \<and>
     unat (ack_count i) = (if timestamp i mod 5 = int j then acks_at h (timestamp i) else 0) \<and>
     unat (loss_count i) = (if timestamp i mod 5 = int j then losses_at h (timestamp i) else 0) \<and>
     (\<forall>u. u mod 5 = int j \<and> timestamp i < u \<longrightarrow> acks_at h u = 0 \<and> losses_at h u = 0)"

definition ring_inv :: "sample list \<Rightarrow> int \<Rightarrow> brutal_sender \<Rightarrow> bool" where
  "ring_inv h cur s \<longleftrightarrow> length (pkt_info_slots s) = 5 \<and> 0 \<le> cur \<and>
     (\<forall>t. t < 0 \<longrightarrow> acks_at h t = 0 \<and> losses_at h t = 0) \<and>
     (\<forall>j<5. slot_ok h cur j (pkt_info_slots s ! j))"

lemma ring_new: "ring_inv [] 0 (brutal_new bps now m)"
  by (simp add: ring_inv_def slot_ok_def brutal_new_def pkt_info_default_def PKT_INFO_SLOT_COUNT_def)

lemma add_u64_small: "unat a + unat b < 2 ^ 64 \<Longrightarrow> add_u64 checked a b = Ret (a + b)"
  by (simp add: add_u64_def)

lemma unat_add_small: "unat (a :: u64) + unat b < 2 ^ 64 \<Longrightarrow> unat (a + b) = unat a + unat b"
  by (simp add: unat_word_ariths)

text \<open>The sample goes into its slot.\<close>

definition put_sample :: "int \<Rightarrow> u64 \<Rightarrow> u64 \<Rightarrow> pkt_info \<Rightarrow> pkt_info" where
  "put_sample c a l i =
     (if timestamp i = c then i\<lparr>loss_count := loss_count i + l, ack_count := ack_count i + a\<rparr>
      else \<lparr>timestamp = c, ack_count = a, loss_count = l\<rparr>)"

lemma put_slot_ok:
  assumes "slot_ok h cur j i" "cur \<le> c" "c mod 5 = int j" "sample_total (h @ [(c, unat a, unat l)]) < 2 ^ 64"
  shows "slot_ok (h @ [(c, unat a, unat l)]) c j (put_sample c a l i)"
proof -
  have tot: "acks_at h c + losses_at h c \<le> sample_total h" by (rule at_total)
  show ?thesis
  proof (cases "timestamp i = c")
    case True
    then have "unat (ack_count i) = acks_at h c" "unat (loss_count i) = losses_at h c"
      using assms by (auto simp: slot_ok_def)
    moreover from this tot assms(4) have "unat (ack_count i + a) = acks_at h c + unat a"
      "unat (loss_count i + l) = losses_at h c + unat l"
      by (subst unat_add_small; simp)+
    ultimately show ?thesis using assms True by (auto simp: slot_ok_def put_sample_def)
  next
    case False
    then have "timestamp i < c" using assms by (simp add: slot_ok_def)
    then have "acks_at h u = 0" "losses_at h u = 0" if "u mod 5 = int j" "c \<le> u" for u
      using assms(1) that by (simp_all add: slot_ok_def)
    with assms False show ?thesis by (auto simp: slot_ok_def put_sample_def)
  qed
qed

lemma other_slot_ok:
  assumes "slot_ok h cur j i" "cur \<le> c" "c mod 5 \<noteq> int j"
  shows "slot_ok (h @ [(c, a, l)]) c j i"
proof -
  have "c \<noteq> u" if "u mod 5 = int j" for u using that assms(3) by blast
  with assms show ?thesis by (auto simp: slot_ok_def)
qed

lemma ring_put:
  assumes "ring_inv h cur s" "cur \<le> c" "sample_total (h @ [(c, unat a, unat l)]) < 2 ^ 64"
  defines "k \<equiv> nat (c mod 5)"
  shows "ring_inv (h @ [(c, unat a, unat l)]) c
    (s\<lparr>pkt_info_slots := (pkt_info_slots s)[k := put_sample c a l (pkt_info_slots s ! k)]\<rparr>)"
proof -
  have c: "0 \<le> c" and k: "k < 5" "c mod 5 = int k" using assms by (auto simp: ring_inv_def)
  have "slot_ok (h @ [(c, unat a, unat l)]) c j
      ((pkt_info_slots s)[k := put_sample c a l (pkt_info_slots s ! k)] ! j)" if "j < 5" for j
  proof (cases "j = k")
    case True
    have "slot_ok h cur k (pkt_info_slots s ! k)" using assms(1) k(1) by (simp add: ring_inv_def)
    from put_slot_ok [OF this assms(2) k(2) assms(3)] True that assms(1)
    show ?thesis by (simp add: ring_inv_def)
  next
    case False
    have "slot_ok h cur j (pkt_info_slots s ! j)" using assms(1) that by (simp add: ring_inv_def)
    from other_slot_ok [OF this assms(2)] False k(2) show ?thesis by simp
  qed
  with assms(1) c show ?thesis by (auto simp: ring_inv_def)
qed

text \<open>The loop adds up the slots it keeps.\<close>

lemma sum_slots_ok:
  assumes "unat a + (\<Sum>i\<leftarrow>is. if timestamp i < m then 0 else unat (ack_count i)) < 2 ^ 64"
    and "unat l + (\<Sum>i\<leftarrow>is. if timestamp i < m then 0 else unat (loss_count i)) < 2 ^ 64"
  shows "\<exists>a' l'. sum_slots checked m is a l = Ret (a', l') \<and>
    unat a' = unat a + (\<Sum>i\<leftarrow>is. if timestamp i < m then 0 else unat (ack_count i)) \<and>
    unat l' = unat l + (\<Sum>i\<leftarrow>is. if timestamp i < m then 0 else unat (loss_count i))"
  using assms
proof (induction "is" arbitrary: a l)
  case (Cons i "is")
  show ?case
  proof (cases "timestamp i < m")
    case False
    have "unat a + unat (ack_count i) < 2 ^ 64" "unat l + unat (loss_count i) < 2 ^ 64"
      using Cons.prems False by simp_all
    note small = this and small_unat = this [THEN unat_add_small]
    from Cons.IH [of "a + ack_count i" "l + loss_count i"] Cons.prems False
    show ?thesis by (simp add: add_u64_small [OF small(1)] add_u64_small [OF small(2)] small_unat add.assoc)
  qed (use Cons in simp)
qed simp

text \<open>The second of the window that falls into slot \<open>j\<close>.\<close>

lemma window_slots:
  fixes f :: "int \<Rightarrow> nat"
  shows "(\<Sum>j<5. f (c - (c - int j) mod 5)) = (\<Sum>u\<in>{c - 4..c}. f u)"
proof (rule sum.reindex_bij_witness [of _ "\<lambda>u. nat (u mod 5)" "\<lambda>j. c - (c - int j) mod 5"])
  fix j :: nat assume "j \<in> {..<5}"
  then show "nat ((c - (c - int j) mod 5) mod 5) = j" "c - (c - int j) mod 5 \<in> {c - 4..c}"
    by (simp_all add: mod_diff_right_eq)
next
  fix u :: int assume "u \<in> {c - 4..c}"
  then show "c - (c - int (nat (u mod 5))) mod 5 = u" "nat (u mod 5) \<in> {..<5}"
    by (simp_all add: mod_diff_right_eq)
qed simp

lemma slot_window:
  assumes "slot_ok h c j i" "j < 5" "\<forall>t. t < 0 \<longrightarrow> acks_at h t = 0 \<and> losses_at h t = 0"
    and "c mod 5 = int j \<Longrightarrow> timestamp i = c"
  defines "u \<equiv> c - (c - int j) mod 5"
  shows "(if timestamp i < c - 5 then 0 else unat (ack_count i)) = acks_at h u"
    "(if timestamp i < c - 5 then 0 else unat (loss_count i)) = losses_at h u"
proof -
  have u: "u mod 5 = int j" "c - 4 \<le> u" "u \<le> c" unfolding u_def using assms(2) by (simp_all add: mod_diff_right_eq)
  have lt: "timestamp i \<le> c" "0 \<le> timestamp i" using assms(1) by (simp_all add: slot_ok_def)
  consider "timestamp i = u" | "timestamp i < u" "timestamp i mod 5 = int j" "timestamp i < c - 5"
    | "timestamp i < u" "timestamp i mod 5 \<noteq> int j" | "u < 0" "timestamp i mod 5 \<noteq> int j"
  proof -
    have "timestamp i = u \<or> timestamp i \<le> u - 5" if "timestamp i mod 5 = int j"
    proof -
      have "5 dvd u - timestamp i" using that u(1) by (simp add: mod_eq_dvd_iff [symmetric])
      then obtain k where k: "u - timestamp i = 5 * k" ..
      consider "k < 0" | "k = 0" | "0 < k" by linarith
      then show ?thesis using k u(2) lt(1) by cases simp_all
    qed
    moreover have "timestamp i = u" if "timestamp i = c - 5" "timestamp i mod 5 = int j"
      using assms(4) that by simp
    moreover have "timestamp i = 0" if "timestamp i mod 5 \<noteq> int j"
      using assms(1) that by (simp add: slot_ok_def)
    moreover have "u \<noteq> 0" if "timestamp i mod 5 \<noteq> int j" "timestamp i = 0" using that u(1) by auto
    ultimately show thesis using that u lt by linarith
  qed
  then have "(if timestamp i < c - 5 then 0 else unat (ack_count i)) = acks_at h u \<and>
    (if timestamp i < c - 5 then 0 else unat (loss_count i)) = losses_at h u"
    by cases (use assms(1,3) u in \<open>auto simp: slot_ok_def\<close>)
  then show "(if timestamp i < c - 5 then 0 else unat (ack_count i)) = acks_at h u"
    "(if timestamp i < c - 5 then 0 else unat (loss_count i)) = losses_at h u" by blast+
qed

lemma ring_window:
  assumes "ring_inv h c s" "timestamp (pkt_info_slots s ! nat (c mod 5)) = c"
  shows "(\<Sum>i\<leftarrow>pkt_info_slots s. if timestamp i < c - 5 then 0 else unat (ack_count i)) = window_acks h c"
    "(\<Sum>i\<leftarrow>pkt_info_slots s. if timestamp i < c - 5 then 0 else unat (loss_count i)) = window_losses h c"
proof -
  have len: "length (pkt_info_slots s) = 5" using assms(1) by (simp add: ring_inv_def)
  have slot: "slot_ok h c j (pkt_info_slots s ! j)" "\<forall>t. t < 0 \<longrightarrow> acks_at h t = 0 \<and> losses_at h t = 0"
    "c mod 5 = int j \<Longrightarrow> timestamp (pkt_info_slots s ! j) = c" if "j < 5" for j
    using assms that by (auto simp: ring_inv_def)
  note w = slot_window [OF slot(1) _ slot(2,3)]
  show "(\<Sum>i\<leftarrow>pkt_info_slots s. if timestamp i < c - 5 then 0 else unat (ack_count i)) = window_acks h c"
    unfolding window_acks_def window_slots [symmetric] sum_list_sum_nth length_map len atLeast0LessThan
    by (rule sum.cong) (simp_all add: w len)
  show "(\<Sum>i\<leftarrow>pkt_info_slots s. if timestamp i < c - 5 then 0 else unat (loss_count i)) = window_losses h c"
    unfolding window_losses_def window_slots [symmetric] sum_list_sum_nth length_map len atLeast0LessThan
    by (rule sum.cong) (simp_all add: w len)
qed

lemma rate_of_spec:
  "unat n = unat a + l \<Longrightarrow> rate_of fl a n = rate_spec fl (unat a) l"
  by (simp add: rate_of_def rate_spec_def MIN_SAMPLE_COUNT_def MIN_ACK_RATE_def u64_to_f64_def
      word_less_nat_alt)

lemma update_ack_rate_ok:
  assumes "ring_inv h c s" "timestamp (pkt_info_slots s ! nat (c mod 5)) = c" "sample_total h < 2 ^ 64"
  shows "update_ack_rate fl checked c s =
    Ret (s\<lparr>ack_rate := rate_spec fl (window_acks h c) (window_losses h c)\<rparr>)"
proof -
  note w = ring_window [OF assms(1,2)]
  have tot: "window_acks h c + window_losses h c < 2 ^ 64"
    using window_total [of "{c - 4..c}" h] assms(3) by (simp add: window_acks_def window_losses_def)
  obtain a l where al: "sum_slots checked (c - 5) (pkt_info_slots s) 0 0 = Ret (a, l)"
    "unat a = window_acks h c" "unat l = window_losses h c"
    using sum_slots_ok [of 0 "c - 5" "pkt_info_slots s" 0 checked] tot unfolding w by auto
  have small: "unat a + unat l < 2 ^ 64" using al(2,3) tot by simp
  have "rate_of fl a (a + l) = rate_spec fl (window_acks h c) (window_losses h c)"
    using rate_of_spec [of "a + l" a "unat l" fl] unat_add_small [OF small] al(2,3) by simp
  then show ?thesis
    by (simp add: update_ack_rate_def PKT_INFO_SLOT_COUNT_def al(1) add_u64_small [OF small])
qed

lemma add_samples_ok:
  assumes "ring_inv h cur s" "c = seconds_at (brutal_base s) now" "cur \<le> c"
    and "h' = h @ [(c, unat a, unat l)]" "sample_total h' < 2 ^ 64"
  shows "\<exists>slots. add_samples fl checked now a l s =
      Ret (s\<lparr>pkt_info_slots := slots, ack_rate := rate_spec fl (window_acks h' c) (window_losses h' c)\<rparr>) \<and>
    ring_inv h' c (s\<lparr>pkt_info_slots := slots, ack_rate := rate_spec fl (window_acks h' c) (window_losses h' c)\<rparr>)"
proof -
  define k where "k = nat (c mod 5)"
  let ?i = "pkt_info_slots s ! k"
  let ?s = "s\<lparr>pkt_info_slots := (pkt_info_slots s)[k := put_sample c a l ?i]\<rparr>"
  have k: "k < 5" "c mod 5 = int k" by (auto simp: k_def)
  have len: "length (pkt_info_slots s) = 5" and ok: "slot_ok h cur k ?i"
    using assms(1) k by (auto simp: ring_inv_def)
  have ring: "ring_inv h' c ?s"
    unfolding assms(4) k_def by (rule ring_put [OF assms(1,3) assms(5) [unfolded assms(4)]])
  have "timestamp (put_sample c a l ?i) = c" by (simp add: put_sample_def)
  with len k have "timestamp (pkt_info_slots ?s ! nat (c mod 5)) = c" by simp
  note upd = update_ack_rate_ok [OF ring this assms(5), of fl checked]
  have small: "unat (loss_count ?i) + unat l < 2 ^ 64" "unat (ack_count ?i) + unat a < 2 ^ 64"
    using ok at_total [of h "timestamp ?i"] assms(5) unfolding assms(4) slot_ok_def by auto
  have secs: "seconds_since_base s now = c"
    by (simp add: seconds_since_base_def seconds_at_def assms(2))
  have "add_samples fl checked now a l s = update_ack_rate fl checked c ?s"
    unfolding add_samples_def secs Let_def PKT_INFO_SLOT_COUNT_def
    using len k by (simp add: index_at_in add_u64_small [OF small(1)] add_u64_small [OF small(2)]
        put_sample_def flip: k_def)
  moreover have "ring_inv h' c (?s\<lparr>ack_rate := x\<rparr>)" for x using ring by (simp add: ring_inv_def)
  ultimately show ?thesis unfolding upd
    by (intro exI [of _ "(pkt_info_slots s)[k := put_sample c a l ?i]"]) simp
qed

text \<open>What holds after the samples \<open>h\<close>, the last of them in second \<open>c\<close>.\<close>

definition rate_known :: "(real \<Rightarrow> real) \<Rightarrow> sample list \<Rightarrow> int \<Rightarrow> brutal_sender \<Rightarrow> bool" where
  "rate_known fl h c s \<longleftrightarrow> ring_inv h c s \<and>
     ack_rate s = (if h = [] then 1 else rate_spec fl (window_acks h c) (window_losses h c))"

lemma sample_step:
  assumes "rate_known fl h cur s" "cur \<le> seconds_at (brutal_base s) now"
    and "sample_total (h @ [(seconds_at (brutal_base s) now, unat a, unat l)]) < 2 ^ 64"
  obtains s' where "add_samples fl checked now a l s = Ret s'"
    "rate_known fl (h @ [(seconds_at (brutal_base s) now, unat a, unat l)]) (seconds_at (brutal_base s) now) s'"
    "brutal_base s' = brutal_base s" "max_datagram_size s' = max_datagram_size s"
proof -
  have "ring_inv h cur s" using assms(1) by (simp add: rate_known_def)
  from add_samples_ok [OF this refl assms(2) refl assms(3), of fl checked]
  show thesis using that by (auto simp: rate_known_def)
qed

lemma div_ceil_le: "0 < k \<Longrightarrow> div_ceil n k \<le> n"
  by (cases n) (simp_all add: div_ceil_def)

lemma brutal_run_ok:
  assumes "rate_known fl h cur s" "sorted (cur # map fst (samples (brutal_base s) (max_datagram_size s) es))"
    and "sample_total (h @ samples (brutal_base s) (max_datagram_size s) es) < 2 ^ 64"
  shows "\<exists>s'. brutal_run fl checked es s = Ret s' \<and>
    rate_known fl (h @ samples (brutal_base s) (max_datagram_size s) es)
      (last (cur # map fst (samples (brutal_base s) (max_datagram_size s) es))) s'"
  using assms
proof (induction es arbitrary: h cur s)
  case Nil
  then show ?case by simp
next
  case (Cons e es)
  have sample: ?case
    if "samples (brutal_base s) (max_datagram_size s) (e # es) =
        (seconds_at (brutal_base s) now, unat a, unat l) # samples (brutal_base s) (max_datagram_size s) es"
      "brutal_step fl checked e s = add_samples fl checked now a l s0"
      "s0 = s \<or> s0 = s\<lparr>rtt := r\<rparr>" for now a l s0 r
  proof -
    let ?c = "seconds_at (brutal_base s) now"
    have s0: "rate_known fl h cur s0" "brutal_base s0 = brutal_base s" "max_datagram_size s0 = max_datagram_size s"
      using Cons.prems(1) that(3) by (auto simp: rate_known_def ring_inv_def)
    have pre: "cur \<le> ?c" "sample_total (h @ [(?c, unat a, unat l)]) < 2 ^ 64"
      using Cons.prems(2,3) [unfolded that(1)] by simp_all
    obtain s' where s': "add_samples fl checked now a l s0 = Ret s'"
      "rate_known fl (h @ [(?c, unat a, unat l)]) ?c s'" "brutal_base s' = brutal_base s"
      "max_datagram_size s' = max_datagram_size s"
      using sample_step [OF s0(1), of now a l checked] pre unfolding s0(2,3) by blast
    from Cons.IH [OF s'(2)] Cons.prems(2,3) show ?thesis
      unfolding that(1) s'(3,4) by (simp add: that(2) s'(1))
  qed
  show ?case
  proof (cases e)
    case (AckAt now r)
    then show ?thesis by (intro sample [of now 1 0 "s\<lparr>rtt := r\<rparr>" r]) (simp_all add: on_ack_def)
  next
    case (LossAt now b)
    show ?thesis
    proof (cases "b = 0")
      case True
      then show ?thesis using Cons LossAt by (simp add: on_congestion_event_def)
    next
      case False
      let ?n = "div_ceil (unat b) (unat (max (max_datagram_size s) 1))"
      have "max (max_datagram_size s) 1 \<noteq> 0" by (auto simp: max_def)
      then have "?n \<le> unat b" by (intro div_ceil_le) (simp add: unat_gt_0)
      then have "unat (of_nat ?n :: u64) = ?n"
        using unsigned_less [of b, where ?'a = nat] by (simp add: unat_of_nat)
      with False LossAt show ?thesis
        by (intro sample [of now 0 "of_nat ?n" s 0]) (simp_all add: on_congestion_event_def)
    qed
  next
    case (MtuIs m)
    let ?s = "on_mtu_update m s"
    have "rate_known fl h cur ?s" using Cons.prems(1) by (simp add: rate_known_def ring_inv_def on_mtu_update_def)
    from Cons.IH [OF this] Cons.prems(2,3) MtuIs show ?thesis by (simp add: on_mtu_update_def)
  qed
qed

lemma samples_nonneg: "c \<in> set (map fst (samples base m es)) \<Longrightarrow> 0 \<le> c"
  by (induction base m es rule: samples.induct) (auto simp: seconds_at_def Let_def split: if_splits)

lemma brutal_run_new:
  assumes "h = samples base (ucast mtu) es" "sorted (map fst h)" "sample_total h < 2 ^ 64"
  shows "\<exists>s. brutal_run fl checked es (brutal_new bps base mtu) = Ret s \<and>
    rate_known fl h (last (0 # map fst h)) s"
proof -
  let ?s = "brutal_new bps base mtu"
  have new: "brutal_base ?s = base" "max_datagram_size ?s = ucast mtu" "rate_known fl [] 0 ?s"
    using ring_new [of bps base mtu] by (simp_all add: brutal_new_def rate_known_def)
  have "sorted (0 # map fst (samples (brutal_base ?s) (max_datagram_size ?s) es))"
    using assms(1,2) samples_nonneg by (auto simp: new)
  from brutal_run_ok [OF new(3) this, of checked] assms show ?thesis by (simp add: new)
qed

section \<open>Rounding\<close>

text \<open>
  What IEEE 754 double precision promises of rounding: it is monotone, exact on the integers up to
  \<open>2 ^ 53\<close>, and within half a unit in the last place in the normal range.
\<close>

definition f64_ok :: "(real \<Rightarrow> real) \<Rightarrow> bool" where
  "f64_ok fl \<longleftrightarrow> mono fl \<and> (\<forall>n :: nat. n \<le> 2 ^ 53 \<longrightarrow> fl (real n) = real n) \<and>
     (\<forall>x. 1 / 2 ^ 1000 \<le> x \<and> x \<le> 2 ^ 1000 \<longrightarrow> \<bar>fl x - x\<bar> \<le> x * (1 / 2 ^ 53))"

text \<open>\<open>near k x y\<close>: \<open>x\<close> is \<open>y\<close> up to \<open>k\<close> roundings.\<close>

definition near :: "nat \<Rightarrow> real \<Rightarrow> real \<Rightarrow> bool" where
  "near k x y \<longleftrightarrow> 0 < y \<and> (1 - 1 / 2 ^ 53) ^ k * y \<le> x \<and> x \<le> (1 + 1 / 2 ^ 53) ^ k * y"

lemma near_pos: "near k x y \<Longrightarrow> 0 < x"
proof -
  assume "near k x y"
  moreover have "(0 :: real) < (1 - 1 / 2 ^ 53) ^ k" by simp
  ultimately show "0 < x" unfolding near_def by (meson less_le_trans mult_pos_pos)
qed

lemma near_self: "0 < y \<Longrightarrow> near 0 y y"
  by (simp add: near_def)

lemma near_mult:
  assumes "near j x y" "near k x' y'"
  shows "near (j + k) (x * x') (y * y')"
proof -
  let ?u = "1 / 2 ^ 53 :: real"
  have "((1 - ?u) ^ j * y) * ((1 - ?u) ^ k * y') \<le> x * x'" "x * x' \<le> ((1 + ?u) ^ j * y) * ((1 + ?u) ^ k * y')"
    using assms near_pos [OF assms(1)] near_pos [OF assms(2)] unfolding near_def
    by (intro mult_mono; simp)+
  then show ?thesis using assms by (simp add: near_def power_add ac_simps)
qed

lemma near_range:
  assumes "near k x y" "k \<le> 16" "1 / 2 ^ 200 \<le> y" "y \<le> 2 ^ 300"
  shows "1 / 2 ^ 1000 \<le> x" "x \<le> 2 ^ 1000"
proof -
  have "(1 / 2 :: real) ^ 16 \<le> (1 / 2) ^ k" using assms(2) by (intro power_decreasing) auto
  also have "\<dots> \<le> (1 - 1 / 2 ^ 53) ^ k" by (intro power_mono) auto
  finally have "(1 / 2) ^ 16 * (1 / 2 ^ 200) \<le> (1 - 1 / 2 ^ 53) ^ k * y" using assms(3) by (intro mult_mono) auto
  with assms(1) have "(1 / 2) ^ 16 * (1 / 2 ^ 200) \<le> x" unfolding near_def by linarith
  moreover have "(1 / 2 ^ 1000 :: real) \<le> (1 / 2) ^ 16 * (1 / 2 ^ 200)"
    by (simp add: power_one_over divide_simps flip: power_add)
  ultimately show "1 / 2 ^ 1000 \<le> x" by linarith
  have "(1 + 1 / 2 ^ 53 :: real) ^ k \<le> 2 ^ k" by (intro power_mono) auto
  also have "\<dots> \<le> 2 ^ 16" using assms(2) by (intro power_increasing) auto
  finally have "(1 + 1 / 2 ^ 53) ^ k * y \<le> 2 ^ 16 * 2 ^ 300" using assms(1,4) unfolding near_def by (intro mult_mono) auto
  with assms(1) have "x \<le> 2 ^ 16 * 2 ^ 300" unfolding near_def by linarith
  also have "\<dots> \<le> 2 ^ 1000" by (simp flip: power_add)
  finally show "x \<le> 2 ^ 1000" .
qed

lemma relative_error: "\<bar>y - x\<bar> \<le> x * e \<Longrightarrow> (1 - e) * x \<le> y \<and> y \<le> (1 + e) * (x :: real)"
  by (auto simp: abs_le_iff algebra_simps)

lemma near_fl:
  assumes "f64_ok fl" "near k x y" "k \<le> 16" "1 / 2 ^ 200 \<le> y" "y \<le> 2 ^ 300"
  shows "near (Suc k) (fl x) y"
proof -
  let ?u = "1 / 2 ^ 53 :: real"
  have "\<bar>fl x - x\<bar> \<le> x * ?u" using assms(1) near_range [OF assms(2-)] unfolding f64_ok_def by blast
  then have "(1 - ?u) * x \<le> fl x" "fl x \<le> (1 + ?u) * x" using relative_error by blast+
  moreover have "(1 - ?u) * ((1 - ?u) ^ k * y) \<le> (1 - ?u) * x" "(1 + ?u) * x \<le> (1 + ?u) * ((1 + ?u) ^ k * y)"
    using assms(2) unfolding near_def by (intro mult_left_mono; simp)+
  ultimately show ?thesis using assms(2) unfolding near_def by (simp add: mult.assoc)
qed

lemma near_int:
  assumes "f64_ok fl" "0 < n" "n \<le> 2 ^ 64"
  shows "near 1 (fl (real n)) (real n)"
proof -
  have "real n \<le> 2 ^ 64" using assms(3) by (metis of_nat_le_iff of_nat_numeral of_nat_power)
  also have "\<dots> \<le> (2 :: real) ^ 300" by (intro power_increasing) auto
  finally have "near (Suc 0) (fl (real n)) (real n)"
    using assms by (intro near_fl near_self) (auto intro: order_trans [of _ 1])
  then show ?thesis by simp
qed

lemma near_mono_steps:
  assumes "near j x y" "j \<le> k"
  shows "near k x y"
proof -
  have "(1 - 1 / 2 ^ 53 :: real) ^ k \<le> (1 - 1 / 2 ^ 53) ^ j" "(1 + 1 / 2 ^ 53 :: real) ^ j \<le> (1 + 1 / 2 ^ 53) ^ k"
    using assms(2) by (intro power_decreasing power_increasing; simp)+
  from mult_right_mono [OF this(1), of y] mult_right_mono [OF this(2), of y] assms(1)
  show ?thesis unfolding near_def by linarith
qed

lemma near_add:
  assumes "near k x y" "near k x' y'"
  shows "near k (x + x') (y + y')"
  using assms unfolding near_def by (simp add: distrib_left)

text \<open>The duration in seconds: three roundings at most.\<close>

lemma as_secs_near:
  assumes "f64_ok fl" "0 < d" "d < 2 ^ 64 * 1000000000"
  shows "near 3 (as_secs_f64 fl d) (real d / 1000000000)"
proof -
  let ?s = "d div 1000000000" and ?n = "d mod 1000000000"
  let ?f = "fl (fl (real ?n) / fl 1000000000)"
  have "real d = real (?s * 1000000000 + ?n)" by (simp only: div_mult_mod_eq)
  then have "real d = real ?s * 1000000000 + real ?n" by (simp only: of_nat_add of_nat_mult of_nat_numeral)
  then have d: "real d / 1000000000 = real ?s + real ?n / 1000000000" by simp
  have exact: "fl (real ?n) = real ?n" "fl 1000000000 = 1000000000" "fl 0 = 0"
    using assms(1) spec [OF conjunct1 [OF conjunct2 [OF assms(1) [unfolded f64_ok_def]]], of 1000000000]
      spec [OF conjunct1 [OF conjunct2 [OF assms(1) [unfolded f64_ok_def]]], of ?n]
      spec [OF conjunct1 [OF conjunct2 [OF assms(1) [unfolded f64_ok_def]]], of 0]
    by (auto simp: less_imp_le)
  have range: "1 / 2 ^ 200 \<le> real d / 1000000000" "real d / 1000000000 \<le> 2 ^ 300"
  proof -
    have "1 / 2 ^ 200 \<le> (1 :: real) / 1000000000" by simp
    also have "\<dots> \<le> real d / 1000000000" using assms(2) by (intro divide_right_mono) auto
    finally show "1 / 2 ^ 200 \<le> real d / 1000000000" .
    have "real d \<le> real (2 ^ 64 * 1000000000)" using assms(3) by (simp only: of_nat_le_iff less_imp_le)
    then have "real d \<le> 2 ^ 64 * 1000000000" by (simp only: of_nat_mult of_nat_numeral of_nat_power)
    then have "real d / 1000000000 \<le> 2 ^ 64" by simp
    also have "\<dots> \<le> (2 :: real) ^ 300" by (intro power_increasing) auto
    finally show "real d / 1000000000 \<le> 2 ^ 300" .
  qed
  have secs: "near 2 (fl (real ?s)) (real ?s)" if "0 < ?s"
    using near_int [OF assms(1) that] assms(3) near_mono_steps [of 1 _ _ 2] by simp
  have nanos: "near 2 ?f (real ?n / 1000000000)" if "0 < ?n"
  proof -
    have "1 / 2 ^ 200 \<le> (1 :: real) / 1000000000" by simp
    also have "\<dots> \<le> real ?n / 1000000000" using that by (intro divide_right_mono) auto
    finally have lo: "1 / 2 ^ 200 \<le> real ?n / 1000000000" .
    have "real ?n / 1000000000 \<le> 1" by simp
    also have "\<dots> \<le> (2 :: real) ^ 300" by (rule one_le_power) simp
    finally have "near (Suc 0) (fl (real ?n / 1000000000)) (real ?n / 1000000000)"
      using lo that by (intro near_fl [OF assms(1)] near_self) auto
    then show ?thesis using near_mono_steps [of 1 _ _ 2] by (simp add: exact)
  qed
  have "near 2 (fl (real ?s) + ?f) (real d / 1000000000)"
  proof (cases "?s = 0"; cases "?n = 0")
    assume "?s = 0" "?n = 0"
    then have "d = 0" by (metis add_0 div_mult_mod_eq mult_0)
    then show ?thesis using assms(2) by simp
  next
    assume "?s = 0" "?n \<noteq> 0"
    then show ?thesis using nanos unfolding d by (simp add: exact)
  next
    assume "?s \<noteq> 0" "?n = 0"
    then show ?thesis using secs unfolding d by (simp add: exact)
  next
    assume "?s \<noteq> 0" "?n \<noteq> 0"
    then show ?thesis using near_add [OF secs nanos] unfolding d by simp
  qed
  then have "near (Suc 2) (as_secs_f64 fl d) (real d / 1000000000)"
    unfolding as_secs_f64_def by (rule near_fl [OF assms(1) _ _ range]) simp
  then show ?thesis by simp
qed

text \<open>The rate stays between the floor and one.\<close>

lemma f64_mono: "f64_ok fl \<Longrightarrow> x \<le> y \<Longrightarrow> fl x \<le> fl y"
  by (simp add: f64_ok_def mono_def)

lemma f64_exact: "f64_ok fl \<Longrightarrow> n \<le> 2 ^ 53 \<Longrightarrow> fl (real n) = real n"
  by (simp add: f64_ok_def)

lemma rate_spec_range:
  assumes "f64_ok fl"
  shows "fl (8 / 10) \<le> rate_spec fl a l" "rate_spec fl a l \<le> 1"
proof -
  have one: "fl 1 = 1" using f64_exact [OF assms, of 1] by simp
  have floor: "fl (8 / 10) \<le> 1" using f64_mono [OF assms, of "8 / 10" 1] one by simp
  show "fl (8 / 10) \<le> rate_spec fl a l" using floor by (simp add: rate_spec_def)
  have "fl (fl (real a) / fl (real (a + l))) \<le> 1" if "50 \<le> a + l"
  proof -
    have "(50 :: real) = fl (real 50)" using f64_exact [OF assms, of 50] by simp
    also have "\<dots> \<le> fl (real (a + l))" using that by (intro f64_mono [OF assms]) simp
    finally have "0 < fl (real (a + l))" by simp
    moreover have "fl (real a) \<le> fl (real (a + l))" by (intro f64_mono [OF assms]) simp
    ultimately have "fl (real a) / fl (real (a + l)) \<le> 1" by simp
    from f64_mono [OF assms this] one show ?thesis by simp
  qed
  then show "rate_spec fl a l \<le> 1" using floor by (simp add: rate_spec_def)
qed

lemma floor_near: "f64_ok fl \<Longrightarrow> 3 / 4 \<le> fl (8 / 10)"
proof -
  assume ok: "f64_ok fl"
  have "8 / 10 \<le> (2 :: real) ^ 300" by (rule order_trans [of _ 1]) (simp_all add: one_le_power)
  then have "near (Suc 0) (fl (8 / 10)) (8 / 10)"
    by (intro near_fl [OF ok] near_self) (simp_all add: order_trans [of "1 / 2 ^ 200" "1 / 2"])
  then show "3 / 4 \<le> fl (8 / 10)" unfolding near_def by simp
qed

text \<open>The float that the window is cut from: seven roundings of the exact product.\<close>

definition exact_window :: "brutal_sender \<Rightarrow> real" where
  "exact_window s = 2 * real (unat (brutal_bps s)) * (real (rtt s) / 1000000000) / ack_rate s"

lemma scaled_range:
  fixes x k :: real
  assumes "0 \<le> x" "3 / 4 \<le> k" "k \<le> 1"
  shows "x \<le> 2 * x / k \<and> 2 * x / k \<le> 4 * x"
  using assms mult_left_mono [OF assms(3,1)] mult_left_mono [OF assms(2,1)]
  by (simp add: pos_le_divide_eq pos_divide_le_eq algebra_simps)

lemma near_scale: "near k x y \<Longrightarrow> 0 < c \<Longrightarrow> near k (x * c) (y * c)"
  using near_mult [OF _ near_self [of c], of k x y] by simp

lemma window_float_near:
  assumes "f64_ok fl" "3 / 4 \<le> ack_rate s" "ack_rate s \<le> 1" "brutal_bps s \<noteq> 0"
    and "0 < rtt s" "rtt s < 2 ^ 64 * 1000000000"
  shows "near 7 (fl (fl (fl (u64_to_f64 fl (brutal_bps s) * as_secs_f64 fl (rtt s)) * fl 2) / ack_rate s))
    (exact_window s)"
proof -
  define n where "n = unat (brutal_bps s)"
  let ?b = "real n" and ?r = "real (rtt s) / 1000000000"
  have two: "fl 2 = 2" using f64_exact [OF assms(1), of 2] by simp
  have b: "0 < n" "n \<le> 2 ^ 64"
    using assms(4) unsigned_less [of "brutal_bps s", where ?'a = nat] by (simp_all add: n_def unat_gt_0 less_imp_le)
  have "?b \<le> real (2 ^ 64)" using b(2) by (simp only: of_nat_le_iff)
  then have b1: "1 \<le> ?b" "?b \<le> 2 ^ 64" using b(1) by simp_all
  have "real (rtt s) \<le> real (2 ^ 64 * 1000000000)" using assms(6) by (simp only: of_nat_le_iff less_imp_le)
  then have r1: "1 / 2 ^ 30 \<le> ?r" "?r \<le> 2 ^ 64"
    using assms(5) by (simp_all add: field_simps)
  have p: "1 / 2 ^ 30 \<le> ?b * ?r" "?b * ?r \<le> 2 ^ 128"
    using mult_mono [OF b1(1) r1(1)] mult_mono [OF b1(2) r1(2)] b1 r1 by simp_all
  have q: "1 / 2 ^ 30 \<le> exact_window s" "exact_window s \<le> 2 ^ 130"
  proof -
    have w: "exact_window s = 2 * (?b * ?r) / ack_rate s" by (simp add: exact_window_def flip: n_def)
    have "0 \<le> ?b * ?r" by simp
    then have "?b * ?r \<le> exact_window s" "exact_window s \<le> 4 * (?b * ?r)"
      unfolding w using scaled_range [OF _ assms(2,3)] by blast+
    then show "1 / 2 ^ 30 \<le> exact_window s" "exact_window s \<le> 2 ^ 130" using p by simp_all
  qed
  have big: "(2 :: real) ^ 130 \<le> 2 ^ 300" "(2 :: real) ^ 128 * 2 \<le> 2 ^ 300" "(1 :: real) / 2 ^ 200 \<le> 1 / 2 ^ 30"
    by (simp_all add: divide_simps)
  have "near 4 (u64_to_f64 fl (brutal_bps s) * as_secs_f64 fl (rtt s)) (?b * ?r)"
    using near_mult [OF near_int [OF assms(1) b] as_secs_near [OF assms(1,5,6)]]
    by (simp add: u64_to_f64_def flip: n_def)
  then have "near 5 (fl (u64_to_f64 fl (brutal_bps s) * as_secs_f64 fl (rtt s))) (?b * ?r)"
    using near_fl [OF assms(1), of 4] p big by simp
  then have "near 5 (fl (u64_to_f64 fl (brutal_bps s) * as_secs_f64 fl (rtt s)) * 2) (?b * ?r * 2)"
    by (rule near_scale) simp
  then have "near 6 (fl (fl (u64_to_f64 fl (brutal_bps s) * as_secs_f64 fl (rtt s)) * 2)) (?b * ?r * 2)"
    using near_fl [OF assms(1), of 5] p big by simp
  then have "near 6 (fl (fl (u64_to_f64 fl (brutal_bps s) * as_secs_f64 fl (rtt s)) * 2) * (1 / ack_rate s))
      (?b * ?r * 2 * (1 / ack_rate s))"
    by (rule near_scale) (use assms(2) in simp)
  then have "near 6 (fl (fl (u64_to_f64 fl (brutal_bps s) * as_secs_f64 fl (rtt s)) * 2) / ack_rate s) (exact_window s)"
    by (simp add: exact_window_def mult.commute flip: n_def)
  then show ?thesis using near_fl [OF assms(1), of 6] q big unfolding two by simp
qed

lemma near_seven:
  assumes "near 7 x y"
  shows "y * (1 - 1 / 2 ^ 50) \<le> x" "x \<le> y * (1 + 1 / 2 ^ 50)"
proof -
  have "(1 - 1 / 2 ^ 50 :: real) \<le> (1 - 1 / 2 ^ 53) ^ 7" "(1 + 1 / 2 ^ 53 :: real) ^ 7 \<le> 1 + 1 / 2 ^ 50"
    by (simp_all add: power_divide)
  note pow = this
  have n: "0 \<le> y" "(1 - 1 / 2 ^ 53) ^ 7 * y \<le> x" "x \<le> (1 + 1 / 2 ^ 53) ^ 7 * y"
    using assms unfolding near_def by linarith+
  show "y * (1 - 1 / 2 ^ 50) \<le> x" "x \<le> y * (1 + 1 / 2 ^ 50)"
    using order_trans [OF mult_right_mono [OF pow(1) n(1)] n(2)]
      order_trans [OF n(3) mult_right_mono [OF pow(2) n(1)]]
    by (simp_all only: mult.commute)
qed

lemma f64_to_u64_floor:
  assumes "0 < x" "x < 2 ^ 64"
  shows "real (unat (f64_to_u64 x)) \<le> x" "x - 1 \<le> real (unat (f64_to_u64 x))"
proof -
  define n where "n = nat \<lfloor>x\<rfloor>"
  have "n < 2 ^ 64" unfolding n_def using assms by (simp add: nat_less_iff floor_less_iff)
  then have "unat (of_nat n :: u64) = n" by (simp add: unat_of_nat)
  moreover have "f64_to_u64 x = of_nat n" unfolding f64_to_u64_def n_def using assms by auto
  ultimately have "unat (f64_to_u64 x) = nat \<lfloor>x\<rfloor>" by (simp only: n_def)
  moreover have "real (nat \<lfloor>x\<rfloor>) = of_int \<lfloor>x\<rfloor>" using assms(1) by simp
  ultimately show "real (unat (f64_to_u64 x)) \<le> x" "x - 1 \<le> real (unat (f64_to_u64 x))"
    by linarith+
qed

lemma max_unat: "unat (max a b :: u64) = max (unat a) (unat b)"
  by (simp add: max_def word_le_nat_alt)

section \<open>Properties\<close>

text \<open>
  C18. The ring of five slots is a sliding window: after any acknowledgements, losses and MTU changes
  whose seconds do not decrease (and fewer than \<open>2 ^ 64\<close> packets), nothing has panicked and the
  acknowledgement rate is the one computed from exactly the packets recorded in the last five
  seconds, whatever the build profile.
\<close>

theorem brutal_rate_window:
  assumes "h = samples base (ucast mtu) es" "h \<noteq> []" "sorted (map fst h)" "sample_total h < 2 ^ 64"
  shows "\<exists>s. brutal_run fl checked es (brutal_new bps base mtu) = Ret s \<and>
    ack_rate s = rate_spec fl (window_acks h (fst (last h))) (window_losses h (fst (last h)))"
proof -
  from brutal_run_new [OF assms(1,3,4), of fl checked bps] assms(2) show ?thesis
    by (auto simp: rate_known_def last_map)
qed

theorem brutal_rate_window_witness:
  "\<exists>s. brutal_run (\<lambda>x. x) True [AckAt 1000000000 5, LossAt 9000000000 4000] (brutal_new 9 0 1000) = Ret s \<and>
     ack_rate s = 1"
proof -
  let ?es = "[AckAt 1000000000 5, LossAt 9000000000 4000]"
  have h: "[(1, 1, 0), (9, 0, 4)] = samples 0 (ucast (1000 :: u16)) ?es"
    by (simp add: seconds_at_def div_ceil_def max_def word_le_nat_alt)
  have w: "window_acks [(1, 1, 0), (9, 0, 4)] 9 = 0" "window_losses [(1, 1, 0), (9, 0, 4)] 9 = 4"
    by (simp_all add: window_acks_def window_losses_def)
  from brutal_rate_window [OF h, of "\<lambda>x. x" True 9] show ?thesis by (simp add: w [simplified] rate_spec_def)
qed

text \<open>
  C19. The congestion window is twice the bandwidth-delay product, inflated by at most a third for
  losses: for any IEEE 754 rounding it lies within one byte and a relative error of \<open>2 ^ - 50\<close> of the
  exact value, never below one datagram; before the first RTT sample it is the initial window.
\<close>

theorem brutal_window_bounds:
  assumes "f64_ok fl" "h = samples base (ucast mtu) es" "sorted (map fst h)" "sample_total h < 2 ^ 64"
    and "brutal_run fl checked es (brutal_new bps base mtu) = Ret s"
    and "brutal_bps s \<noteq> 0" "rtt s < 2 ^ 64 * 1000000000" "exact_window s * (1 + 1 / 2 ^ 50) < 2 ^ 64"
  shows "if rtt s = 0 then brutal_window fl s = 10240
    else unat (max_datagram_size s) \<le> unat (brutal_window fl s) \<and>
      exact_window s * (1 - 1 / 2 ^ 50) - 1 \<le> real (unat (brutal_window fl s)) \<and>
      real (unat (brutal_window fl s)) \<le>
        max (exact_window s * (1 + 1 / 2 ^ 50)) (real (unat (max_datagram_size s))) \<and>
      3 / 4 \<le> ack_rate s \<and> ack_rate s \<le> 1"
proof (cases "rtt s = 0")
  case True
  then show ?thesis
    using f64_exact [OF assms(1), of 0] f64_exact [OF assms(1), of 1000000000]
    by (simp add: brutal_window_def congestion_window_def as_secs_f64_def INITIAL_WINDOW_def)
next
  case False
  from brutal_run_new [OF assms(2-4), of fl checked bps] assms(5)
  have "ack_rate s = 1 \<or> (\<exists>a l. ack_rate s = rate_spec fl a l)" by (auto simp: rate_known_def)
  then have rate: "3 / 4 \<le> ack_rate s" "ack_rate s \<le> 1"
    using rate_spec_range [OF assms(1)] floor_near [OF assms(1)] by (force intro: order_trans)+
  define x where "x = fl (fl (fl (u64_to_f64 fl (brutal_bps s) * as_secs_f64 fl (rtt s)) * fl 2) / ack_rate s)"
  have near: "near 7 x (exact_window s)"
    unfolding x_def using window_float_near [OF assms(1) rate assms(6) _ assms(7)] False by simp
  note bounds = near_seven [OF near]
  have "0 < x" "x < 2 ^ 64" using near_pos [OF near] bounds(2) assms(8) by linarith+
  note fl = f64_to_u64_floor [OF this]
  have "0 < as_secs_f64 fl (rtt s)" using near_pos [OF as_secs_near [OF assms(1) _ assms(7)]] False by simp
  then have w: "brutal_window fl s = max (f64_to_u64 x) (max_datagram_size s)"
    by (simp add: brutal_window_def congestion_window_def x_def Let_def CONGESTION_WINDOW_MULTIPLIER_def)
  have "real (unat (brutal_window fl s)) = max (real (unat (f64_to_u64 x))) (real (unat (max_datagram_size s)))"
    unfolding w max_unat by (rule of_nat_max)
  moreover have "unat (max_datagram_size s) \<le> unat (brutal_window fl s)" unfolding w max_unat by simp
  ultimately show ?thesis using fl bounds rate False by (auto simp: max_def)
qed

theorem brutal_window_bounds_witness:
  "\<exists>s. brutal_run (\<lambda>x. x) True [AckAt 0 1000000000] (brutal_new 1000 0 1200) = Ret s \<and>
     real (unat (brutal_window (\<lambda>x. x) s)) \<le> 2000 * (1 + 1 / 2 ^ 50)"
proof -
  have ok: "f64_ok (\<lambda>x. x)" by (simp add: f64_ok_def mono_def)
  have h: "[(0, 1, 0)] = samples 0 (ucast (1200 :: u16)) [AckAt 0 1000000000]" by (simp add: seconds_at_def)
  let ?s = "brutal_new 1000 0 1200\<lparr>rtt := 1000000000\<rparr>"
  have "ring_inv [] 0 ?s" using ring_new [of 1000 0 1200] by (simp add: ring_inv_def)
  from add_samples_ok [OF this refl _ refl, of 0 1 0 "\<lambda>x. x" True] obtain slots where
    "add_samples (\<lambda>x. x) True 0 1 0 ?s = Ret (?s\<lparr>pkt_info_slots := slots, ack_rate := 1\<rparr>)"
    by (auto simp: seconds_at_def window_acks_def window_losses_def rate_spec_def)
  then obtain s where s: "brutal_run (\<lambda>x. x) True [AckAt 0 1000000000] (brutal_new 1000 0 1200) = Ret s"
    "ack_rate s = 1" "brutal_bps s = 1000" "rtt s = 1000000000" "max_datagram_size s = 1200"
    by (auto simp: on_ack_def brutal_new_def)
  have "exact_window s = 2000" by (simp add: exact_window_def s)
  with brutal_window_bounds [OF ok h _ _ s(1)] s show ?thesis by simp
qed

end
