(* ===== verification/AuthHeader.thy ===== *)
theory AuthHeader
  imports Proxy
begin

text \<open>
  The HTTP/3 authentication headers, \<^verbatim>\<open>crates/hysteria/src/internal/protocol/http.rs\<close>, over any
  header container (the trait \<^verbatim>\<open>Header\<close>, here the locale \<open>header\<close>), and the container the
  client uses, \<^verbatim>\<open>http::HeaderMap\<close> behind the adapter of \<^verbatim>\<open>client/transport.rs\<close>.
\<close>

section \<open>Definitions\<close>

definition URL_HOST :: string where "URL_HOST = ''hysteria''"
definition URL_PATH :: string where "URL_PATH = ''/auth''"
definition REQUEST_HEADER_AUTH :: string where "REQUEST_HEADER_AUTH = ''Hysteria-Auth''"
definition RESPONSE_HEADER_UDP_ENABLED :: string where "RESPONSE_HEADER_UDP_ENABLED = ''Hysteria-UDP''"
definition COMMON_HEADER_CC_RX :: string where "COMMON_HEADER_CC_RX = ''Hysteria-CC-RX''"
definition COMMON_HEADER_PADDING :: string where "COMMON_HEADER_PADDING = ''Hysteria-Padding''"
definition STATUS_AUTH_OK :: u16 where "STATUS_AUTH_OK = 233"

record auth_request =
  req_auth :: string
  req_rx :: u64

record auth_response =
  udp_enabled :: bool
  resp_rx :: u64
  rx_auto :: bool

definition auth_request_to_header ::
  "(string \<Rightarrow> string \<Rightarrow> 'h \<Rightarrow> 'h) \<Rightarrow> rng \<Rightarrow> 'h \<Rightarrow> auth_request \<Rightarrow> 'h" where
  "auth_request_to_header hset rng h req =
     (let h = hset REQUEST_HEADER_AUTH (req_auth req) h;
          h = hset COMMON_HEADER_CC_RX (show_nat (unat (req_rx req))) h
      in hset COMMON_HEADER_PADDING (padding_string rng AUTH_REQUEST_PADDING) h)"

definition parse_bool :: "string \<Rightarrow> bool" where
  "parse_bool s \<longleftrightarrow> s \<in> set [''1'', ''t'', ''T'', ''TRUE'', ''true'', ''True'']"

definition auth_response_from_header :: "(string \<Rightarrow> string option) \<Rightarrow> auth_response" where
  "auth_response_from_header hget =
     (let udp = (case hget RESPONSE_HEADER_UDP_ENABLED of Some s \<Rightarrow> parse_bool s | None \<Rightarrow> False);
          rx_str = (case hget COMMON_HEADER_CC_RX of Some s \<Rightarrow> s | None \<Rightarrow> [])
      in if rx_str = ''auto'' then \<lparr>udp_enabled = udp, resp_rx = 0, rx_auto = True\<rparr>
         else \<lparr>udp_enabled = udp,
               resp_rx = (case parse_u64 rx_str of Some n \<Rightarrow> n | None \<Rightarrow> 0), rx_auto = False\<rparr>)"

text \<open>
  The adapter to \<^verbatim>\<open>http::HeaderMap\<close>, whose own operations are parameters: lookup and insertion
  of raw values, the validity checks of names and values, and \<^verbatim>\<open>to_str\<close>.
\<close>

record 'h header_ops =
  hm_get :: "'h \<Rightarrow> string \<Rightarrow> bytes option"
  hm_insert :: "'h \<Rightarrow> string \<Rightarrow> bytes \<Rightarrow> 'h"
  hm_name_ok :: "string \<Rightarrow> bool"
  hm_value_ok :: "string \<Rightarrow> bool"
  hm_to_str :: "bytes \<Rightarrow> string option"

definition header_map_get :: "'h header_ops \<Rightarrow> 'h \<Rightarrow> string \<Rightarrow> string option" where
  "header_map_get ops h key = Option.bind (hm_get ops h key) (hm_to_str ops)"

definition header_map_set :: "'h header_ops \<Rightarrow> string \<Rightarrow> string \<Rightarrow> 'h \<Rightarrow> 'h" where
  "header_map_set ops key v h =
     (if hm_name_ok ops key \<and> hm_value_ok ops v then hm_insert ops h key (as_bytes v) else h)"

text \<open>The container of the module's tests, a \<^verbatim>\<open>HashMap\<close>.\<close>

definition hash_get :: "(string \<Rightarrow> string option) \<Rightarrow> string \<Rightarrow> string option" where
  "hash_get h key = h key"

definition hash_set :: "string \<Rightarrow> string \<Rightarrow> (string \<Rightarrow> string option) \<Rightarrow> (string \<Rightarrow> string option)" where
  "hash_set key v h = h(key \<mapsto> v)"

section \<open>Printing and parsing integers\<close>

lemma digit_val_char: "n < 10 \<Longrightarrow> digit_val (char_of (48 + n)) = Some n"
  by (simp add: digit_val_def)

lemma parse_digits_append:
  "parse_digits mx acc (xs @ ys) =
     (case parse_digits mx acc xs of None \<Rightarrow> None | Some a \<Rightarrow> parse_digits mx a ys)"
  by (induction xs arbitrary: acc) (auto split: option.splits)

lemma parse_digits_show: "n \<le> mx \<Longrightarrow> parse_digits mx 0 (show_nat n) = Some n"
proof (induction n rule: show_nat.induct)
  case (1 n)
  show ?case
  proof (cases "n < 10")
    case True
    with 1(2) show ?thesis by (subst show_nat.simps) (simp add: digit_val_char)
  next
    case False
    then have "parse_digits mx 0 (show_nat (n div 10)) = Some (n div 10)"
      using 1 by (meson div_le_dividend le_trans)
    moreover have "n div 10 * 10 + n mod 10 = n" by simp
    ultimately show ?thesis using False 1(2) digit_val_char [of "n mod 10"]
      by (subst show_nat.simps) (simp add: parse_digits_append)
  qed
qed

lemma show_nat_head: "\<exists>c cs. show_nat n = c # cs \<and> (48 :: nat) \<le> of_char c \<and> of_char c \<le> (57 :: nat)"
proof (induction n rule: show_nat.induct)
  case (1 n)
  then show ?case by (subst (1) show_nat.simps) auto
qed

lemma parse_u64_show: "parse_u64 (show_nat (unat (n :: u64))) = Some n"
proof -
  obtain c cs where c: "show_nat (unat n) = c # cs" "(48 :: nat) \<le> of_char c"
    using show_nat_head by blast
  have "c \<noteq> CHR ''+''" using c(2) by auto
  moreover have "unat n \<le> 18446744073709551615"
    using unsigned_less [of n, where ?'a = nat] by simp
  ultimately show ?thesis
    using parse_digits_show [of "unat n" 18446744073709551615] c(1)
    by (simp add: parse_u64_def parse_uint_def)
qed

lemma show_nat_not_auto: "show_nat n \<noteq> ''auto''"
  using show_nat_head [of n] by auto

section \<open>The contract of a header container\<close>

locale header =
  fixes hget :: "'h \<Rightarrow> string \<Rightarrow> string option"
    and hset :: "string \<Rightarrow> string \<Rightarrow> 'h \<Rightarrow> 'h"
    and storable :: "string \<Rightarrow> string \<Rightarrow> bool"
  assumes get_set: "storable k v \<Longrightarrow> hget (hset k v h) k = Some v"
    and get_set_other: "k' \<noteq> k \<Longrightarrow> hget (hset k v h) k' = hget h k'"
begin

lemma auth_request_readable:
  assumes "storable REQUEST_HEADER_AUTH (req_auth req)"
    and "storable COMMON_HEADER_CC_RX (show_nat (unat (req_rx req)))"
    and "storable COMMON_HEADER_PADDING (padding_string rng AUTH_REQUEST_PADDING)"
  shows "hget (auth_request_to_header hset rng h req) REQUEST_HEADER_AUTH = Some (req_auth req)"
    "hget (auth_request_to_header hset rng h req) COMMON_HEADER_CC_RX = Some (show_nat (unat (req_rx req)))"
    "hget (auth_request_to_header hset rng h req) COMMON_HEADER_PADDING =
       Some (padding_string rng AUTH_REQUEST_PADDING)"
  using assms
  by (simp_all add: auth_request_to_header_def get_set get_set_other REQUEST_HEADER_AUTH_def
      COMMON_HEADER_CC_RX_def COMMON_HEADER_PADDING_def Let_def)

end

interpretation hash: header hash_get hash_set "\<lambda>_ _. True"
  by unfold_locales (simp_all add: hash_get_def hash_set_def)

section \<open>Properties\<close>

text \<open>
  The request headers carry the request: in any container that keeps what is stored, the
  credential reads back unchanged, the receive rate reads back as the number sent, and the padding
  is 256 up to 2047 characters of the padding alphabet.
\<close>

lemma auth_request_headers:
  assumes "header hget hset storable" "rng_ok rng"
    and "storable REQUEST_HEADER_AUTH (req_auth req)"
    and "storable COMMON_HEADER_CC_RX (show_nat (unat (req_rx req)))"
    and "storable COMMON_HEADER_PADDING (padding_string rng AUTH_REQUEST_PADDING)"
  shows "hget (auth_request_to_header hset rng h req) REQUEST_HEADER_AUTH = Some (req_auth req) \<and>
    (\<exists>s. hget (auth_request_to_header hset rng h req) COMMON_HEADER_CC_RX = Some s \<and>
       parse_u64 s = Some (req_rx req)) \<and>
    (\<exists>p. hget (auth_request_to_header hset rng h req) COMMON_HEADER_PADDING = Some p \<and>
       256 \<le> length p \<and> length p < 2048 \<and> set p \<subseteq> set PADDING_CHARS)"
  using header.auth_request_readable [OF assms(1,3-), of h]
    length_padding [OF assms(2), of AUTH_REQUEST_PADDING] padding_charset [OF assms(2)]
  by (simp add: parse_u64_show AUTH_REQUEST_PADDING_def)

text \<open>
  The client reads what a server says: a rate printed in decimal is read as that rate, the word
  auto asks for bandwidth detection, and a header that is missing or malformed means no limit, no
  detection and no UDP.
\<close>

lemma auth_response_reads:
  "auth_response_from_header hget =
     (let udp = (\<exists>s. hget RESPONSE_HEADER_UDP_ENABLED = Some s \<and> parse_bool s) in
      if hget COMMON_HEADER_CC_RX = Some ''auto''
      then \<lparr>udp_enabled = udp, resp_rx = 0, rx_auto = True\<rparr>
      else \<lparr>udp_enabled = udp,
            resp_rx = (if \<exists>n s. hget COMMON_HEADER_CC_RX = Some s \<and> parse_u64 s = Some n
                       then the (parse_u64 (the (hget COMMON_HEADER_CC_RX))) else 0), rx_auto = False\<rparr>) \<and>
   auth_response_from_header (hash_get [COMMON_HEADER_CC_RX \<mapsto> show_nat (unat n)]) =
     \<lparr>udp_enabled = False, resp_rx = n, rx_auto = False\<rparr>"
proof -
  have empty: "parse_u64 [] = None" by (simp add: parse_u64_def parse_uint_def)
  show ?thesis
    by (auto simp: auth_response_from_header_def Let_def empty hash_get_def parse_u64_show
        show_nat_not_auto RESPONSE_HEADER_UDP_ENABLED_def COMMON_HEADER_CC_RX_def
        split: option.splits)
qed

end
