(* ===== verification/Errors.thy ===== *)
theory Errors
  imports Prelude
begin

text \<open>
  The error types of \<^verbatim>\<open>crates/hysteria/src/errors.rs\<close> with their \<^verbatim>\<open>Display\<close> texts. A boxed
  source error is represented by the text it displays as.
\<close>

record config_error =
  field :: string
  reason :: string

definition display_config_error :: "config_error \<Rightarrow> string" where
  "display_config_error e = ''invalid config: '' @ field e @ '': '' @ reason e"

record connect_error =
  connect_err :: string

definition display_connect_error :: "connect_error \<Rightarrow> string" where
  "display_connect_error e = ''connect error: '' @ connect_err e"

record auth_error =
  auth_status_code :: int

definition show_int :: "int \<Rightarrow> string" where
  "show_int i = (if i < 0 then CHR ''-'' # show_nat (nat (- i)) else show_nat (nat i))"

definition display_auth_error :: "auth_error \<Rightarrow> string" where
  "display_auth_error e = ''authentication error, HTTP status code: '' @ show_int (auth_status_code e)"

record dial_error =
  dial_message :: string

definition display_dial_error :: "dial_error \<Rightarrow> string" where
  "display_dial_error e = ''dial error: '' @ dial_message e"

record closed_error =
  closed_err :: "string option"

definition display_closed_error :: "closed_error \<Rightarrow> string" where
  "display_closed_error e =
     (case closed_err e of
        None \<Rightarrow> ''connection closed''
      | Some err \<Rightarrow> ''connection closed: '' @ err)"

definition closed_error_source :: "closed_error \<Rightarrow> string option" where
  "closed_error_source e = closed_err e"

record protocol_error =
  protocol_message :: string

definition display_protocol_error :: "protocol_error \<Rightarrow> string" where
  "display_protocol_error e = ''protocol error: '' @ protocol_message e"

text \<open>\<^verbatim>\<open>impl From<ProtocolError> for io::Error\<close>; the I/O errors carry the bare message.\<close>

definition protocol_error_into_io :: "protocol_error \<Rightarrow> io_error" where
  "protocol_error_into_io e = InvalidData (protocol_message e)"

end
