(* ===== verification/Obfs.thy ===== *)
theory Obfs
  imports Errors
begin

unbundle bit_operations_syntax

text \<open>
  Salamander packet obfuscation, \<^verbatim>\<open>crates/hysteria/src/internal/obfs.rs\<close>. BLAKE2b-256 is a
  parameter \<open>blake\<close> from the bytes hashed to the digest, and the random salt an argument. The
  results of \<^verbatim>\<open>obfuscate\<close> and \<^verbatim>\<open>deobfuscate\<close> are the new contents of the output slice and
  the count returned.
\<close>

section \<open>Definitions\<close>

definition PSK_MIN_LEN :: nat where "PSK_MIN_LEN = 4"
definition SALT_LEN :: nat where "SALT_LEN = 8"
definition KEY_LEN :: nat where "KEY_LEN = 32"

record salamander =
  psk :: bytes

definition salamander_new :: "bytes \<Rightarrow> config_error + salamander" where
  "salamander_new k =
     (if length k < PSK_MIN_LEN
      then Inl \<lparr>field = ''obfs'', reason = ''PSK must be at least 4 bytes''\<rparr>
      else Inr \<lparr>psk = k\<rparr>)"

text \<open>The array \<^verbatim>\<open>[u8; 8]\<close> of the salt, from its elements.\<close>

definition salt_array :: "(nat \<Rightarrow> u8) \<Rightarrow> bytes" where
  "salt_array salt = map salt [0..<SALT_LEN]"

definition obfs_key :: "(bytes \<Rightarrow> bytes) \<Rightarrow> salamander \<Rightarrow> bytes \<Rightarrow> bytes" where
  "obfs_key blake s salt = blake (psk s @ salt)"

text \<open>\<^verbatim>\<open>for (i, &c) in input.iter().enumerate() { out[i + off] = c ^ key[i % KEY_LEN] }\<close>.\<close>

fun xor_loop :: "bytes \<Rightarrow> nat \<Rightarrow> nat \<Rightarrow> bytes \<Rightarrow> bytes \<Rightarrow> bytes" where
  "xor_loop key off i [] out = out"
| "xor_loop key off i (c # cs) out =
     xor_loop key off (Suc i) cs (out[i + off := c XOR key ! (i mod KEY_LEN)])"

definition obfuscate ::
  "(bytes \<Rightarrow> bytes) \<Rightarrow> salamander \<Rightarrow> (nat \<Rightarrow> u8) \<Rightarrow> bytes \<Rightarrow> bytes \<Rightarrow> bytes \<times> nat" where
  "obfuscate blake s salt input out =
     (let out_len = length input + SALT_LEN in
      if length out < out_len then (out, 0)
      else
        let salt = salt_array salt;
            out = salt @ drop SALT_LEN out;
            key = obfs_key blake s salt
        in (xor_loop key SALT_LEN 0 input out, out_len))"

definition deobfuscate ::
  "(bytes \<Rightarrow> bytes) \<Rightarrow> salamander \<Rightarrow> bytes \<Rightarrow> bytes \<Rightarrow> bytes \<times> nat" where
  "deobfuscate blake s input out =
     (if length input \<le> SALT_LEN then (out, 0)
      else
        let out_len = length input - SALT_LEN in
        if length out < out_len then (out, 0)
        else
          let salt = take SALT_LEN input;
              key = obfs_key blake s salt
          in (xor_loop key 0 0 (drop SALT_LEN input) out, out_len))"

section \<open>Lemmas\<close>

text \<open>The loop as a whole: the stream XORed with the repeated key.\<close>

definition xor_stream :: "bytes \<Rightarrow> nat \<Rightarrow> bytes \<Rightarrow> bytes" where
  "xor_stream key i cs = map (\<lambda>(j, c). c XOR key ! (j mod KEY_LEN)) (enumerate i cs)"

lemma xor_stream_simps [simp]:
  "xor_stream key i [] = []"
  "xor_stream key i (c # cs) = (c XOR key ! (i mod KEY_LEN)) # xor_stream key (Suc i) cs"
  by (simp_all add: xor_stream_def)

lemma length_xor_stream [simp]: "length (xor_stream key i cs) = length cs"
  by (simp add: xor_stream_def)

lemma xor_stream_involutive: "xor_stream key i (xor_stream key i cs) = cs"
  by (induction cs arbitrary: i) (simp_all add: xor.assoc)

lemma xor_loop_stream:
  assumes "i + off = length pre" "length cs \<le> length rest"
  shows "xor_loop key off i cs (pre @ rest) = pre @ xor_stream key i cs @ drop (length cs) rest"
  using assms
proof (induction cs arbitrary: i pre rest)
  case (Cons c cs)
  then obtain r rs where rest: "rest = r # rs" by (cases rest) auto
  let ?x = "c XOR key ! (i mod KEY_LEN)"
  have "(pre @ rest)[i + off := ?x] = (pre @ [?x]) @ rs"
    using Cons.prems(1) rest by (simp add: list_update_append)
  with Cons.IH [of "Suc i" "pre @ [?x]" rs] Cons.prems rest show ?case by simp
qed simp

lemma length_salt_array [simp]: "length (salt_array salt) = 8"
  by (simp add: salt_array_def SALT_LEN_def)

lemma obfuscate_eq:
  "obfuscate blake s salt input out =
     (if length out < length input + 8 then (out, 0)
      else (salt_array salt @ xor_stream (obfs_key blake s (salt_array salt)) 0 input
              @ drop (length input + 8) out, length input + 8))"
  using xor_loop_stream [of 0 8 "salt_array salt" input "drop 8 out"]
  by (simp add: obfuscate_def SALT_LEN_def Let_def add.commute)

lemma deobfuscate_eq:
  "deobfuscate blake s input out =
     (if length input \<le> 8 \<or> length out < length input - 8 then (out, 0)
      else (xor_stream (obfs_key blake s (take 8 input)) 0 (drop 8 input)
              @ drop (length input - 8) out, length input - 8))"
  using xor_loop_stream [of 0 0 "[]" "drop 8 input" out]
  by (simp add: deobfuscate_def SALT_LEN_def Let_def)

lemma deobfuscate_obfuscate:
  assumes "obfuscate blake s salt p out = (out', n)" "n \<noteq> 0" "p \<noteq> []" "length p \<le> length buf"
  shows "deobfuscate blake s (take n out') buf = (p @ drop (length p) buf, length p)"
  using assms
  by (auto simp: obfuscate_eq deobfuscate_eq xor_stream_involutive split: if_splits)

section \<open>Properties\<close>

text \<open>
  What one end obfuscates, the other end with the same pre-shared key recovers, for every
  salt and every hash function: a non-empty packet whose buffer takes it comes back exactly, and
  \<^verbatim>\<open>obfuscate\<close> declines with 0 exactly when the buffer lacks room for the packet and the salt.
\<close>

lemma salamander_roundtrip:
  assumes "p \<noteq> []" "length p \<le> length buf"
  shows "(case obfuscate blake s salt p out of (out', n) \<Rightarrow>
     if length out < length p + SALT_LEN then n = 0 \<and> out' = out
     else n = length p + SALT_LEN \<and> length out' = length out \<and>
       deobfuscate blake s (take n out') buf = (p @ drop (length p) buf, length p))"
  using deobfuscate_obfuscate [of blake s salt p out _ _ buf] assms
  by (auto simp: obfuscate_eq SALT_LEN_def split: prod.splits)

end
