(* ===== verification/PortUnion.thy ===== *)
theory PortUnion
  imports Prelude
begin

text \<open>
  Port ranges for port hopping, \<^verbatim>\<open>crates/hysteria/src/internal/portunion.rs\<close>: parsing a port
  specification, normalising it to sorted ranges that neither overlap nor touch, expanding it to
  the port list, and membership. The lemmas show that a parsed union is the unique canonical form
  of the ports its text names.
\<close>

section \<open>Definitions\<close>

record port_range =
  start_port :: u16
  end_port :: u16

type_synonym port_union = "port_range list"

text \<open>One comma-separated part: a range when it contains a dash, else a single port.\<close>

definition parse_part :: "string \<Rightarrow> port_range option" where
  "parse_part part =
     (if CHR ''-'' \<in> set part then
        (case split_char (CHR ''-'') part of
           [a, b] \<Rightarrow>
             (case parse_u16 a of
                None \<Rightarrow> None
              | Some s \<Rightarrow>
                  (case parse_u16 b of
                     None \<Rightarrow> None
                   | Some e \<Rightarrow>
                       Some (if e < s then \<lparr>start_port = e, end_port = s\<rparr>
                             else \<lparr>start_port = s, end_port = e\<rparr>)))
         | _ \<Rightarrow> None)
      else
        (case parse_u16 part of
           None \<Rightarrow> None
         | Some p \<Rightarrow> Some \<lparr>start_port = p, end_port = p\<rparr>))"

text \<open>The loop over the parts, which returns from the function at the first bad one.\<close>

fun parse_parts :: "string list \<Rightarrow> port_range list \<Rightarrow> port_range list option" where
  "parse_parts [] result = Some result"
| "parse_parts (part # parts) result =
     (case parse_part part of
        None \<Rightarrow> None
      | Some r \<Rightarrow> parse_parts parts (result @ [r]))"

text \<open>One iteration of the merging loop of \<^verbatim>\<open>normalize\<close>; the comparison is done in 32 bits.\<close>

definition merge_range :: "port_union \<Rightarrow> port_range \<Rightarrow> port_union" where
  "merge_range normalized current =
     (if normalized \<noteq> [] \<and>
         (ucast (start_port current) :: u32) \<le> ucast (end_port (last normalized)) + 1
      then
        (if end_port (last normalized) < end_port current
         then butlast normalized @ [(last normalized)\<lparr>end_port := end_port current\<rparr>]
         else normalized)
      else normalized @ [current])"

definition normalize :: "port_range list \<Rightarrow> port_union" where
  "normalize ranges = foldl merge_range [] (sort_key (\<lambda>r. (start_port r, end_port r)) ranges)"

definition parse_port_union :: "string \<Rightarrow> port_union option" where
  "parse_port_union s =
     (if s = ''all'' \<or> s = ''*'' then Some [\<lparr>start_port = 0, end_port = 65535\<rparr>]
      else
        (case parse_parts (split_char (CHR '','') s) [] of
           None \<Rightarrow> None
         | Some result \<Rightarrow> if result = [] then None else Some (normalize result)))"

definition range_ports :: "port_range \<Rightarrow> u16 list" where
  "range_ports r = map of_nat [unat (start_port r) ..< Suc (unat (end_port r))]"

definition ports :: "port_union \<Rightarrow> u16 list" where
  "ports u = concat (map range_ports u)"

definition contains :: "port_union \<Rightarrow> u16 \<Rightarrow> bool" where
  "contains u port \<longleftrightarrow> list_ex (\<lambda>r. start_port r \<le> port \<and> port \<le> end_port r) u"

section \<open>The canonical form\<close>

text \<open>
  Sorted ranges, none empty, with at least one port missing between two of them: the invariant
  that the type \<^verbatim>\<open>PortUnion\<close> documents.
\<close>

fun canonical :: "port_union \<Rightarrow> bool" where
  "canonical [] = True"
| "canonical [r] = (start_port r \<le> end_port r)"
| "canonical (r # s # u) =
     (start_port r \<le> end_port r \<and> unat (end_port r) + 1 < unat (start_port s) \<and> canonical (s # u))"

lemma ucast_u32: "unat (ucast (x :: u16) :: u32) = unat x"
proof -
  have "take_bit 32 (unat x) = unat x"
    using unsigned_less [of x, where ?'a = nat] by (simp add: take_bit_eq_mod)
  then show ?thesis unfolding unsigned_ucast_eq by simp
qed

lemma merge_cond: "(ucast (a :: u16) :: u32) \<le> ucast (b :: u16) + 1 \<longleftrightarrow> unat a \<le> unat b + 1"
proof -
  have "unat (ucast b + 1 :: u32) = unat b + 1"
    using unsigned_less [of b, where ?'a = nat] by (simp add: unat_word_ariths ucast_u32)
  then show ?thesis by (simp add: word_le_nat_alt ucast_u32)
qed

lemma canonical_snoc:
  "canonical (u @ [r]) \<longleftrightarrow> canonical u \<and> start_port r \<le> end_port r \<and>
     (u \<noteq> [] \<longrightarrow> unat (end_port (last u)) + 1 < unat (start_port r))"
  by (induction u rule: canonical.induct) auto

lemma canonical_ConsD: "canonical (r # u) \<Longrightarrow> canonical u"
  by (cases u) auto

lemma merge_range_snoc:
  "merge_range (v @ [l]) r =
    (if unat (start_port r) \<le> unat (end_port l) + 1
     then (if unat (end_port l) < unat (end_port r) then v @ [l\<lparr>end_port := end_port r\<rparr>] else v @ [l])
     else (v @ [l]) @ [r])"
  by (simp add: merge_range_def merge_cond word_less_nat_alt del: append_assoc)

lemma contains_snoc:
  "contains (v @ [r]) p \<longleftrightarrow>
     contains v p \<or> (unat (start_port r) \<le> unat p \<and> unat p \<le> unat (end_port r))"
  by (simp add: contains_def word_le_nat_alt)

text \<open>Merging the next range, in order of the start ports.\<close>

lemma merge_range_ok:
  assumes "canonical u" "start_port r \<le> end_port r" "u \<noteq> [] \<Longrightarrow> start_port (last u) \<le> start_port r"
  shows "canonical (merge_range u r)" "start_port (last (merge_range u r)) \<le> start_port r"
    "contains (merge_range u r) p \<longleftrightarrow> contains u p \<or> (start_port r \<le> p \<and> p \<le> end_port r)"
    "merge_range u r \<noteq> []"
proof -
  have "canonical (merge_range u r) \<and> start_port (last (merge_range u r)) \<le> start_port r \<and>
    (contains (merge_range u r) p \<longleftrightarrow> contains u p \<or> (start_port r \<le> p \<and> p \<le> end_port r)) \<and>
    merge_range u r \<noteq> []"
  proof (cases "u = []")
    case True
    then show ?thesis using assms by (simp add: merge_range_def contains_def)
  next
    case False
    then obtain v l where u: "u = v @ [l]" by (cases u rule: rev_cases) auto
    have l: "canonical v" "start_port l \<le> end_port l" "start_port l \<le> start_port r"
      using assms by (auto simp: u canonical_snoc)
    show ?thesis
      using assms l unfolding u
      by (auto simp: merge_range_snoc canonical_snoc contains_snoc word_le_nat_alt
          simp del: append_assoc)
  qed
  then show "canonical (merge_range u r)" "start_port (last (merge_range u r)) \<le> start_port r"
    "contains (merge_range u r) p \<longleftrightarrow> contains u p \<or> (start_port r \<le> p \<and> p \<le> end_port r)"
    "merge_range u r \<noteq> []" by blast+
qed

lemma merge_fold_ok:
  assumes "sorted (map start_port rs)" "\<forall>r\<in>set rs. start_port r \<le> end_port r" "canonical u"
    and "u \<noteq> [] \<Longrightarrow> \<forall>r\<in>set rs. start_port (last u) \<le> start_port r"
  shows "canonical (foldl merge_range u rs) \<and>
    (contains (foldl merge_range u rs) p \<longleftrightarrow>
       contains u p \<or> (\<exists>r\<in>set rs. start_port r \<le> p \<and> p \<le> end_port r)) \<and>
    (foldl merge_range u rs = [] \<longrightarrow> rs = [])"
  using assms
proof (induction rs arbitrary: u)
  case (Cons r rs)
  have ok: "canonical u" "start_port r \<le> end_port r" "u \<noteq> [] \<Longrightarrow> start_port (last u) \<le> start_port r"
    using Cons.prems by auto
  note m = merge_range_ok [OF ok]
  have "foldl merge_range u rs = [] \<longrightarrow> u = []" if "u \<noteq> []" for u
  proof (induction rs rule: rev_induct)
    case (snoc x xs)
    then show ?case by (simp add: merge_range_def)
  qed simp
  moreover have "\<forall>s\<in>set rs. start_port (last (merge_range u r)) \<le> start_port s"
    using m(2) Cons.prems(1) by (auto intro: order_trans)
  ultimately show ?case using Cons.IH [of "merge_range u r"] Cons.prems m by auto
qed (auto simp: contains_def)

lemma normalize_ok:
  assumes "\<forall>r\<in>set rs. start_port r \<le> end_port r"
  shows "canonical (normalize rs)"
    "contains (normalize rs) p \<longleftrightarrow> (\<exists>r\<in>set rs. start_port r \<le> p \<and> p \<le> end_port r)"
    "normalize rs = [] \<Longrightarrow> rs = []"
proof -
  let ?rs = "sort_key (\<lambda>r. (start_port r, end_port r)) rs"
  have "sorted (map start_port ?rs)"
    using sorted_sort_key [of "\<lambda>r. (start_port r, end_port r)" rs]
    by (fastforce simp: sorted_iff_nth_mono less_eq_prod_def)
  from merge_fold_ok [OF this, of "[]" p] assms
  show "canonical (normalize rs)"
    "contains (normalize rs) p \<longleftrightarrow> (\<exists>r\<in>set rs. start_port r \<le> p \<and> p \<le> end_port r)"
    "normalize rs = [] \<Longrightarrow> rs = []"
    by (auto simp: normalize_def contains_def) (metis set_empty set_sort)
qed

section \<open>Membership and the port list\<close>

lemma contains_Cons:
  "contains (r # u) p \<longleftrightarrow> (start_port r \<le> p \<and> p \<le> end_port r) \<or> contains u p"
  by (simp add: contains_def)

lemma canonical_above:
  "canonical (r # u) \<Longrightarrow> contains u p \<Longrightarrow> unat (end_port r) + 1 < unat p"
proof (induction u arbitrary: r)
  case (Cons s u)
  then have s: "unat (end_port r) + 1 < unat (start_port s)" "start_port s \<le> end_port s"
    by (cases u; simp)+
  show ?case
  proof (cases "contains u p")
    case True
    with Cons.IH [of s] Cons.prems s show ?thesis by (simp add: word_le_nat_alt)
  next
    case False
    with Cons.prems s show ?thesis by (simp add: contains_Cons word_le_nat_alt)
  qed
qed (simp add: contains_def)

lemma canonical_start:
  "canonical (r # u) \<Longrightarrow> contains (r # u) p \<Longrightarrow> start_port r \<le> p \<and> contains (r # u) (start_port r)"
  using canonical_above [of r u p] by (cases u) (auto simp: contains_Cons word_le_nat_alt)

lemma canonical_end_le:
  assumes "canonical (r # u)" "start_port r \<le> end_port s" "start_port s = start_port r"
    and "\<And>p. contains (s # v) p \<Longrightarrow> contains (r # u) p"
  shows "end_port s \<le> end_port r"
proof (rule ccontr)
  assume "\<not> end_port s \<le> end_port r"
  then have less: "unat (end_port r) < unat (end_port s)" by (simp add: word_le_nat_alt)
  let ?p = "end_port r + 1"
  have p: "unat ?p = unat (end_port r) + 1"
    using less unsigned_less [of "end_port s", where ?'a = nat] by (simp add: unat_word_ariths)
  have r: "start_port r \<le> end_port r" using assms(1) by (cases u) auto
  then have "contains (s # v) ?p"
    using less assms(3) p by (simp add: contains_Cons word_le_nat_alt)
  from assms(4) [OF this] canonical_above [OF assms(1), of ?p] p show False
    by (auto simp: contains_Cons word_le_nat_alt)
qed

lemma canonical_unique:
  "canonical u \<Longrightarrow> canonical v \<Longrightarrow> (\<And>p. contains u p \<longleftrightarrow> contains v p) \<Longrightarrow> u = v"
proof (induction u arbitrary: v)
  case Nil
  show ?case
  proof (cases v)
    case (Cons s w)
    then have "contains v (start_port s)" using Nil.prems(2) by (cases w) (auto simp: contains_Cons)
    with Nil.prems(3) show ?thesis by (simp add: contains_def)
  qed simp
next
  case (Cons r u)
  have r: "start_port r \<le> end_port r" using Cons.prems(1) by (cases u) auto
  then have "contains v (start_port r)" using Cons.prems(3) by (auto simp: contains_Cons)
  then obtain s w where v: "v = s # w" by (cases v) (auto simp: contains_def)
  have s: "start_port s \<le> end_port s" using Cons.prems(2) v by (cases w) auto
  have "contains (r # u) (start_port s)" using Cons.prems(3) [of "start_port s"] s v
    by (simp add: contains_Cons)
  then have st: "start_port s = start_port r"
    using canonical_start [OF Cons.prems(1), of "start_port s"]
      canonical_start [of s w "start_port r"] Cons.prems(2) \<open>contains v (start_port r)\<close> v by auto
  have "end_port s \<le> end_port r"
    by (rule canonical_end_le [OF Cons.prems(1), where v = w]) (use Cons.prems(3) v st s in simp_all)
  moreover have "end_port r \<le> end_port s"
    by (rule canonical_end_le [where u = w and v = u]) (use Cons.prems(2,3) v st r in simp_all)
  ultimately have eq: "r = s" using st by simp
  have "contains u p \<longleftrightarrow> contains w p" for p
    using Cons.prems(3) [of p] canonical_above [OF Cons.prems(1), of p]
      canonical_above [of s w p] Cons.prems(2) v eq
    by (auto simp: contains_Cons word_le_nat_alt)
  with Cons.IH [of w] Cons.prems(1,2) v eq show ?case by (auto dest: canonical_ConsD)
qed

lemma set_range_ports: "p \<in> set (range_ports r) \<longleftrightarrow> start_port r \<le> p \<and> p \<le> end_port r"
proof
  assume "start_port r \<le> p \<and> p \<le> end_port r"
  then have "unat p \<in> {unat (start_port r) ..< Suc (unat (end_port r))}"
    by (simp add: word_le_nat_alt)
  then have "of_nat (unat p) \<in> set (range_ports r)"
    unfolding range_ports_def set_map set_upt by (rule imageI)
  then show "p \<in> set (range_ports r)" by simp
next
  assume "p \<in> set (range_ports r)"
  then obtain k where "p = of_nat k" "unat (start_port r) \<le> k" "k \<le> unat (end_port r)"
    by (auto simp: range_ports_def)
  moreover have "k < 65536" using calculation(3) unsigned_less [of "end_port r", where ?'a = nat] by simp
  ultimately show "start_port r \<le> p \<and> p \<le> end_port r" by (simp add: word_le_nat_alt unat_of_nat)
qed

lemma sorted_range_ports: "sorted_wrt (<) (range_ports r)"
proof -
  have "of_nat i < (of_nat j :: u16)" if "i < j" "j \<le> unat (end_port r)" for i j
    using that unsigned_less [of "end_port r", where ?'a = nat]
    by (simp add: word_less_nat_alt unat_of_nat)
  then show ?thesis unfolding range_ports_def sorted_wrt_map
    by (intro sorted_wrt_mono_rel [OF _ sorted_wrt_upt]) auto
qed

lemma set_ports: "set (ports u) = {p. contains u p}"
  by (auto simp: ports_def contains_def list_ex_iff set_range_ports)

lemma sorted_ports: "canonical u \<Longrightarrow> sorted_wrt (<) (ports u)"
proof (induction u)
  case (Cons r u)
  have "p < q" if "p \<in> set (range_ports r)" "q \<in> set (ports u)" for p q
    using that canonical_above [OF Cons.prems, of q]
    by (auto simp: set_range_ports set_ports word_le_nat_alt word_less_nat_alt)
  moreover have "sorted_wrt (<) (ports u)" using Cons canonical_ConsD by blast
  ultimately show ?case
    using sorted_range_ports [of r] by (simp add: ports_def sorted_wrt_append)
qed (simp add: ports_def)

section \<open>Parsing\<close>

lemma parse_part_ordered: "parse_part part = Some r \<Longrightarrow> start_port r \<le> end_port r"
  by (auto simp: parse_part_def split: if_splits list.splits option.splits)

lemma parse_parts_Some:
  "parse_parts parts acc = Some rs \<longleftrightarrow>
   (\<exists>xs. map parse_part parts = map Some xs \<and> rs = acc @ xs)"
proof (induction parts arbitrary: acc)
  case (Cons part parts)
  then show ?case
    by (cases "parse_part part") (auto simp: Cons_eq_map_conv)
qed auto

lemma parse_parts_None: "parse_parts parts acc = None \<longleftrightarrow> None \<in> parse_part ` set parts"
  by (induction parts arbitrary: acc) (auto split: option.splits)

text \<open>The ports the text names, directly.\<close>

definition named_ports :: "string \<Rightarrow> u16 set" where
  "named_ports s =
     (if s = ''all'' \<or> s = ''*'' then UNIV
      else {p. \<exists>part\<in>set (split_char (CHR '','') s). \<exists>r. parse_part part = Some r \<and>
                 start_port r \<le> p \<and> p \<le> end_port r})"

lemma parse_port_union_ok:
  assumes "parse_port_union s = Some u"
  shows "canonical u \<and> u \<noteq> [] \<and> (\<forall>p. contains u p \<longleftrightarrow> p \<in> named_ports s)"
proof (cases "s = ''all'' \<or> s = ''*''")
  case True
  have top: "p \<le> (65535 :: u16)" for p
    using unsigned_less [of p, where ?'a = nat] by (simp add: word_le_nat_alt)
  from True assms top show ?thesis
    by (auto simp: parse_port_union_def contains_def named_ports_def)
next
  case False
  then obtain rs where rs: "parse_parts (split_char (CHR '','') s) [] = Some rs" "rs \<noteq> []"
    "u = normalize rs"
    using assms by (auto simp: parse_port_union_def split: option.splits if_splits)
  then have m: "map parse_part (split_char (CHR '','') s) = map Some rs"
    by (auto simp: parse_parts_Some)
  then have sets: "parse_part ` set (split_char (CHR '','') s) = Some ` set rs"
    by (metis set_map)
  then have "\<forall>r\<in>set rs. start_port r \<le> end_port r"
    by (metis (no_types, lifting) imageE imageI parse_part_ordered)
  note ok = normalize_ok [OF this]
  have "(\<exists>r\<in>set rs. start_port r \<le> p \<and> p \<le> end_port r) \<longleftrightarrow> p \<in> named_ports s" for p
  proof -
    have "Some r \<in> parse_part ` set (split_char (CHR '','') s) \<longleftrightarrow> r \<in> set rs" for r
      unfolding sets by auto
    moreover have "p \<in> named_ports s \<longleftrightarrow> (\<exists>r. Some r \<in> parse_part ` set (split_char (CHR '','') s) \<and>
      start_port r \<le> p \<and> p \<le> end_port r)"
      using False by (auto simp: named_ports_def image_iff) (metis, metis)
    ultimately show ?thesis by auto
  qed
  with ok rs(2,3) show ?thesis by auto
qed

section \<open>Properties\<close>

text \<open>
  C31. A port specification that parses gives a non-empty union in canonical form (sorted ranges
  with gaps between them) whose members are exactly the ports its parts name, and its expanded
  list enumerates them in strictly increasing order, so each hop candidate occurs once.
\<close>

theorem parse_port_union_canonical:
  assumes "parse_port_union s = Some u"
  shows "canonical u \<and> u \<noteq> [] \<and> (\<forall>p. contains u p \<longleftrightarrow> p \<in> named_ports s) \<and>
    set (ports u) = named_ports s \<and> sorted_wrt (<) (ports u)"
  using parse_port_union_ok [OF assms] sorted_ports by (auto simp: set_ports)

theorem parse_port_union_canonical_witness:
  "canonical [\<lparr>start_port = 1, end_port = 9\<rparr>] \<and> set (ports [\<lparr>start_port = 1, end_port = 9\<rparr>]) =
     named_ports ''5-1,4-9,3''"
proof -
  have p: "parse_port_union ''5-1,4-9,3'' = Some [\<lparr>start_port = 1, end_port = 9\<rparr>]"
    by (simp add: parse_port_union_def parse_part_def parse_u16_def parse_uint_def digit_val_def
        of_char_def normalize_def merge_range_def Let_def less_prod_def less_eq_prod_def insort_key_def)
  from parse_port_union_canonical [OF p] show ?thesis by blast
qed

text \<open>
  Normalisation is canonical in the strong sense: two specifications that name the same ports
  parse to the same union, however their ranges overlap, repeat, touch or are ordered.
\<close>

lemma parse_port_union_unique:
  assumes "parse_port_union s = Some u" "parse_port_union t = Some v" "named_ports s = named_ports t"
  shows "u = v"
  using parse_port_union_ok [OF assms(1)] parse_port_union_ok [OF assms(2)] assms(3)
  by (auto intro: canonical_unique)

text \<open>
  A specification is rejected exactly when it is not a wildcard and one of its
  comma-separated parts is not a port or a pair of ports.
\<close>

lemma parse_port_union_rejects:
  "parse_port_union s = None \<longleftrightarrow>
     s \<noteq> ''all'' \<and> s \<noteq> ''*'' \<and> None \<in> parse_part ` set (split_char (CHR '','') s)"
proof -
  have "parse_parts (split_char (CHR '','') s) [] \<noteq> Some []"
    using split_when_ne by (auto simp: parse_parts_Some)
  then show ?thesis
    using parse_parts_None [of "split_char (CHR '','') s" "[]"]
    by (auto simp: parse_port_union_def split: option.splits)
qed

end
