(* ===== verification/Profile.thy ===== *)
theory Profile
  imports Prelude
begin

text \<open>
  The connection profile, \<^verbatim>\<open>crates/profile/src/lib.rs\<close>, with its hand-written \<^verbatim>\<open>Debug\<close>
  renderings that redact the credential and the obfuscation key, and the connect-error codes of
  \<^verbatim>\<open>crates/conn-error/src/lib.rs\<close> and
  \<^verbatim>\<open>crates/hysteria/src/client/connect_error.rs\<close>.
\<close>

section \<open>The profile\<close>

record tls =
  sni :: string

record obfs =
  obfs_type :: string
  password :: string

record profile =
  server :: string
  auth :: string
  profile_tls :: tls
  profile_obfs :: "obfs option"
  fast_open :: bool

definition profile_default :: profile where
  "profile_default =
     \<lparr>server = [], auth = [], profile_tls = \<lparr>sni = []\<rparr>, profile_obfs = None, fast_open = False\<rparr>"

text \<open>What a \<^verbatim>\<open>fmt::Formatter\<close> is handed: the tree of \<^verbatim>\<open>debug_struct\<close> calls.\<close>

datatype debug_tree =
    DStr string
  | DBool bool
  | DNat nat
  | DBytes bytes
  | DNone
  | DSome debug_tree
  | DList "debug_tree list"
  | DStruct string "(string \<times> debug_tree) list"

definition debug_tls :: "tls \<Rightarrow> debug_tree" where
  "debug_tls t = DStruct ''Tls'' [(''sni'', DStr (sni t))]"

definition debug_obfs :: "obfs \<Rightarrow> debug_tree" where
  "debug_obfs o' =
     DStruct ''Obfs'' [(''obfs_type'', DStr (obfs_type o')), (''password'', DStr ''<redacted>'')]"

definition debug_option :: "('a \<Rightarrow> debug_tree) \<Rightarrow> 'a option \<Rightarrow> debug_tree" where
  "debug_option f x = (case x of None \<Rightarrow> DNone | Some y \<Rightarrow> DSome (f y))"

definition debug_profile :: "profile \<Rightarrow> debug_tree" where
  "debug_profile p =
     DStruct ''Profile''
       [(''server'', DStr (server p)), (''auth'', DStr ''<redacted>''),
        (''tls'', debug_tls (profile_tls p)), (''obfs'', debug_option debug_obfs (profile_obfs p)),
        (''fast_open'', DBool (fast_open p))]"

section \<open>Connection errors\<close>

datatype conn_error = Unknown | AuthFailed | ServerUnreachable | Timeout

definition conn_error_default :: conn_error where
  "conn_error_default = Unknown"

fun code :: "conn_error \<Rightarrow> int" where
  "code Unknown = 0"
| "code AuthFailed = 1"
| "code ServerUnreachable = 2"
| "code Timeout = 4"

definition from_code :: "int \<Rightarrow> conn_error" where
  "from_code c =
     (if c = 1 then AuthFailed else if c = 2 then ServerUnreachable
      else if c = 4 then Timeout else Unknown)"

fun display_conn_error :: "conn_error \<Rightarrow> string" where
  "display_conn_error Unknown = ''unknown error''"
| "display_conn_error AuthFailed = ''authentication failed''"
| "display_conn_error ServerUnreachable = ''server unreachable''"
| "display_conn_error Timeout = ''connection timed out''"

text \<open>A failed connection attempt; the attached \<^verbatim>\<open>anyhow::Error\<close> as the text of its chain.\<close>

datatype connect_failure =
    FailConfig string
  | FailUnreachable string
  | FailTimeout string
  | FailAuth string

fun display_connect_failure :: "connect_failure \<Rightarrow> string" where
  "display_connect_failure (FailConfig e) = ''invalid configuration: '' @ e"
| "display_connect_failure (FailUnreachable e) = ''server unreachable: '' @ e"
| "display_connect_failure (FailTimeout e) = ''connection timed out: '' @ e"
| "display_connect_failure (FailAuth e) = ''authentication failed: '' @ e"

fun conn_error_of :: "connect_failure \<Rightarrow> conn_error" where
  "conn_error_of (FailConfig _) = Unknown"
| "conn_error_of (FailUnreachable _) = ServerUnreachable"
| "conn_error_of (FailTimeout _) = Timeout"
| "conn_error_of (FailAuth _) = AuthFailed"

section \<open>Lemmas\<close>

text \<open>The variants are finitely many, so that statements about all of them evaluate.\<close>

instantiation conn_error :: enum
begin

definition enum_conn_error_def: "Enum.enum = [Unknown, AuthFailed, ServerUnreachable, Timeout]"

definition enum_all_conn_error_def:
  "Enum.enum_all P \<longleftrightarrow> P Unknown \<and> P AuthFailed \<and> P ServerUnreachable \<and> P Timeout"

definition enum_ex_conn_error_def:
  "Enum.enum_ex P \<longleftrightarrow> P Unknown \<or> P AuthFailed \<or> P ServerUnreachable \<or> P Timeout"

instance
proof
  have all: "x \<in> {Unknown, AuthFailed, ServerUnreachable, Timeout}" for x :: conn_error by (cases x) simp_all
  then show "UNIV = set (Enum.enum :: conn_error list)" unfolding enum_conn_error_def by auto
  show "distinct (Enum.enum :: conn_error list)" by (simp add: enum_conn_error_def)
  show "Enum.enum_all P \<longleftrightarrow> Ball UNIV P" "Enum.enum_ex P \<longleftrightarrow> Bex UNIV P" for P :: "conn_error \<Rightarrow> bool"
    using all unfolding enum_all_conn_error_def enum_ex_conn_error_def by (metis UNIV_I empty_iff insert_iff)+
qed

end

lemma conn_errors: "(UNIV :: conn_error set) = {Unknown, AuthFailed, ServerUnreachable, Timeout}"
  by (simp add: UNIV_enum enum_conn_error_def)

lemma from_code_code [simp]: "from_code (code e) = e"
proof -
  have "\<forall>e. from_code (code e) = e" by code_simp
  then show ?thesis ..
qed

lemma code_inj: "code a = code b \<Longrightarrow> a = b"
  by (metis from_code_code)

section \<open>Properties\<close>

text \<open>
  The integer codes are a faithful wire contract: a code sent is the error received, an
  integer that is no code is read as \<^verbatim>\<open>Unknown\<close>, and the retired code 3 is never produced.
\<close>

lemma conn_error_codes:
  "from_code (code e) = e \<and> code e \<noteq> 3 \<and> code (from_code c) = (if c \<in> range code then c else 0)"
proof -
  have "c \<in> range code \<longleftrightarrow> c \<in> {0, 1, 2, 4}"
  proof -
    have "range code = code ` {Unknown, AuthFailed, ServerUnreachable, Timeout}" unfolding conn_errors ..
    then show ?thesis by simp
  qed
  moreover have "\<forall>e. code e \<noteq> 3" by code_simp
  moreover have "code (from_code c) = (if c \<in> {0, 1, 2, 4} then c else 0)"
    by (simp add: from_code_def)
  ultimately show ?thesis by simp
qed

text \<open>
  The \<^verbatim>\<open>Debug\<close> rendering of a profile is independent of its secrets: profiles that differ
  only in the credential and in the obfuscation password render alike.
\<close>

lemma debug_profile_redacts:
  "debug_profile (p\<lparr>auth := a, profile_obfs := map_option (\<lambda>x. x\<lparr>password := b\<rparr>) (profile_obfs p)\<rparr>) =
   debug_profile p"
  by (cases "profile_obfs p") (simp_all add: debug_profile_def debug_option_def debug_obfs_def)

end
