(* ===== verification/ClientConfig.thy ===== *)
theory ClientConfig
  imports PortUnion Profile Errors
begin

text \<open>
  Client configuration, \<^verbatim>\<open>crates/hysteria/src/client/config.rs\<close>: the configuration records,
  \<^verbatim>\<open>verify_and_fill\<close> with its defaults and bounds, and the construction from a profile
  (\<^verbatim>\<open>from_profile\<close>). The DNS lookup of \<^verbatim>\<open>to_socket_addrs\<close> is the parameter \<open>resolve\<close>.
\<close>

section \<open>Definitions\<close>

definition DEFAULT_STREAM_RECEIVE_WINDOW :: u64 where "DEFAULT_STREAM_RECEIVE_WINDOW = 8388608"
definition DEFAULT_CONN_RECEIVE_WINDOW :: u64 where
  "DEFAULT_CONN_RECEIVE_WINDOW = DEFAULT_STREAM_RECEIVE_WINDOW * 5 div 2"
definition DEFAULT_MAX_IDLE_TIMEOUT :: duration where "DEFAULT_MAX_IDLE_TIMEOUT = from_secs 30"
definition DEFAULT_KEEP_ALIVE_PERIOD :: duration where "DEFAULT_KEEP_ALIVE_PERIOD = from_secs 10"
definition MIN_RECEIVE_WINDOW :: u64 where "MIN_RECEIVE_WINDOW = 16384"
definition DEFAULT_HOP_INTERVAL :: duration where "DEFAULT_HOP_INTERVAL = from_secs 30"
definition MIN_HOP_INTERVAL :: duration where "MIN_HOP_INTERVAL = from_secs 5"

record tls_config =
  server_name :: string
  ca :: "bytes option"

record quic_config =
  initial_stream_receive_window :: u64
  max_stream_receive_window :: u64
  initial_connection_receive_window :: u64
  max_connection_receive_window :: u64
  max_idle_timeout :: duration
  keep_alive_period :: duration
  disable_path_mtu_discovery :: bool

definition quic_config_default :: quic_config where
  "quic_config_default =
     \<lparr>initial_stream_receive_window = 0, max_stream_receive_window = 0,
      initial_connection_receive_window = 0, max_connection_receive_window = 0,
      max_idle_timeout = 0, keep_alive_period = 0, disable_path_mtu_discovery = False\<rparr>"

record bandwidth_config =
  max_tx :: u64
  max_rx :: u64

definition bandwidth_config_default :: bandwidth_config where
  "bandwidth_config_default = \<lparr>max_tx = 0, max_rx = 0\<rparr>"

record hop_interval_config =
  hop_min :: duration
  hop_max :: duration

definition hop_interval_default :: hop_interval_config where
  "hop_interval_default = \<lparr>hop_min = DEFAULT_HOP_INTERVAL, hop_max = DEFAULT_HOP_INTERVAL\<rparr>"

record config =
  server_addr :: socket_addr
  config_auth :: string
  config_tls :: tls_config
  quic :: quic_config
  bandwidth :: bandwidth_config
  config_fast_open :: bool
  config_obfs :: "bytes option"
  hop_ports :: "port_union option"
  hop_interval :: hop_interval_config

definition config_new :: "socket_addr \<Rightarrow> string \<Rightarrow> tls_config \<Rightarrow> config" where
  "config_new saddr a t =
     \<lparr>server_addr = saddr, config_auth = a, config_tls = t, quic = quic_config_default,
      bandwidth = bandwidth_config_default, config_fast_open = False, config_obfs = None,
      hop_ports = None, hop_interval = hop_interval_default\<rparr>"

definition normalized :: "hop_interval_config \<Rightarrow> config_error + hop_interval_config" where
  "normalized h =
     (if hop_min h = 0 \<and> hop_max h = 0 then Inr hop_interval_default
      else if hop_min h = 0 \<or> hop_max h = 0 then
        Inl \<lparr>field = ''hopInterval'', reason = ''min and max hop interval must both be set''\<rparr>
      else if hop_max h < hop_min h then
        Inl \<lparr>field = ''hopInterval'',
             reason = ''min hop interval must not be greater than max hop interval''\<rparr>
      else if hop_min h < MIN_HOP_INTERVAL then
        Inl \<lparr>field = ''hopInterval'', reason = ''hop interval must be at least 5 seconds''\<rparr>
      else Inr h)"

definition fill_window :: "u64 \<Rightarrow> u64 \<Rightarrow> string \<Rightarrow> config_error + u64" where
  "fill_window v dflt fld =
     (if v = 0 then Inr dflt
      else if v < MIN_RECEIVE_WINDOW then
        Inl \<lparr>field = fld, reason = ''must be at least 16384''\<rparr>
      else Inr v)"

definition fill_idle_timeout :: "duration \<Rightarrow> config_error + duration" where
  "fill_idle_timeout d =
     (if d = 0 then Inr DEFAULT_MAX_IDLE_TIMEOUT
      else if d < from_secs 4 \<or> from_secs 120 < d then
        Inl \<lparr>field = ''QUICConfig.MaxIdleTimeout'', reason = ''must be between 4s and 120s''\<rparr>
      else Inr d)"

definition fill_keep_alive :: "duration \<Rightarrow> config_error + duration" where
  "fill_keep_alive d =
     (if d = 0 then Inr DEFAULT_KEEP_ALIVE_PERIOD
      else if d < from_secs 2 \<or> from_secs 60 < d then
        Inl \<lparr>field = ''QUICConfig.KeepAlivePeriod'', reason = ''must be between 2s and 60s''\<rparr>
      else Inr d)"

text \<open>The filled configuration; on an error the caller drops the configuration.\<close>

definition verify_and_fill :: "config \<Rightarrow> config_error + config" where
  "verify_and_fill c =
     (let q = quic c in
      and_then (fill_window (initial_stream_receive_window q) DEFAULT_STREAM_RECEIVE_WINDOW
                  ''QUICConfig.InitialStreamReceiveWindow'') (\<lambda>w1.
      and_then (fill_window (max_stream_receive_window q) DEFAULT_STREAM_RECEIVE_WINDOW
                  ''QUICConfig.MaxStreamReceiveWindow'') (\<lambda>w2.
      and_then (fill_window (initial_connection_receive_window q) DEFAULT_CONN_RECEIVE_WINDOW
                  ''QUICConfig.InitialConnectionReceiveWindow'') (\<lambda>w3.
      and_then (fill_window (max_connection_receive_window q) DEFAULT_CONN_RECEIVE_WINDOW
                  ''QUICConfig.MaxConnectionReceiveWindow'') (\<lambda>w4.
      and_then (fill_idle_timeout (max_idle_timeout q)) (\<lambda>t.
      and_then (fill_keep_alive (keep_alive_period q)) (\<lambda>k.
      let c = c\<lparr>quic := q\<lparr>initial_stream_receive_window := w1, max_stream_receive_window := w2,
                           initial_connection_receive_window := w3,
                           max_connection_receive_window := w4,
                           max_idle_timeout := t, keep_alive_period := k\<rparr>\<rparr>
      in if hop_ports c \<noteq> None
         then and_then (normalized (hop_interval c)) (\<lambda>h. Inr (c\<lparr>hop_interval := h\<rparr>))
         else Inr c)))))))"

definition split_host_port :: "string \<Rightarrow> string \<times> string" where
  "split_host_port s =
     (let fallback =
        (case rsplit_once (CHR '':'') s of
           Some (host, spec) \<Rightarrow>
             if host \<noteq> [] \<and> spec \<noteq> [] \<and> CHR '':'' \<notin> set host then (host, spec) else (s, ''443'')
         | None \<Rightarrow> (s, ''443''))
      in case strip_prefix ''['' s of
           Some rest \<Rightarrow>
             (case split_once (CHR '']'') rest of
                Some (host, after) \<Rightarrow>
                  let spec = (case strip_prefix '':'' after of Some r \<Rightarrow> r | None \<Rightarrow> [])
                  in (host, if spec = [] then ''443'' else spec)
              | None \<Rightarrow> fallback)
         | None \<Rightarrow> fallback)"

definition primary_port :: "string \<Rightarrow> config_error + u16" where
  "primary_port spec =
     (case parse_u16 (hd (split_when (\<lambda>c. c = CHR ''-'' \<or> c = CHR '','') spec)) of
        None \<Rightarrow> Inl \<lparr>field = ''server'', reason = ''invalid port''\<rparr>
      | Some p \<Rightarrow> Inr p)"

text \<open>
  \<open>resolve host port\<close>: the addresses of \<^verbatim>\<open>(host, port).to_socket_addrs()\<close>, or the error text.
\<close>

definition from_profile ::
  "(string \<Rightarrow> u16 \<Rightarrow> string + socket_addr list) \<Rightarrow> profile \<Rightarrow> config_error + config" where
  "from_profile resolve p =
     (let (host, port_spec) = split_host_port (server p) in
      and_then
        (if CHR ''-'' \<in> set port_spec \<or> CHR '','' \<in> set port_spec
         then (case parse_port_union port_spec of
                 None \<Rightarrow> Inl \<lparr>field = ''server'', reason = ''invalid port range''\<rparr>
               | Some u \<Rightarrow> Inr (Some u))
         else Inr None) (\<lambda>hops.
      and_then (primary_port port_spec) (\<lambda>port.
      and_then
        (case resolve host port of
           Inl e \<Rightarrow> Inl \<lparr>field = ''server'', reason = ''resolve '' @ host @ '': '' @ e\<rparr>
         | Inr addrs \<Rightarrow>
             (case addrs of
                [] \<Rightarrow> Inl \<lparr>field = ''server'', reason = ''no address for '' @ host\<rparr>
              | a # _ \<Rightarrow> Inr a)) (\<lambda>ip.
      and_then
        (case profile_obfs p of
           None \<Rightarrow> Inr None
         | Some o' \<Rightarrow>
             if eq_ignore_ascii_case (obfs_type o') ''salamander''
             then Inr (Some (as_bytes (password o')))
             else Inl \<lparr>field = ''obfs'', reason = ''unsupported obfs type: '' @ obfs_type o'\<rparr>)
        (\<lambda>ob.
      let name = (if sni (profile_tls p) = [] then host else sni (profile_tls p));
          c = config_new ip (auth p) \<lparr>server_name = name, ca = None\<rparr>
      in Inr (c\<lparr>config_obfs := ob, hop_ports := hops, config_fast_open := fast_open p\<rparr>))))))"

text \<open>The hand-written \<^verbatim>\<open>Debug\<close>: its redacted fields, the others as trees of their own.\<close>

definition debug_config ::
  "(socket_addr \<Rightarrow> debug_tree) \<Rightarrow> (tls_config \<Rightarrow> debug_tree) \<Rightarrow> (quic_config \<Rightarrow> debug_tree) \<Rightarrow>
   (bandwidth_config \<Rightarrow> debug_tree) \<Rightarrow> (port_union option \<Rightarrow> debug_tree) \<Rightarrow>
   (hop_interval_config \<Rightarrow> debug_tree) \<Rightarrow> config \<Rightarrow> debug_tree" where
  "debug_config d_addr d_tls d_quic d_bw d_ports d_hop c =
     DStruct ''Config''
       [(''server_addr'', d_addr (server_addr c)), (''auth'', DStr ''<redacted>''),
        (''tls'', d_tls (config_tls c)), (''quic'', d_quic (quic c)),
        (''bandwidth'', d_bw (bandwidth c)), (''fast_open'', DBool (config_fast_open c)),
        (''obfs'', debug_option (\<lambda>_. DStr ''<redacted>'') (config_obfs c)),
        (''hop_ports'', d_ports (hop_ports c)), (''hop_interval'', d_hop (hop_interval c))]"

section \<open>Filling and verifying\<close>

lemmas config_consts =
  DEFAULT_STREAM_RECEIVE_WINDOW_def DEFAULT_CONN_RECEIVE_WINDOW_def DEFAULT_MAX_IDLE_TIMEOUT_def
  DEFAULT_KEEP_ALIVE_PERIOD_def MIN_RECEIVE_WINDOW_def DEFAULT_HOP_INTERVAL_def MIN_HOP_INTERVAL_def
  from_secs_def

text \<open>The bounds documented for a configuration in use.\<close>

definition quic_ok :: "quic_config \<Rightarrow> bool" where
  "quic_ok q \<longleftrightarrow>
     (\<forall>w\<in>{initial_stream_receive_window q, max_stream_receive_window q,
          initial_connection_receive_window q, max_connection_receive_window q}.
        MIN_RECEIVE_WINDOW \<le> w) \<and>
     from_secs 4 \<le> max_idle_timeout q \<and> max_idle_timeout q \<le> from_secs 120 \<and>
     from_secs 2 \<le> keep_alive_period q \<and> keep_alive_period q \<le> from_secs 60"

definition hop_ok :: "hop_interval_config \<Rightarrow> bool" where
  "hop_ok h \<longleftrightarrow> MIN_HOP_INTERVAL \<le> hop_min h \<and> hop_min h \<le> hop_max h"

definition config_ok :: "config \<Rightarrow> bool" where
  "config_ok c \<longleftrightarrow> quic_ok (quic c) \<and> (hop_ports c \<noteq> None \<longrightarrow> hop_ok (hop_interval c))"

text \<open>The specification of the defaults: zero stands for unset.\<close>

definition or_default :: "'a::zero \<Rightarrow> 'a \<Rightarrow> 'a" where
  "or_default v d = (if v = 0 then d else v)"

definition filled_quic :: "quic_config \<Rightarrow> quic_config" where
  "filled_quic q =
     \<lparr>initial_stream_receive_window =
        or_default (initial_stream_receive_window q) DEFAULT_STREAM_RECEIVE_WINDOW,
      max_stream_receive_window =
        or_default (max_stream_receive_window q) DEFAULT_STREAM_RECEIVE_WINDOW,
      initial_connection_receive_window =
        or_default (initial_connection_receive_window q) DEFAULT_CONN_RECEIVE_WINDOW,
      max_connection_receive_window =
        or_default (max_connection_receive_window q) DEFAULT_CONN_RECEIVE_WINDOW,
      max_idle_timeout = or_default (max_idle_timeout q) DEFAULT_MAX_IDLE_TIMEOUT,
      keep_alive_period = or_default (keep_alive_period q) DEFAULT_KEEP_ALIVE_PERIOD,
      disable_path_mtu_discovery = disable_path_mtu_discovery q\<rparr>"

definition filled_hop :: "hop_interval_config \<Rightarrow> hop_interval_config" where
  "filled_hop h = (if hop_min h = 0 \<and> hop_max h = 0 then hop_interval_default else h)"

definition filled_config :: "config \<Rightarrow> config" where
  "filled_config c =
     (let c = c\<lparr>quic := filled_quic (quic c)\<rparr>
      in if hop_ports c \<noteq> None then c\<lparr>hop_interval := filled_hop (hop_interval c)\<rparr> else c)"

lemma MIN_hop_pos: "0 < MIN_HOP_INTERVAL"
  by (simp add: config_consts)

lemma fill_window_iff:
  assumes "MIN_RECEIVE_WINDOW \<le> d"
  shows "fill_window v d f = Inr w \<longleftrightarrow> w = or_default v d \<and> MIN_RECEIVE_WINDOW \<le> w"
  using assms by (auto simp: fill_window_def or_default_def)

lemma fill_idle_iff:
  "fill_idle_timeout d = Inr t \<longleftrightarrow>
     t = or_default d DEFAULT_MAX_IDLE_TIMEOUT \<and> from_secs 4 \<le> t \<and> t \<le> from_secs 120"
  by (auto simp: fill_idle_timeout_def or_default_def config_consts)

lemma fill_keep_iff:
  "fill_keep_alive d = Inr t \<longleftrightarrow>
     t = or_default d DEFAULT_KEEP_ALIVE_PERIOD \<and> from_secs 2 \<le> t \<and> t \<le> from_secs 60"
  by (auto simp: fill_keep_alive_def or_default_def config_consts)

lemma normalized_iff: "normalized h = Inr h' \<longleftrightarrow> h' = filled_hop h \<and> hop_ok h'"
  using MIN_hop_pos
  by (auto simp: normalized_def filled_hop_def hop_ok_def hop_interval_default_def config_consts)

lemma default_windows:
  "MIN_RECEIVE_WINDOW \<le> DEFAULT_STREAM_RECEIVE_WINDOW" "MIN_RECEIVE_WINDOW \<le> DEFAULT_CONN_RECEIVE_WINDOW"
  by (simp_all add: config_consts)

lemma verify_and_fill_iff: "verify_and_fill c = Inr c' \<longleftrightarrow> c' = filled_config c \<and> config_ok c'"
  unfolding verify_and_fill_def Let_def
  by (cases "hop_ports c = None")
     (auto simp: and_then_eq_Inr fill_window_iff default_windows fill_idle_iff fill_keep_iff
      normalized_iff filled_config_def config_ok_def quic_ok_def filled_quic_def)

lemma filled_ok: "config_ok c \<Longrightarrow> filled_config c = c"
proof -
  assume ok: "config_ok c"
  have win: "or_default w d = w" if "MIN_RECEIVE_WINDOW \<le> w" for w d :: u64
    using that by (auto simp: or_default_def config_consts)
  have dur: "or_default t d = t" if "from_secs k \<le> t" "0 < k" for t d k :: nat
    using that by (auto simp: or_default_def from_secs_def)
  have "quic_ok (quic c)" using ok by (simp add: config_ok_def)
  then have "filled_quic (quic c) = quic c"
    by (simp add: filled_quic_def quic_ok_def win dur [of 4] dur [of 2])
  moreover have "hop_ports c \<noteq> None \<Longrightarrow> filled_hop (hop_interval c) = hop_interval c"
    using ok MIN_hop_pos by (auto simp: config_ok_def hop_ok_def filled_hop_def)
  ultimately show ?thesis by (simp add: filled_config_def Let_def)
qed

section \<open>Ports\<close>

lemma takeWhile_twice: "takeWhile P (takeWhile Q s) = takeWhile (\<lambda>c. P c \<and> Q c) s"
  by (induction s) auto

text \<open>The port dialled first is one the specification names.\<close>

lemma primary_port_named:
  assumes "primary_port spec = Inr p" "parse_port_union spec = Some u"
    and "CHR ''-'' \<in> set spec \<or> CHR '','' \<in> set spec"
  shows "contains u p"
proof -
  define part where "part = takeWhile (\<lambda>c. c \<noteq> CHR '','') spec"
  define digits where "digits = takeWhile (\<lambda>c. c \<noteq> CHR ''-'') part"
  have part: "part \<in> set (split_char (CHR '','') spec)"
    unfolding part_def hd_split_when [of "\<lambda>c. c = CHR '',''", symmetric]
    by (rule hd_in_set) (rule split_when_ne)
  have d: "parse_u16 digits = Some p"
    using assms(1) by (simp add: primary_port_def hd_split_when digits_def part_def takeWhile_twice
        split: option.splits)
  have "spec \<noteq> ''all''" "spec \<noteq> ''*''" using assms(3) by auto
  moreover have "parse_part part \<noteq> None"
    using assms(2) part calculation parse_parts_None [of "split_char (CHR '','') spec" "[]"]
    by (metis (no_types, lifting) imageI option.simps(3,4) parse_port_union_def)
  then obtain r where r: "parse_part part = Some r" by blast
  have "start_port r \<le> p \<and> p \<le> end_port r"
  proof (cases "CHR ''-'' \<in> set part")
    case True
    then obtain a b where ab: "split_char (CHR ''-'') part = [a, b]"
      using r by (auto simp: parse_part_def split: list.splits)
    then have "a = digits" using hd_split_when [of "\<lambda>c. c = CHR ''-''" part] by (simp add: digits_def)
    with True ab d have "parse_part part = (case parse_u16 b of None \<Rightarrow> None
      | Some e \<Rightarrow> Some (if e < p then \<lparr>start_port = e, end_port = p\<rparr> else \<lparr>start_port = p, end_port = e\<rparr>))"
      by (simp add: parse_part_def)
    with r show ?thesis by (cases "parse_u16 b") auto
  next
    case False
    then have "part = digits" unfolding digits_def
      by (intro takeWhile_eq_all_conv [THEN iffD2, symmetric]) auto
    with r False d show ?thesis by (auto simp: parse_part_def)
  qed
  ultimately have "p \<in> named_ports spec" using part r by (auto simp: named_ports_def)
  with parse_port_union_ok [OF assms(2)] show ?thesis by blast
qed

section \<open>Properties\<close>

text \<open>
  C32. Verification succeeds exactly when the configuration, with every unset (zero) field given
  its default, is within the documented bounds, and its result is that filled configuration: the
  windows at least 16384, the idle timeout 4 to 120 seconds, the keep-alive 2 to 60 seconds and,
  when hopping, an ordered hop interval of at least 5 seconds. Every other field is kept, and
  verifying the result again changes nothing.
\<close>

theorem verify_and_fill_correct:
  "(verify_and_fill c = Inr c' \<longleftrightarrow> c' = filled_config c \<and> config_ok c') \<and>
   (config_ok c \<longrightarrow> verify_and_fill c = Inr c)"
  using filled_ok [of c] by (auto simp: verify_and_fill_iff)

theorem verify_and_fill_correct_witness:
  "verify_and_fill (filled_config (config_new (V4 1, 443) [] \<lparr>server_name = [], ca = None\<rparr>)) =
     Inr (filled_config (config_new (V4 1, 443) [] \<lparr>server_name = [], ca = None\<rparr>))"
proof -
  let ?c = "filled_config (config_new (V4 1, 443) [] \<lparr>server_name = [], ca = None\<rparr>)"
  have "config_ok ?c"
    by (simp add: config_ok_def quic_ok_def filled_config_def filled_quic_def config_new_def
        quic_config_default_def or_default_def config_consts Let_def)
  with verify_and_fill_correct [of ?c ?c] show ?thesis by blast
qed



text \<open>
  The \<^verbatim>\<open>Debug\<close> rendering of a configuration is independent of the credential and of the
  bytes of the obfuscation key.
\<close>

lemma debug_config_redacts:
  "debug_config da dt dq db dp dh (c\<lparr>config_auth := a, config_obfs := map_option (\<lambda>_. k) (config_obfs c)\<rparr>) =
   debug_config da dt dq db dp dh c"
  by (cases "config_obfs c") (simp_all add: debug_config_def debug_option_def)

end
