(* ===== verification/Sockets.thy ===== *)
theory Sockets
  imports Obfs ClientConfig
begin

text \<open>
  The UDP socket layers of \<^verbatim>\<open>crates/hysteria/src/client/obfs_socket.rs\<close> and
  \<^verbatim>\<open>crates/hysteria/src/client/hop_socket.rs\<close>, which wrap an inner \<^verbatim>\<open>AsyncUdpSocket\<close>. The
  inner socket is a parameter: \<^verbatim>\<open>try_send\<close> hands it a datagram, and \<^verbatim>\<open>poll_recv\<close> rewrites
  the buffers and metadata it has filled. The locale \<open>datagram_layer\<close> states what the connection
  above relies on, that the payload arrives; both layers provide it, and so does their stack.
\<close>

section \<open>Datagrams\<close>

record transmit =
  destination :: socket_addr
  tx_ecn :: "nat option"
  contents :: bytes
  segment_size :: "nat option"
  src_ip :: "ip_addr option"

record recv_meta =
  meta_addr :: socket_addr
  meta_len :: nat
  meta_stride :: nat
  rx_ecn :: "nat option"
  dst_ip :: "ip_addr option"

text \<open>\<^verbatim>\<open>Poll<io::Result<usize>>\<close> with the buffers and metadata the call has written.\<close>

datatype poll_recv =
    Pending
  | RecvErr io_error
  | Received nat "bytes list" "recv_meta list"

text \<open>
  What a socket says of itself. A transmit with a segment size stands for several datagrams; a
  connection never puts more of them in one than the socket announces.
\<close>

record socket_caps =
  cap_local_addr :: "io_error + socket_addr"
  cap_max_transmit :: nat
  cap_max_receive :: nat
  cap_may_fragment :: bool

function segments :: "nat \<Rightarrow> bytes \<Rightarrow> bytes list" where
  "segments n b = (if n = 0 \<or> length b \<le> n then [b] else take n b # segments n (drop n b))"
  by pat_completeness auto
termination
  by (relation "measure (\<lambda>(n, b). length b)") auto

declare segments.simps [simp del]

definition datagrams :: "transmit \<Rightarrow> bytes list" where
  "datagrams t = (case segment_size t of None \<Rightarrow> [contents t] | Some n \<Rightarrow> segments n (contents t))"

section \<open>The obfuscating socket\<close>

definition UDP_BUFFER_SIZE :: nat where "UDP_BUFFER_SIZE = 2048"

text \<open>What \<^verbatim>\<open>try_send\<close> passes on; \<^verbatim>\<open>None\<close> when the datagram is dropped silently.\<close>

definition obfs_transmit ::
  "(bytes \<Rightarrow> bytes) \<Rightarrow> salamander \<Rightarrow> (nat \<Rightarrow> u8) \<Rightarrow> transmit \<Rightarrow> transmit option" where
  "obfs_transmit blake s salt t =
     (let (buf, n) = obfuscate blake s salt (contents t) (replicate UDP_BUFFER_SIZE 0)
      in if n = 0 then None
         else Some \<lparr>destination = destination t, tx_ecn = tx_ecn t, contents = take n buf,
                    segment_size = None, src_ip = src_ip t\<rparr>)"

definition obfs_try_send ::
  "(bytes \<Rightarrow> bytes) \<Rightarrow> salamander \<Rightarrow> (nat \<Rightarrow> u8) \<Rightarrow> (transmit \<Rightarrow> io_error + unit) \<Rightarrow>
   transmit \<Rightarrow> io_error + unit" where
  "obfs_try_send blake s salt inner t =
     (case obfs_transmit blake s salt t of None \<Rightarrow> Inr () | Some t' \<Rightarrow> inner t')"

text \<open>One iteration of the receive loop; slicing past the end of the buffer panics.\<close>

definition obfs_receive ::
  "(bytes \<Rightarrow> bytes) \<Rightarrow> salamander \<Rightarrow> bytes \<times> recv_meta \<Rightarrow> (bytes \<times> recv_meta) exec" where
  "obfs_receive blake s d =
     (let (buf, m) = d; len = meta_len m in
      if length buf < len then Panic
      else
        let (scratch, out_len) = deobfuscate blake s (take len buf) (replicate UDP_BUFFER_SIZE 0)
        in if out_len = 0 then Ret (buf, m\<lparr>meta_len := 0, meta_stride := 0\<rparr>)
           else exec_bind (copy_at buf 0 (take out_len scratch)) (\<lambda>buf.
                Ret (buf, m\<lparr>meta_len := out_len, meta_stride := out_len\<rparr>)))"

fun recv_loop ::
  "(bytes \<times> recv_meta \<Rightarrow> (bytes \<times> recv_meta) exec) \<Rightarrow> nat list \<Rightarrow> bytes list \<Rightarrow> recv_meta list \<Rightarrow>
   (bytes list \<times> recv_meta list) exec" where
  "recv_loop f [] bufs metas = Ret (bufs, metas)"
| "recv_loop f (i # is) bufs metas =
     exec_bind (index_at metas i) (\<lambda>m.
     exec_bind (index_at bufs i) (\<lambda>b.
     exec_bind (f (b, m)) (\<lambda>(b', m').
     recv_loop f is (bufs[i := b']) (metas[i := m']))))"

definition obfs_poll_recv ::
  "(bytes \<Rightarrow> bytes) \<Rightarrow> salamander \<Rightarrow> poll_recv \<Rightarrow> poll_recv exec" where
  "obfs_poll_recv blake s result =
     (case result of
        Received count bufs metas \<Rightarrow>
          exec_bind (recv_loop (obfs_receive blake s) [0..<count] bufs metas) (\<lambda>(bufs, metas).
          Ret (Received count bufs metas))
      | _ \<Rightarrow> Ret result)"

text \<open>Obfuscation works on one datagram at a time, and the socket says so.\<close>

definition obfs_caps :: "socket_caps \<Rightarrow> socket_caps" where
  "obfs_caps inner =
     \<lparr>cap_local_addr = cap_local_addr inner, cap_max_transmit = 1, cap_max_receive = 1,
      cap_may_fragment = cap_may_fragment inner\<rparr>"

section \<open>The hopping socket\<close>

record hop_state =
  addrs :: "socket_addr list"
  index :: nat

text \<open>
  \<^verbatim>\<open>random_range\<close> panics on an empty range (as does the debug assertion).
\<close>

definition hop_new :: "rng \<Rightarrow> socket_addr list \<Rightarrow> hop_state exec" where
  "hop_new rng as = (if as = [] then Panic else Ret \<lparr>addrs = as, index = rng 0 (length as)\<rparr>)"

definition current :: "hop_state \<Rightarrow> socket_addr exec" where
  "current st = index_at (addrs st) (index st)"

definition hop_transmit :: "hop_state \<Rightarrow> transmit \<Rightarrow> transmit exec" where
  "hop_transmit st t =
     exec_bind (current st) (\<lambda>d.
     Ret \<lparr>destination = d, tx_ecn = tx_ecn t, contents = contents t,
          segment_size = segment_size t, src_ip = src_ip t\<rparr>)"

definition hop_receive :: "socket_addr \<Rightarrow> bytes \<times> recv_meta \<Rightarrow> (bytes \<times> recv_meta) exec" where
  "hop_receive peer d = (case d of (buf, m) \<Rightarrow> Ret (buf, m\<lparr>meta_addr := peer\<rparr>))"

definition hop_poll_recv :: "socket_addr \<Rightarrow> poll_recv \<Rightarrow> poll_recv" where
  "hop_poll_recv peer result =
     (case result of
        Received count bufs metas \<Rightarrow>
          Received count bufs
            (map (\<lambda>m. m\<lparr>meta_addr := peer\<rparr>) (take count metas) @ drop count metas)
      | _ \<Rightarrow> result)"

definition hop_caps :: "socket_caps \<Rightarrow> socket_caps" where
  "hop_caps inner =
     \<lparr>cap_local_addr = cap_local_addr inner, cap_max_transmit = cap_max_transmit inner,
      cap_max_receive = cap_max_receive inner, cap_may_fragment = cap_may_fragment inner\<rparr>"

text \<open>
  \<^verbatim>\<open>hop_loop\<close>: each wake-up draws the next port if the socket is still there, and returns otherwise.
  The result is the state and whether the loop has returned.
\<close>

definition hop_tick :: "rng \<Rightarrow> hop_state \<Rightarrow> hop_state exec" where
  "hop_tick rng st =
     (if addrs st = [] then Panic else Ret (st\<lparr>index := rng 0 (length (addrs st))\<rparr>))"

fun hop_loop :: "(rng \<times> bool) list \<Rightarrow> hop_state \<Rightarrow> (hop_state \<times> bool) exec" where
  "hop_loop [] st = Ret (st, False)"
| "hop_loop ((r, there) # ws) st =
     (if \<not> there then Ret (st, True) else exec_bind (hop_tick r st) (hop_loop ws))"

definition next_delay :: "rng \<Rightarrow> hop_interval_config \<Rightarrow> duration" where
  "next_delay rng h =
     (if hop_max h \<le> hop_min h then hop_min h
      else let span = min (hop_max h - hop_min h) (2 ^ 64 - 1)
           in hop_min h + rng 0 (span + 1))"

section \<open>The contract of a layer\<close>

text \<open>A received datagram: its buffer holds the payload, and the metadata gives its length.\<close>

definition delivers :: "bytes \<times> recv_meta \<Rightarrow> bytes \<Rightarrow> bool" where
  "delivers d p \<longleftrightarrow> (case d of (buf, m) \<Rightarrow>
     meta_len m = length p \<and> length p \<le> length buf \<and> take (length p) buf = p)"

locale datagram_layer =
  fixes outbound :: "transmit \<Rightarrow> transmit option"
    and inbound :: "bytes \<times> recv_meta \<Rightarrow> (bytes \<times> recv_meta) exec"
    and carried :: "bytes \<Rightarrow> bool"
  assumes outbound_ok: "carried (contents t) \<Longrightarrow> \<exists>t'. outbound t = Some t'"
    and inbound_ok: "carried (contents t) \<Longrightarrow> outbound t = Some t' \<Longrightarrow>
      delivers d (contents t') \<Longrightarrow> \<exists>d'. inbound d = Ret d' \<and> delivers d' (contents t)"
begin

definition forwards :: "transmit \<Rightarrow> bytes \<times> recv_meta \<Rightarrow> bool" where
  "forwards t d \<longleftrightarrow> (\<exists>t'. outbound t = Some t' \<and> delivers d (contents t'))"

lemma end_to_end:
  "carried (contents t) \<Longrightarrow> forwards t d \<Longrightarrow> \<exists>d'. inbound d = Ret d' \<and> delivers d' (contents t)"
  unfolding forwards_def using inbound_ok by blast

end

text \<open>A layer over a layer: the upper one transforms first on the way out and last on the way in.\<close>

locale layer_stack =
  upper: datagram_layer out1 in1 carried1 + lower: datagram_layer out2 in2 carried2
  for out1 in1 carried1 out2 in2 carried2 +
  assumes fits: "carried1 p \<Longrightarrow> out1 t = Some t' \<Longrightarrow> contents t = p \<Longrightarrow> carried2 (contents t')"
begin

lemma stack_delivers:
  assumes "carried1 (contents t)"
  shows "\<exists>t1 t2. out1 t = Some t1 \<and> out2 t1 = Some t2 \<and>
    (\<forall>d. delivers d (contents t2) \<longrightarrow>
       (\<exists>d1 d2. in2 d = Ret d1 \<and> in1 d1 = Ret d2 \<and> delivers d2 (contents t)))"
proof -
  obtain t1 where t1: "out1 t = Some t1" using upper.outbound_ok [OF assms] by blast
  have c2: "carried2 (contents t1)" using fits [OF assms t1] by simp
  obtain t2 where t2: "out2 t1 = Some t2" using lower.outbound_ok [OF c2] by blast
  show ?thesis
    using t1 t2 lower.inbound_ok [OF c2 t2] upper.inbound_ok [OF assms t1] by blast
qed

end

section \<open>Both layers provide it\<close>

text \<open>Salamander carries non-empty payloads that fit the scratch buffer beside the salt.\<close>

definition obfs_carried :: "bytes \<Rightarrow> bool" where
  "obfs_carried p \<longleftrightarrow> p \<noteq> [] \<and> length p + SALT_LEN \<le> UDP_BUFFER_SIZE"

lemma obfs_transmit_eq:
  "obfs_transmit blake s salt t =
     (if 2040 < length (contents t) then None
      else Some \<lparr>destination = destination t, tx_ecn = tx_ecn t,
        contents = fst (obfuscate blake s salt (contents t) (replicate (length (contents t) + 8) 0)),
        segment_size = None, src_ip = src_ip t\<rparr>)"
  by (simp add: obfs_transmit_def obfuscate_eq UDP_BUFFER_SIZE_def Let_def)

lemma obfs_receive_delivers:
  assumes "obfs_carried (contents t)" "obfs_transmit blake s salt t = Some t'"
    and "delivers d (contents t')"
  shows "\<exists>d'. obfs_receive blake s d = Ret d' \<and> delivers d' (contents t)"
proof -
  obtain buf m where d: "d = (buf, m)" by force
  let ?p = "contents t" and ?z = "replicate 2048 (0 :: u8)"
  have p: "?p \<noteq> []" "length ?p \<le> 2040"
    using assms(1) by (auto simp: obfs_carried_def UDP_BUFFER_SIZE_def SALT_LEN_def)
  obtain out n where o: "obfuscate blake s salt ?p ?z = (out, n)" by force
  have n: "n = length ?p + 8" "length out = 2048"
    using o p by (auto simp: obfuscate_eq)
  have c: "contents t' = take n out"
    using assms(2) o n by (auto simp: obfs_transmit_def UDP_BUFFER_SIZE_def split: if_splits)
  have len: "length (contents t') = n" using c n p by simp
  have buf: "meta_len m = n" "n \<le> length buf" "take n buf = take n out"
    using assms(3) len by (auto simp: d delivers_def c)
  have deob: "deobfuscate blake s (take n buf) ?z = (?p @ drop (length ?p) ?z, length ?p)"
    unfolding buf(3) by (rule deobfuscate_obfuscate [OF o]) (use n p in auto)
  have "obfs_receive blake s d = Ret (?p @ drop (length ?p) buf,
      m\<lparr>meta_len := length ?p, meta_stride := length ?p\<rparr>)"
    using buf(2) p n
    by (simp add: obfs_receive_def d buf(1) UDP_BUFFER_SIZE_def deob [unfolded n(1)] copy_at_def)
  then show ?thesis by (simp add: delivers_def)
qed

interpretation salamander: datagram_layer "obfs_transmit blake s salt" "obfs_receive blake s" obfs_carried
  for blake s salt
proof
  fix t :: transmit assume "obfs_carried (contents t)"
  then show "\<exists>t'. obfs_transmit blake s salt t = Some t'"
    by (auto simp: obfs_carried_def obfs_transmit_eq UDP_BUFFER_SIZE_def SALT_LEN_def)
qed (rule obfs_receive_delivers)

text \<open>The hop layer in the state \<open>st\<close>; a panic would be a refusal.\<close>

definition hop_outbound :: "hop_state \<Rightarrow> transmit \<Rightarrow> transmit option" where
  "hop_outbound st t = (case hop_transmit st t of Ret t' \<Rightarrow> Some t' | Panic \<Rightarrow> None)"

definition hop_inv :: "hop_state \<Rightarrow> bool" where
  "hop_inv st \<longleftrightarrow> index st < length (addrs st)"

lemma hop_transmit_eq:
  "hop_inv st \<Longrightarrow> hop_transmit st t = Ret (t\<lparr>destination := addrs st ! index st\<rparr>)"
  by (simp add: hop_transmit_def current_def hop_inv_def index_at_in)

interpretation hop: datagram_layer "hop_outbound st" "hop_receive peer" "\<lambda>_. hop_inv st"
  for st peer
  by unfold_locales
     (auto simp: hop_outbound_def hop_transmit_eq hop_receive_def delivers_def)

text \<open>The stack that \<^verbatim>\<open>build_endpoint\<close> makes: hopping above, obfuscation below.\<close>

interpretation endpoint_stack: layer_stack
  "hop_outbound st" "hop_receive peer" "\<lambda>p. hop_inv st \<and> obfs_carried p"
  "obfs_transmit blake s salt" "obfs_receive blake s" obfs_carried
  for st peer blake s salt
  by unfold_locales
     (auto simp: hop_outbound_def hop_transmit_eq hop_receive_def delivers_def)

section \<open>The hop state\<close>

lemma hop_new_inv: "rng_ok rng \<Longrightarrow> as \<noteq> [] \<Longrightarrow> \<exists>st. hop_new rng as = Ret st \<and> addrs st = as \<and> hop_inv st"
  by (simp add: hop_new_def hop_inv_def rng_ok_def)

lemma hop_loop_inv:
  assumes "hop_inv st" "\<forall>w\<in>set ws. rng_ok (fst w)"
  shows "\<exists>st'. hop_loop ws st = Ret (st', False \<in> set (map snd ws)) \<and> addrs st' = addrs st \<and> hop_inv st'"
  using assms
proof (induction ws arbitrary: st)
  case (Cons w ws)
  obtain r there where w: "w = (r, there)" by force
  let ?st = "st\<lparr>index := r 0 (length (addrs st))\<rparr>"
  have ne: "addrs st \<noteq> []" using Cons.prems(1) by (auto simp: hop_inv_def)
  then have "hop_inv ?st" using Cons.prems(2) w by (simp add: hop_inv_def rng_ok_def)
  with Cons.IH [of ?st] Cons.prems ne w show ?case by (auto simp: hop_tick_def)
qed auto

lemma next_delay_bounds:
  assumes "rng_ok rng" "hop_min h \<le> hop_max h"
  shows "hop_min h \<le> next_delay rng h \<and> next_delay rng h \<le> hop_max h"
proof (cases "hop_max h \<le> hop_min h")
  case True
  then show ?thesis using assms(2) by (simp add: next_delay_def)
next
  case False
  define span :: nat where "span = min (hop_max h - hop_min h) (2 ^ 64 - 1)"
  have "rng 0 (span + 1) < span + 1" using assms(1) by (simp add: rng_ok_def)
  moreover have "span \<le> hop_max h - hop_min h" unfolding span_def by (rule min.cobounded1)
  moreover have "next_delay rng h = hop_min h + rng 0 (span + 1)"
    unfolding next_delay_def Let_def span_def [symmetric] using False by simp
  ultimately show ?thesis using assms(2) by linarith
qed

lemma segments_single: "length (segments n b) \<le> 1 \<Longrightarrow> segments n b = [b]"
proof -
  assume "length (segments n b) \<le> 1"
  moreover have "segments n (drop n b) \<noteq> []" by (subst segments.simps) simp
  ultimately show ?thesis by (subst (asm) segments.simps, subst segments.simps) (auto split: if_splits)
qed

section \<open>Receiving a batch\<close>

text \<open>The loop treats the first \<open>count\<close> datagrams each by itself and leaves the others alone.\<close>

lemma recv_loop_map:
  assumes "\<And>i. k \<le> i \<Longrightarrow> i < n \<Longrightarrow> f (bufs ! i, metas ! i) = Ret (g i)"
    and "n \<le> length bufs" "n \<le> length metas" "k \<le> n"
  shows "recv_loop f [k..<n] bufs metas =
    Ret (take k bufs @ map (fst \<circ> g) [k..<n] @ drop n bufs,
         take k metas @ map (snd \<circ> g) [k..<n] @ drop n metas)"
  using assms
proof (induction "n - k" arbitrary: k bufs metas)
  case (Suc j)
  then have k: "k < n" by simp
  have g: "f (bufs ! k, metas ! k) = Ret (fst (g k), snd (g k))" using Suc.prems(1) [of k] k by simp
  let ?bufs = "bufs[k := fst (g k)]" and ?metas = "metas[k := snd (g k)]"
  have "recv_loop f [Suc k..<n] ?bufs ?metas =
    Ret (take (Suc k) ?bufs @ map (fst \<circ> g) [Suc k..<n] @ drop n ?bufs,
         take (Suc k) ?metas @ map (snd \<circ> g) [Suc k..<n] @ drop n ?metas)"
    using Suc.prems Suc.hyps(2) k by (intro Suc.hyps(1)) auto
  moreover have "take (Suc k) ?bufs = take k bufs @ [fst (g k)]"
    "take (Suc k) ?metas = take k metas @ [snd (g k)]"
    using k Suc.prems(2,3) by (simp_all add: take_Suc_conv_app_nth)
  ultimately show ?case
    using k g Suc.prems(2,3) by (simp add: upt_conv_Cons index_at_in split_def)
qed simp

text \<open>A datagram that is no obfuscated packet is shown to the connection as empty.\<close>

lemma obfs_receive_total:
  assumes "meta_len m \<le> length buf"
  shows "\<exists>buf' m'. obfs_receive blake s (buf, m) = Ret (buf', m') \<and> length buf' = length buf \<and>
    meta_len m' = meta_stride m' \<and> meta_addr m' = meta_addr m \<and>
    meta_len m' = (if meta_len m \<le> 8 \<or> 2056 < meta_len m then 0 else meta_len m - 8)"
  using assms
  by (auto simp: obfs_receive_def deobfuscate_eq UDP_BUFFER_SIZE_def copy_at_def Let_def
      split: prod.splits)

section \<open>Properties\<close>

text \<open>
  C20. Through the socket stack of an endpoint with hopping and obfuscation, a datagram of 1 to
  2040 bytes reaches the peer: what a connection hands to the socket in keeping with what the socket
  announces is one datagram, it is sent as one, to a current hop address, and whatever the salt and
  hash function, a peer with the same key that receives those bytes into a large enough buffer sees
  exactly the datagram. Nothing on the way panics.
\<close>

theorem endpoint_stack_delivers:
  assumes "hop_inv st" "contents t \<noteq> []" "length (contents t) \<le> 2040"
    and "length (datagrams t) \<le> cap_max_transmit (hop_caps (obfs_caps inner))"
  shows "datagrams t = [contents t] \<and>
    (\<exists>t1 t2. hop_transmit st t = Ret t1 \<and> obfs_transmit blake s salt t1 = Some t2 \<and> datagrams t2 = [contents t2] \<and>
    destination t2 \<in> set (addrs st) \<and>
    (\<forall>d. delivers d (contents t2) \<longrightarrow>
       (\<exists>d1 d2. obfs_receive blake s d = Ret d1 \<and> hop_receive peer d1 = Ret d2 \<and>
          delivers d2 (contents t))))"
proof -
  have one: "datagrams t = [contents t]"
    using assms(4) by (auto simp: datagrams_def hop_caps_def obfs_caps_def segments_single split: option.splits)
  have c: "hop_inv st \<and> obfs_carried (contents t)"
    using assms by (simp add: obfs_carried_def UDP_BUFFER_SIZE_def SALT_LEN_def)
  from endpoint_stack.stack_delivers [OF this, of blake s salt peer] obtain t1 t2 where
    t: "hop_outbound st t = Some t1" "obfs_transmit blake s salt t1 = Some t2"
    and d: "\<forall>d. delivers d (contents t2) \<longrightarrow> (\<exists>d1 d2. obfs_receive blake s d = Ret d1 \<and>
      hop_receive peer d1 = Ret d2 \<and> delivers d2 (contents t))" by blast
  have h: "hop_transmit st t = Ret t1" using t(1) by (auto simp: hop_outbound_def split: exec.splits)
  have "destination t2 = destination t1"
    using t(2) by (auto simp: obfs_transmit_eq split: if_splits)
  also have "\<dots> \<in> set (addrs st)"
    using h assms(1) by (auto simp: hop_transmit_eq) (simp add: hop_inv_def)
  finally have "destination t2 \<in> set (addrs st)" .
  moreover have "datagrams t2 = [contents t2]"
    using t(2) by (auto simp: obfs_transmit_eq datagrams_def split: if_splits)
  ultimately show ?thesis using one h t(2) d by blast
qed

theorem endpoint_stack_delivers_witness:
  "\<exists>t1 t2. hop_transmit \<lparr>addrs = [(V4 1, 443), (V4 1, 444)], index = 1\<rparr>
       \<lparr>destination = (V4 1, 443), tx_ecn = None, contents = [1, 2], segment_size = None, src_ip = None\<rparr>
     = Ret t1 \<and> obfs_transmit (\<lambda>x. x) \<lparr>psk = [1, 2, 3, 4]\<rparr> (\<lambda>i. 0) t1 = Some t2"
proof -
  let ?st = "\<lparr>addrs = [(V4 1, 443), (V4 1, 444)], index = 1\<rparr>"
  let ?t = "\<lparr>destination = (V4 1, 443), tx_ecn = None, contents = [1, 2], segment_size = None, src_ip = None\<rparr>"
  let ?inner = "\<lparr>cap_local_addr = Inr (V4 0, 0), cap_max_transmit = 64, cap_max_receive = 64, cap_may_fragment = False\<rparr>"
  have h: "hop_inv ?st" by (simp add: hop_inv_def)
  have "length (datagrams ?t) \<le> cap_max_transmit (hop_caps (obfs_caps ?inner))"
    by (simp add: datagrams_def hop_caps_def obfs_caps_def)
  from endpoint_stack_delivers [OF h _ _ this, of "\<lambda>x. x" "\<lparr>psk = [1, 2, 3, 4]\<rparr>" "\<lambda>i. 0"]
  show ?thesis by simp blast
qed

text \<open>
  A received batch never panics when each length fits its buffer, and each datagram is
  handled by itself: a datagram of 9 to 2056 bytes is replaced by its recovered payload of 8 bytes
  less, any other is presented as empty, and datagrams past \<open>count\<close> are untouched.
\<close>

lemma obfs_poll_recv_total:
  assumes "length bufs = length metas" "count \<le> length bufs"
    and "\<forall>i<length bufs. meta_len (metas ! i) \<le> length (bufs ! i)"
  shows "\<exists>bufs' metas'. obfs_poll_recv blake s (Received count bufs metas) =
      Ret (Received count bufs' metas') \<and>
    (\<forall>i<length bufs.
       if i < count
       then obfs_receive blake s (bufs ! i, metas ! i) = Ret (bufs' ! i, metas' ! i) \<and>
            meta_len (metas' ! i) =
              (if meta_len (metas ! i) \<le> 8 \<or> 2056 < meta_len (metas ! i) then 0
               else meta_len (metas ! i) - 8)
       else bufs' ! i = bufs ! i \<and> metas' ! i = metas ! i)"
proof -
  have ex: "\<exists>d. obfs_receive blake s (bufs ! i, metas ! i) = Ret d" if "i < length bufs" for i
    using obfs_receive_total [of "metas ! i" "bufs ! i" blake s] assms(3) that by auto
  define g where "g i = (case obfs_receive blake s (bufs ! i, metas ! i) of Ret d \<Rightarrow> d)" for i
  have g: "obfs_receive blake s (bufs ! i, metas ! i) = Ret (fst (g i), snd (g i))"
    if "i < length bufs" for i
    using ex [OF that] by (auto simp: g_def)
  have len: "meta_len (snd (g i)) = (if meta_len (metas ! i) \<le> 8 \<or> 2056 < meta_len (metas ! i) then 0
      else meta_len (metas ! i) - 8)" if "i < length bufs" for i
    using obfs_receive_total [of "metas ! i" "bufs ! i" blake s] assms(3) g [OF that] that by auto
  have run: "recv_loop (obfs_receive blake s) [0..<count] bufs metas =
    Ret (map (fst \<circ> g) [0..<count] @ drop count bufs, map (snd \<circ> g) [0..<count] @ drop count metas)"
    using recv_loop_map [of 0 count "obfs_receive blake s" bufs metas g] assms(1,2) g by simp
  show ?thesis
    by (intro exI conjI)
       (simp add: obfs_poll_recv_def run, use g len assms(1,2) in \<open>auto simp: nth_append\<close>)
qed

text \<open>
  C38. A hopping socket built on a non-empty address list sends every datagram, after any number
  of hops and whatever the random draws, to one of those addresses, with the rest of the datagram
  unchanged, and each wait between hops lies in the configured interval; the hopping ends exactly
  when a wake-up finds the socket gone.
\<close>

theorem hop_socket_stays_in_range:
  assumes "rng_ok rng" "as \<noteq> []" "\<forall>w\<in>set ws. rng_ok (fst w)" "hop_min h \<le> hop_max h"
  shows "\<exists>st st' t'. hop_new rng as = Ret st \<and> hop_loop ws st = Ret (st', False \<in> set (map snd ws)) \<and>
    hop_transmit st' t = Ret t' \<and> destination t' \<in> set as \<and> contents t' = contents t \<and>
    hop_min h \<le> next_delay rng h \<and> next_delay rng h \<le> hop_max h"
proof -
  obtain st where st: "hop_new rng as = Ret st" "addrs st = as" "hop_inv st"
    using hop_new_inv [OF assms(1,2)] by blast
  obtain st' where st': "hop_loop ws st = Ret (st', False \<in> set (map snd ws))" "addrs st' = as" "hop_inv st'"
    using hop_loop_inv [OF st(3) assms(3)] st(2) by metis
  note next_delay_bounds [OF assms(1,4)]
  with st st' show ?thesis
    by (simp add: hop_transmit_eq) (simp add: hop_inv_def)
qed

theorem hop_socket_stays_in_range_witness:
  "\<exists>st st' t'. hop_new (\<lambda>k n. 0) [(V4 1, 443)] = Ret st \<and> hop_loop [(\<lambda>k n. n - 1, True), (\<lambda>k n. 0, False)] st = Ret (st', True) \<and>
    hop_transmit st' \<lparr>destination = (V4 9, 1), tx_ecn = None, contents = [5], segment_size = None,
      src_ip = None\<rparr> = Ret t' \<and> destination t' = (V4 1, 443)"
  using hop_socket_stays_in_range [of "\<lambda>k n. 0" "[(V4 1, 443)]" "[(\<lambda>k n. n - 1, True), (\<lambda>k n. 0, False)]" hop_interval_default
    "\<lparr>destination = (V4 9, 1), tx_ecn = None, contents = [5], segment_size = None, src_ip = None\<rparr>"]
  by (auto simp: rng_ok_def hop_interval_default_def)

end
