(* ===== verification/UdpSession.thy ===== *)
theory UdpSession
  imports Frag Errors
begin

text \<open>
  The UDP session manager, \<^verbatim>\<open>crates/hysteria/src/client/udp.rs\<close>, and the datagram side of the
  QUIC connection under it, \<^verbatim>\<open>QuinnUdpIo\<close> of \<^verbatim>\<open>crates/hysteria/src/client/transport.rs\<close>.

  A Tokio channel is a queue in an explicit table: channel \<open>k\<close> belongs to the \<open>k\<close>-th session
  created, and its sender is alive as long as the manager's map points to it. Every operation is
  one step under the table's mutex, so an interleaving of tasks is a list of events. The
  connection's datagram calls are parameters.
\<close>

section \<open>Sending\<close>

definition UDP_MESSAGE_CHAN_SIZE :: nat where "UDP_MESSAGE_CHAN_SIZE = 1024"

datatype send_error = TooLarge nat | SendIo io_error

text \<open>Its \<^verbatim>\<open>Display\<close> (given that of \<^verbatim>\<open>io::Error\<close>), \<^verbatim>\<open>source\<close> and \<^verbatim>\<open>From<io::Error>\<close>.\<close>

fun display_send_error :: "(io_error \<Rightarrow> string) \<Rightarrow> send_error \<Rightarrow> string" where
  "display_send_error dio (TooLarge mx) = ''datagram too large (max payload '' @ show_nat mx @ '')''"
| "display_send_error dio (SendIo e) = dio e"

fun send_error_source :: "send_error \<Rightarrow> io_error option" where
  "send_error_source (SendIo e) = Some e"
| "send_error_source (TooLarge mx) = None"

definition send_error_from :: "io_error \<Rightarrow> send_error" where
  "send_error_from e = SendIo e"

text \<open>The outcome of \<^verbatim>\<open>send_datagram\<close>: accepted, too large, or another error.\<close>

datatype datagram_result = DatagramOk | DatagramTooLarge | DatagramErr string

text \<open>
  \<^verbatim>\<open>QuinnUdpIo::send_message\<close>: the new scratch buffer, the datagram handed to the connection if
  any, and the result. \<open>quic\<close> decides on a datagram, \<open>max_size\<close> is \<^verbatim>\<open>max_datagram_size()\<close>.
\<close>

definition send_message ::
  "(bytes \<Rightarrow> datagram_result) \<Rightarrow> nat option \<Rightarrow> bytes \<Rightarrow> udp_message \<Rightarrow>
   (bytes \<times> bytes option \<times> (send_error + unit)) exec" where
  "send_message quic max_size buf m =
     exec_bind (serialize m buf) (\<lambda>(buf, r).
     case r of
       None \<Rightarrow> Ret (buf, None, Inr ())
     | Some n \<Rightarrow>
         (case quic (take n buf) of
            DatagramOk \<Rightarrow> Ret (buf, Some (take n buf), Inr ())
          | DatagramTooLarge \<Rightarrow>
              (case max_size of
                 Some mx \<Rightarrow> Ret (buf, None, Inl (TooLarge mx))
               | None \<Rightarrow>
                   Ret (buf, None,
                     Inl (SendIo (OtherIo ''datagram too large but max datagram size is unknown''))))
          | DatagramErr e \<Rightarrow> Ret (buf, None, Inl (SendIo (OtherIo e)))))"

text \<open>The loop over the fragments, which stops at the first error.\<close>

fun send_frags ::
  "(bytes \<Rightarrow> datagram_result) \<Rightarrow> nat option \<Rightarrow> bytes \<Rightarrow> udp_message list \<Rightarrow>
   (bytes \<times> bytes list \<times> (send_error + unit)) exec" where
  "send_frags quic max_size buf [] = Ret (buf, [], Inr ())"
| "send_frags quic max_size buf (f # fs) =
     exec_bind (send_message quic max_size buf f) (\<lambda>(buf, sent, r).
     case r of
       Inl e \<Rightarrow> Ret (buf, [], Inl e)
     | Inr _ \<Rightarrow>
         exec_bind (send_frags quic max_size buf fs) (\<lambda>(buf, sents, r).
         Ret (buf, (case sent of Some d \<Rightarrow> d # sents | None \<Rightarrow> sents), r)))"

text \<open>\<^verbatim>\<open>random_range(1..=u16::MAX)\<close>.\<close>

definition random_packet_id :: "rng \<Rightarrow> u16" where
  "random_packet_id rng = of_nat (1 + rng 0 65535)"

text \<open>The unfragmented message that \<^verbatim>\<open>send\<close> starts from.\<close>

definition whole_message :: "u32 \<Rightarrow> bytes \<Rightarrow> string \<Rightarrow> udp_message" where
  "whole_message i d a =
     \<lparr>session_id = i, packet_id = 0, frag_id = 0, frag_count = 1, addr = a, data = d\<rparr>"

text \<open>\<^verbatim>\<open>UdpConn::send\<close>: the scratch buffer, the datagrams that left, and the result.\<close>

definition conn_send ::
  "bool \<Rightarrow> (bytes \<Rightarrow> datagram_result) \<Rightarrow> nat option \<Rightarrow> rng \<Rightarrow> u32 \<Rightarrow> bytes \<Rightarrow> bytes \<Rightarrow> string \<Rightarrow>
   (bytes \<times> bytes list \<times> (send_error + unit)) exec" where
  "conn_send checked quic max_size rng i buf d a =
     (let m = whole_message i d a in
      exec_bind (send_message quic max_size buf m) (\<lambda>(buf, sent, r).
      case r of
        Inl (TooLarge mx) \<Rightarrow>
          exec_bind (frag_udp_message checked (m\<lparr>packet_id := random_packet_id rng\<rparr>) mx)
            (send_frags quic max_size buf)
      | _ \<Rightarrow> Ret (buf, (case sent of Some x \<Rightarrow> [x] | None \<Rightarrow> []), r)))"

section \<open>Sessions\<close>

record conn =
  conn_id :: u32
  queue :: "udp_message list"
  conn_defragger :: defragger
  receiver_alive :: bool

record sessions =
  sess_map :: "u32 \<Rightarrow> nat option"
  next_id :: u32
  sess_closed :: bool
  conns :: "conn list"

definition manager_new :: sessions where
  "manager_new = \<lparr>sess_map = Map.empty, next_id = 1, sess_closed = False, conns = []\<rparr>"

text \<open>\<^verbatim>\<open>new_udp\<close> returns the number of the channel of the new session.\<close>

definition new_udp :: "sessions \<Rightarrow> (closed_error + nat) \<times> sessions" where
  "new_udp s =
     (if sess_closed s then (Inl \<lparr>closed_err = None\<rparr>, s)
      else
        let i = next_id s;
            c = \<lparr>conn_id = i, queue = [], conn_defragger = defragger_default, receiver_alive = True\<rparr>
        in (Inr (length (conns s)),
            s\<lparr>next_id := next_id s + 1, sess_map := (sess_map s)(i \<mapsto> length (conns s)),
              conns := conns s @ [c]\<rparr>))"

text \<open>\<^verbatim>\<open>feed\<close>: \<^verbatim>\<open>try_send\<close> fails on a full channel or a dropped receiver.\<close>

definition feed_session :: "udp_message \<Rightarrow> sessions \<Rightarrow> sessions" where
  "feed_session m s =
     (case sess_map s (session_id m) of
        None \<Rightarrow> s
      | Some k \<Rightarrow>
          let c = conns s ! k in
          if length (queue c) < UDP_MESSAGE_CHAN_SIZE \<and> receiver_alive c
          then s\<lparr>conns := (conns s)[k := c\<lparr>queue := queue c @ [m]\<rparr>]\<rparr>
          else s)"

definition close_session :: "nat \<Rightarrow> sessions \<Rightarrow> sessions" where
  "close_session k s = s\<lparr>sess_map := (sess_map s)(conn_id (conns s ! k) := None)\<rparr>"

definition drop_conn :: "nat \<Rightarrow> sessions \<Rightarrow> sessions" where
  "drop_conn k s =
     (let s = close_session k s
      in s\<lparr>conns := (conns s)[k := (conns s ! k)\<lparr>receiver_alive := False\<rparr>]\<rparr>)"

text \<open>The end of \<^verbatim>\<open>run\<close>, when the transport has failed.\<close>

definition close_cleanup :: "sessions \<Rightarrow> sessions" where
  "close_cleanup s = s\<lparr>sess_map := Map.empty, sess_closed := True\<rparr>"

definition session_count :: "sessions \<Rightarrow> nat" where
  "session_count s = card (dom (sess_map s))"

text \<open>
  \<^verbatim>\<open>receive\<close> on what is queued: the loop takes messages until the defragmenter returns one. On an
  empty queue the call waits while the sender lives and ends with end of file otherwise.
\<close>

datatype recv_result = Got bytes string | WouldBlock | Eof

fun receive_loop ::
  "bool \<Rightarrow> bool \<Rightarrow> defragger \<Rightarrow> udp_message list \<Rightarrow> (defragger \<times> udp_message list \<times> recv_result) exec"
where
  "receive_loop checked alive d [] = Ret (d, [], if alive then WouldBlock else Eof)"
| "receive_loop checked alive d (m # ms) =
     exec_bind (feed checked d m) (\<lambda>(d, r).
     case r of
       Some x \<Rightarrow> Ret (d, ms, Got (data x) (addr x))
     | None \<Rightarrow> receive_loop checked alive d ms)"

definition sender_alive :: "nat \<Rightarrow> sessions \<Rightarrow> bool" where
  "sender_alive k s \<longleftrightarrow> sess_map s (conn_id (conns s ! k)) = Some k"

definition receive :: "bool \<Rightarrow> nat \<Rightarrow> sessions \<Rightarrow> (sessions \<times> recv_result) exec" where
  "receive checked k s =
     (let c = conns s ! k in
      exec_bind (receive_loop checked (sender_alive k s) (conn_defragger c) (queue c)) (\<lambda>(d, q, r).
      Ret (s\<lparr>conns := (conns s)[k := c\<lparr>conn_defragger := d, queue := q\<rparr>]\<rparr>, r)))"

section \<open>Runs\<close>

text \<open>
  The events of all tasks. \<open>RunPump\<close> is the background task delivering one inbound message; after
  the cleanup it has ended. Calls name a session that exists.
\<close>

datatype udp_event =
    NewUdp
  | RunPump udp_message
  | RunEnd
  | Receive nat
  | CloseConn nat
  | DropConn nat

fun udp_step :: "bool \<Rightarrow> udp_event \<Rightarrow> sessions \<Rightarrow> sessions" where
  "udp_step checked NewUdp s = snd (new_udp s)"
| "udp_step checked (RunPump m) s = (if sess_closed s then s else feed_session m s)"
| "udp_step checked RunEnd s = close_cleanup s"
| "udp_step checked (Receive k) s =
     (if k < length (conns s)
      then (case receive checked k s of Ret (s', r) \<Rightarrow> s' | Panic \<Rightarrow> s) else s)"
| "udp_step checked (CloseConn k) s = (if k < length (conns s) then close_session k s else s)"
| "udp_step checked (DropConn k) s = (if k < length (conns s) then drop_conn k s else s)"

text \<open>
  \<^verbatim>\<open>QuinnUdpIo::receive_message\<close> on the datagrams to come (\<^verbatim>\<open>Inl\<close> is a connection error): it skips
  those that do not parse; no result is a call that waits. \<open>run_pump\<close> is the task \<^verbatim>\<open>run\<close>.
\<close>

fun receive_message :: "(string + bytes) list \<Rightarrow> ((io_error + udp_message) \<times> (string + bytes) list) option" where
  "receive_message [] = None"
| "receive_message (Inl e # ds) = Some (Inl (OtherIo e), ds)"
| "receive_message (Inr d # ds) =
     (case parse_udp_message d of Inr m \<Rightarrow> Some (Inr m, ds) | Inl _ \<Rightarrow> receive_message ds)"

lemma receive_message_shorter: "receive_message ds = Some (r, ds') \<Longrightarrow> length ds' < length ds"
  by (induction ds rule: receive_message.induct) (auto split: sum.splits)

function run_pump :: "(string + bytes) list \<Rightarrow> sessions \<Rightarrow> sessions" where
  "run_pump ds s =
     (case receive_message ds of
        None \<Rightarrow> s
      | Some (Inr m, ds') \<Rightarrow> run_pump ds' (feed_session m s)
      | Some (Inl e, ds') \<Rightarrow> close_cleanup s)"
  by pat_completeness auto
termination
  by (relation "measure (\<lambda>(ds, s). length ds)") (auto dest: receive_message_shorter)

declare run_pump.simps [simp del]

text \<open>
  Dropping the manager aborts its background task: nothing is routed any more, no session is
  torn down, and no session can be opened. The sessions the consumers hold keep the table alive.
\<close>

datatype manager_event = Managed udp_event | DropManager

fun manager_step :: "bool \<Rightarrow> manager_event \<Rightarrow> sessions \<times> bool \<Rightarrow> sessions \<times> bool" where
  "manager_step checked DropManager (s, up) = (s, False)"
| "manager_step checked (Managed e) (s, up) =
     (case e of
        NewUdp \<Rightarrow> if up then (udp_step checked e s, up) else (s, up)
      | RunPump _ \<Rightarrow> if up then (udp_step checked e s, up) else (s, up)
      | RunEnd \<Rightarrow> if up then (udp_step checked e s, up) else (s, up)
      | _ \<Rightarrow> (udp_step checked e s, up))"

text \<open>The events a sequence of datagrams amounts to.\<close>

fun pump_events :: "(string + bytes) list \<Rightarrow> udp_event list" where
  "pump_events [] = []"
| "pump_events (Inl e # ds) = [RunEnd]"
| "pump_events (Inr d # ds) =
     (case parse_udp_message d of Inr m \<Rightarrow> RunPump m # pump_events ds | Inl _ \<Rightarrow> pump_events ds)"

text \<open>
  The invariant: the map points to sessions of their own id, a closed manager has none, and a
  session's queue holds at most 1024 messages, all of its id, with its defragmenter in order.
\<close>

definition conn_ok :: "conn \<Rightarrow> bool" where
  "conn_ok c \<longleftrightarrow> length (queue c) \<le> UDP_MESSAGE_CHAN_SIZE \<and>
     (\<forall>m\<in>set (queue c). session_id m = conn_id c) \<and> defrag_inv (conn_defragger c) UNIV"

definition udp_inv :: "sessions \<Rightarrow> bool" where
  "udp_inv s \<longleftrightarrow>
     (\<forall>i k. sess_map s i = Some k \<longrightarrow> k < length (conns s) \<and> conn_id (conns s ! k) = i) \<and>
     (sess_closed s \<longrightarrow> sess_map s = Map.empty) \<and>
     (\<forall>k<length (conns s). conn_ok (conns s ! k))"

lemma udp_inv_new: "udp_inv manager_new"
  by (simp add: udp_inv_def manager_new_def)

lemma defrag_inv_default: "defrag_inv defragger_default UNIV"
  using slots_ok_default by (simp add: defrag_inv_def holds_only_def)

lemma new_udp_inv: "udp_inv s \<Longrightarrow> udp_inv (snd (new_udp s))"
  by (auto simp: udp_inv_def new_udp_def conn_ok_def nth_append Let_def less_Suc_eq defrag_inv_default)

lemma feed_session_inv: "udp_inv s \<Longrightarrow> udp_inv (feed_session m s)"
  by (auto simp: udp_inv_def feed_session_def conn_ok_def nth_list_update Let_def
      split: option.splits)

lemma close_session_inv: "udp_inv s \<Longrightarrow> udp_inv (close_session k s)"
  by (auto simp: udp_inv_def close_session_def split: if_splits)

lemma conns_update_inv:
  "udp_inv s \<Longrightarrow> k < length (conns s) \<Longrightarrow> conn_id c = conn_id (conns s ! k) \<Longrightarrow> conn_ok c \<Longrightarrow>
   udp_inv (s\<lparr>conns := (conns s)[k := c]\<rparr>)"
  by (auto simp: udp_inv_def nth_list_update)

lemma drop_conn_inv:
  assumes "udp_inv s" "k < length (conns s)"
  shows "udp_inv (drop_conn k s)"
proof -
  have "conn_ok (conns s ! k)" using assms by (simp add: udp_inv_def)
  then have "conn_ok ((conns s ! k)\<lparr>receiver_alive := False\<rparr>)" by (simp add: conn_ok_def)
  with conns_update_inv [OF close_session_inv [OF assms(1), of k], of k] assms(2) show ?thesis
    by (simp add: drop_conn_def Let_def close_session_def)
qed

lemma receive_loop_suffix:
  "receive_loop checked alive d ms = Ret (d', q, r) \<Longrightarrow> \<exists>pre. ms = pre @ q"
proof (induction ms arbitrary: d)
  case (Cons m ms)
  then obtain d1 x where "feed checked d m = Ret (d1, x)" by (auto simp: exec_bind_eq_Ret)
  with Cons show ?case by (cases x) (auto, metis append_Cons)
qed simp

lemma receive_loop_defrag:
  "receive_loop checked alive d ms = Ret (d', q, r) \<Longrightarrow> defrag_inv d UNIV \<Longrightarrow> defrag_inv d' UNIV"
proof (induction ms arbitrary: d)
  case (Cons m ms)
  then obtain d1 x where f: "feed checked d m = Ret (d1, x)" by (auto simp: exec_bind_eq_Ret)
  with feed_inv [OF Cons.prems(2) UNIV_I f] Cons show ?case by (cases x) auto
qed simp

lemma receive_inv:
  assumes "udp_inv s" "k < length (conns s)" "receive checked k s = Ret (s', r)"
  shows "udp_inv s'"
proof -
  let ?c = "conns s ! k"
  obtain d q where l: "receive_loop checked (sender_alive k s) (conn_defragger ?c) (queue ?c) = Ret (d, q, r)"
    and s': "s' = s\<lparr>conns := (conns s)[k := ?c\<lparr>conn_defragger := d, queue := q\<rparr>]\<rparr>"
    using assms(3) by (auto simp: receive_def exec_bind_eq_Ret Let_def)
  obtain pre where "queue ?c = pre @ q" using receive_loop_suffix [OF l] by blast
  moreover have "conn_ok ?c" using assms(1,2) by (simp add: udp_inv_def)
  ultimately have "conn_ok (?c\<lparr>conn_defragger := d, queue := q\<rparr>)"
    using receive_loop_defrag [OF l] by (auto simp: conn_ok_def)
  then show ?thesis unfolding s' by (intro conns_update_inv assms) simp_all
qed

interpretation udp_run: event_system "udp_step checked" udp_inv
  for checked
proof
  fix s :: sessions and e :: udp_event
  assume inv: "udp_inv s"
  then show "udp_inv (udp_step checked e s)"
  proof (cases e)
    case (Receive k)
    with inv receive_inv [of s k checked] show ?thesis
      by (cases "receive checked k s") auto
  next
    case RunEnd
    with inv show ?thesis by (auto simp: udp_inv_def close_cleanup_def)
  qed (auto simp: new_udp_inv feed_session_inv close_session_inv drop_conn_inv)
qed

section \<open>Delivery and end of file\<close>

lemma receive_loop_feed_all:
  "feed_all checked d ms = Ret (d', replicate n None) \<Longrightarrow> n = length ms \<Longrightarrow>
   receive_loop checked alive d (ms @ q) = receive_loop checked alive d' q"
proof (induction ms arbitrary: d n)
  case (Cons m ms)
  from Cons.prems obtain d1 x d2 outs where f: "feed checked d m = Ret (d1, x)"
    "feed_all checked d1 ms = Ret (d2, outs)" "d2 = d'" "x # outs = replicate n None"
    by (auto simp: exec_bind_eq_Ret)
  with Cons.prems(2) have "x = None" "outs = replicate (length ms) None" by (auto simp: Cons_eq_append_conv)
  with Cons.IH [of d1 "length ms"] f show ?case by simp
qed simp

text \<open>Reassembly as seen by the consumer.\<close>

lemma receive_loop_reassembles:
  assumes "feed_all checked d (ms @ [x]) = Ret (d', replicate (length ms) None @ [Some y])"
  shows "receive_loop checked alive d (ms @ x # q) = Ret (d', q, Got (data y) (addr y))"
proof -
  from assms obtain d1 outs d2 r where f: "feed_all checked d ms = Ret (d1, outs)"
    "feed checked d1 x = Ret (d2, r)" "d2 = d'" "outs @ [r] = replicate (length ms) None @ [Some y]"
    by (auto simp: feed_all_append exec_bind_eq_Ret)
  from f(4) have "outs = replicate (length ms) None" "r = Some y" by simp_all
  with f receive_loop_feed_all [of checked d ms d1 "length ms" alive "x # q"] show ?thesis by simp
qed

lemma receive_drains:
  assumes "feed_all checked d ms \<noteq> Panic"
  shows "\<exists>d' q r. receive_loop checked alive d ms = Ret (d', q, r) \<and>
    (q = ms \<longrightarrow> ms = []) \<and> (r = Eof \<or> r = WouldBlock \<longrightarrow> q = []) \<and>
    (r = Eof \<longrightarrow> \<not> alive) \<and> (r = WouldBlock \<longrightarrow> alive)"
  using assms
proof (induction ms arbitrary: d)
  case (Cons m ms)
  then obtain out where "feed_all checked d (m # ms) = Ret out"
    by (cases "feed_all checked d (m # ms)") auto
  then obtain d1 x where f: "feed checked d m = Ret (d1, x)" "feed_all checked d1 ms \<noteq> Panic"
    by (auto simp: exec_bind_eq_Ret)
  show ?case
  proof (cases x)
    case None
    from Cons.IH [OF f(2)] obtain d' q r where "receive_loop checked alive d1 ms = Ret (d', q, r)"
      "r = Eof \<or> r = WouldBlock \<longrightarrow> q = []" "r = Eof \<longrightarrow> \<not> alive" "r = WouldBlock \<longrightarrow> alive" by blast
    moreover from this(1) have "q \<noteq> m # ms" by (auto dest: receive_loop_suffix)
    ultimately show ?thesis using f(1) None by auto
  qed (use f(1) in auto)
qed simp

section \<open>Sending and reassembling\<close>

text \<open>A QUIC connection whose datagrams may be at most \<open>mx\<close> bytes.\<close>

definition quic_limit :: "nat \<Rightarrow> bytes \<Rightarrow> datagram_result" where
  "quic_limit mx d = (if length d \<le> mx then DatagramOk else DatagramTooLarge)"

lemma length_udp_wire:
  "length (addr m) < 2 ^ 62 \<Longrightarrow> length (udp_wire m) = udp_size m"
  by (simp add: udp_wire_def udp_size_def header_size_def length_varint_wire of_nat_varint_ok Let_def)

lemma send_message_limit:
  assumes "length (addr m) < 2 ^ 62"
  shows "send_message (quic_limit mx) (Some mx) buf m =
    (if length buf < udp_size m then Ret (buf, None, Inr ())
     else if udp_size m \<le> mx
     then Ret (udp_wire m @ drop (udp_size m) buf, Some (udp_wire m), Inr ())
     else Ret (udp_wire m @ drop (udp_size m) buf, None, Inl (TooLarge mx)))"
  using length_udp_wire [OF assms]
  by (simp add: send_message_def serialize_wire [OF assms] quic_limit_def)

lemma send_frags_limit:
  assumes "\<And>f. f \<in> set fs \<Longrightarrow> length (addr f) < 2 ^ 62 \<and> udp_size f \<le> mx \<and> udp_size f \<le> length buf"
  shows "\<exists>buf'. send_frags (quic_limit mx) (Some mx) buf fs = Ret (buf', map udp_wire fs, Inr ())"
  using assms
proof (induction fs arbitrary: buf)
  case (Cons f fs)
  have f: "length (addr f) < 2 ^ 62" "udp_size f \<le> mx" "udp_size f \<le> length buf"
    using Cons.prems [of f] by auto
  let ?buf = "udp_wire f @ drop (udp_size f) buf"
  have "length ?buf = length buf" using f length_udp_wire [OF f(1)] by simp
  then have "\<exists>buf'. send_frags (quic_limit mx) (Some mx) ?buf fs = Ret (buf', map udp_wire fs, Inr ())"
    using Cons.prems by (intro Cons.IH) auto
  with f show ?case by (auto simp: send_message_limit)
qed simp

lemma nth_frag_ok:
  assumes "udp_ok m" "0 < mps" "i * mps < length (data m)"
  shows "udp_ok (nth_frag m mps n i)"
  using assms by (auto simp: udp_ok_def nth_frag_def)

lemma nth_frag_size_le: "udp_size (nth_frag m mps n i) \<le> udp_size m"
  by (simp add: udp_size_def nth_frag_def header_size_def Let_def)

lemma frag_family_image: "g ` {..<n} = set (map g [0..<n])"
  by auto

text \<open>The fragments of one message, in order, through a new session's receive loop.\<close>

lemma fragments_received:
  assumes "mx < udp_size m" "header_size m < mx"
    and "div_ceil (length (data m)) (mx - header_size m) < 256" "packet_id m \<noteq> 0"
    and fs: "frag_udp_message checked m mx = Ret fs"
  shows "\<exists>d'. receive_loop checked alive defragger_default fs = Ret (d', [], Got (data m) (addr m))"
proof -
  let ?mps = "mx - header_size m" and ?n = "div_ceil (length (data m)) (mx - header_size m)"
  let ?g = "nth_frag m ?mps ?n"
  have fs_eq: "fs = map ?g [0..<?n]"
    using frag_udp_message_spec [OF assms(1,2) refl assms(3), of checked] fs by simp
  have mps: "?mps < length (data m)" "0 < ?mps" using assms(1,2) by (auto simp: udp_size_def)
  have two: "2 \<le> ?n" using div_ceil_two [OF mps(2,1)] .
  have fam: "frag_family ?g ?n (packet_id m)" by (rule frag_family_nth_frag [OF two assms(3)])
  obtain k where k: "?n = Suc k" using two by (cases ?n) auto
  have split: "fs = map ?g [0..<k] @ [?g k]" by (simp add: fs_eq k)
  have last: "?g k \<notin> set (map ?g [0..<k])"
    using frag_family_fields(1) [OF fam] k by (auto dest!: arg_cong [of _ _ "\<lambda>f. unat (frag_id f)"])
  have "set (map ?g [0..<k] @ [?g k]) = ?g ` {..<?n}"
    using frag_family_image [of ?g ?n] by (simp add: k atLeast0LessThan lessThan_Suc)
  from feed_all_family [OF fam _ this last, of defragger_default checked] assms(4)
  have "\<exists>d'. feed_all checked defragger_default (map ?g [0..<k] @ [?g k]) =
    Ret (d', replicate (length (map ?g [0..<k])) None @
      [Some ((?g k)\<lparr>data := concat (map (data \<circ> ?g) [0..<?n]), frag_id := 0, frag_count := 1\<rparr>)])"
    by (auto simp: defragger_default_def)
  then obtain d' where "feed_all checked defragger_default (map ?g [0..<k] @ [?g k]) =
    Ret (d', replicate (length (map ?g [0..<k])) None @
      [Some ((?g k)\<lparr>data := data m, frag_id := 0, frag_count := 1\<rparr>)])"
    using nth_frag_data [OF mps(2) refl, of m] by auto
  from receive_loop_reassembles [OF this, of alive "[]"] show ?thesis
    by (auto simp: split nth_frag_def)
qed

lemma random_packet_id_nonzero: "rng_ok rng \<Longrightarrow> random_packet_id rng \<noteq> 0"
proof -
  assume "rng_ok rng"
  then have "rng 0 65535 < 65535" by (simp add: rng_ok_def)
  then have "unat (random_packet_id rng) = 1 + rng 0 65535"
    unfolding random_packet_id_def by (subst unat_of_nat) simp
  then show ?thesis by (metis add_eq_0_iff_both_eq_0 one_neq_zero unsigned_0)
qed

lemma conn_send_cases:
  assumes "udp_ok m" "udp_size m \<le> length buf" "header_size m < mx"
    and m: "m = whole_message i d a"
    and "div_ceil (length d) (mx - header_size m) < 256"
  shows "\<exists>buf' fs. conn_send checked (quic_limit mx) (Some mx) rng i buf d a =
      Ret (buf', map udp_wire fs, Inr ()) \<and> (\<forall>f\<in>set fs. udp_ok f \<and> udp_size f \<le> mx) \<and>
    (if udp_size m \<le> mx then fs = [m]
     else frag_udp_message checked (m\<lparr>packet_id := random_packet_id rng\<rparr>) mx = Ret fs)"
proof (cases "udp_size m \<le> mx")
  case True
  have "length (addr m) < 2 ^ 62" using assms(1) by (simp add: udp_ok_def)
  from send_message_limit [OF this, of mx buf] True assms(1,2) show ?thesis
    by (intro exI [of _ "udp_wire m @ drop (udp_size m) buf"] exI [of _ "[m]"])
       (simp add: conn_send_def m [symmetric])
next
  case False
  let ?m = "m\<lparr>packet_id := random_packet_id rng\<rparr>"
  let ?mps = "mx - header_size m" and ?n = "div_ceil (length d) (mx - header_size m)"
  let ?buf = "udp_wire m @ drop (udp_size m) buf"
  have a: "length (addr m) < 2 ^ 62" using assms(1) by (simp add: udp_ok_def)
  have hs: "header_size ?m = header_size m" "udp_size ?m = udp_size m"
    by (simp_all add: header_size_def udp_size_def Let_def)
  have fs: "frag_udp_message checked ?m mx = Ret (map (nth_frag ?m ?mps ?n) [0..<?n])"
    using frag_udp_message_spec [of mx ?m ?n checked] False assms(3,5) hs
    by (simp add: m whole_message_def)
  have frag: "udp_ok f \<and> udp_size f \<le> mx \<and> udp_size f \<le> length ?buf \<and> length (addr f) < 2 ^ 62"
    if f: "f \<in> set (map (nth_frag ?m ?mps ?n) [0..<?n])" for f
  proof -
    from f obtain j where j: "j < ?n" "f = nth_frag ?m ?mps ?n j" by auto
    have "j * ?mps < length d" using j(1) div_ceil_less [of ?mps j "length d"] assms(3) by simp
    then have "udp_ok f" unfolding j(2)
      using assms(1,3) by (intro nth_frag_ok) (simp_all add: udp_ok_def m whole_message_def)
    moreover have "udp_size f \<le> mx" unfolding j(2) using nth_frag_size [of ?m mx ?n j] assms(3) hs by simp
    moreover have "udp_size f \<le> udp_size m" unfolding j(2) using nth_frag_size_le [of ?m] hs by metis
    moreover have "length ?buf = length buf" using assms(2) length_udp_wire [OF a] by simp
    moreover have "addr f = addr m" unfolding j(2) by (simp add: nth_frag_def)
    ultimately show ?thesis using a assms(2) by auto
  qed
  obtain buf' where sf: "send_frags (quic_limit mx) (Some mx) ?buf (map (nth_frag ?m ?mps ?n) [0..<?n]) =
      Ret (buf', map udp_wire (map (nth_frag ?m ?mps ?n) [0..<?n]), Inr ())"
    using send_frags_limit [of "map (nth_frag ?m ?mps ?n) [0..<?n]" mx ?buf] frag by blast
  have "send_message (quic_limit mx) (Some mx) buf m = Ret (?buf, None, Inl (TooLarge mx))"
    using send_message_limit [OF a, of mx buf] False assms(2) by simp
  then have "conn_send checked (quic_limit mx) (Some mx) rng i buf d a =
      Ret (buf', map udp_wire (map (nth_frag ?m ?mps ?n) [0..<?n]), Inr ())"
    unfolding conn_send_def Let_def m [symmetric] by (simp add: fs sf)
  with fs frag False show ?thesis by (intro exI conjI) auto
qed

text \<open>What a new session at the other end makes of the pieces.\<close>

lemma sent_received:
  assumes "m = whole_message i d a" "rng_ok rng" "header_size m < mx" "div_ceil (length d) (mx - header_size m) < 256"
    and "if udp_size m \<le> mx then fs = [m] else frag_udp_message checked (m\<lparr>packet_id := random_packet_id rng\<rparr>) mx = Ret fs"
  shows "\<exists>d'. receive_loop checked alive defragger_default fs = Ret (d', [], Got d a)"
proof (cases "udp_size m \<le> mx")
  case True
  with assms(5) show ?thesis by (simp add: feed_def assms(1) whole_message_def)
next
  case False
  let ?m = "m\<lparr>packet_id := random_packet_id rng\<rparr>"
  have "header_size ?m = header_size m" "udp_size ?m = udp_size m" "data ?m = d" "addr ?m = a"
    by (simp_all add: header_size_def udp_size_def assms(1) whole_message_def Let_def)
  with fragments_received [of mx ?m checked fs alive] False assms(3-5) random_packet_id_nonzero [OF assms(2)]
  show ?thesis by simp
qed

section \<open>A manager that is dropped\<close>

text \<open>A session that waits: its sender is in the table and nothing is queued.\<close>

definition waits :: "nat \<Rightarrow> sessions \<Rightarrow> bool" where
  "waits k s \<longleftrightarrow> k < length (conns s) \<and> sender_alive k s \<and> queue (conns s ! k) = []"

lemma nth_update_if: "xs[i := x] ! j = (if i = j \<and> j < length xs then x else xs ! j)"
  by (cases "i < length xs") (auto simp: nth_list_update list_update_beyond)

lemma waits_receive: "waits k s \<Longrightarrow> receive checked k s = Ret (s, WouldBlock)"
proof -
  assume w: "waits k s"
  have "(conns s ! k)\<lparr>queue := []\<rparr> = conns s ! k" using w by (simp add: waits_def)
  then have same: "(conns s)[k := (conns s ! k)\<lparr>queue := []\<rparr>] = conns s" by (metis list_update_id)
  from w show ?thesis by (simp add: receive_def waits_def Let_def same)
qed

text \<open>An event that closes or drops session \<open>k\<close> of \<open>s\<close>, or another with the same id.\<close>

fun closes :: "sessions \<Rightarrow> nat \<Rightarrow> manager_event \<Rightarrow> bool" where
  "closes s k (Managed (CloseConn j)) = (conn_id (conns s ! j) = conn_id (conns s ! k))"
| "closes s k (Managed (DropConn j)) = (conn_id (conns s ! j) = conn_id (conns s ! k))"
| "closes s k _ = False"

lemma receive_keeps:
  assumes "receive checked j s = Ret (s', r)" "j < length (conns s)" "waits k s"
  shows "waits k s' \<and> (\<forall>i. conn_id (conns s' ! i) = conn_id (conns s ! i))"
proof (cases "j = k")
  case True
  with waits_receive [OF assms(3)] assms show ?thesis by auto
next
  case False
  with assms show ?thesis
    by (auto simp: receive_def waits_def sender_alive_def exec_bind_eq_Ret Let_def nth_update_if)
qed

lemma dropped_step_waits:
  assumes "waits k s" "\<not> closes s k e"
  shows "\<exists>s'. manager_step checked e (s, False) = (s', False) \<and> waits k s' \<and>
    (\<forall>i. conn_id (conns s' ! i) = conn_id (conns s ! i))"
proof (cases e)
  case (Managed x)
  show ?thesis
  proof (cases x)
    case (Receive j)
    show ?thesis
    proof (cases "receive checked j s")
      case (Ret out)
      with Managed Receive assms(1) receive_keeps [of checked j s _ _ k] show ?thesis
        by (cases "j < length (conns s)") (auto split: prod.splits)
    qed (use Managed Receive assms(1) in auto)
  next
    case (CloseConn j)
    with Managed assms show ?thesis by (auto simp: waits_def sender_alive_def close_session_def)
  next
    case (DropConn j)
    with Managed assms show ?thesis
      by (auto simp: waits_def sender_alive_def drop_conn_def close_session_def Let_def nth_update_if)
  qed (use Managed assms(1) in auto)
qed (use assms(1) in auto)

lemma dropped_run_waits:
  assumes "waits k s" "\<forall>e\<in>set es. \<not> closes s k e"
  shows "\<exists>s'. fold (manager_step checked) es (s, False) = (s', False) \<and> waits k s'"
  using assms
proof (induction es arbitrary: s)
  case (Cons e es)
  obtain s1 where s1: "manager_step checked e (s, False) = (s1, False)" "waits k s1"
    "\<forall>i. conn_id (conns s1 ! i) = conn_id (conns s ! i)"
    using dropped_step_waits [OF Cons.prems(1), of e checked] Cons.prems(2) by auto
  have "closes s1 k x = closes s k x" for x
    using s1(3) by (cases "(s1, k, x)" rule: closes.cases) auto
  with Cons.IH [OF s1(2)] Cons.prems(2) s1(1) show ?case by simp
qed simp

section \<open>Properties\<close>

text \<open>
  C6. Sessions are isolated: from a new manager, under any interleaving of session creation,
  inbound messages, receives, closes, drops and the transport's end, a session's queue only ever
  holds messages of its own session id and at most 1024 of them, and the routing table maps an id
  to a session of that id; once the transport has ended the table is empty.
\<close>

theorem udp_sessions_isolated:
  "let s = fold (udp_step checked) es manager_new in
     (\<forall>k<length (conns s). length (queue (conns s ! k)) \<le> 1024 \<and>
        (\<forall>m\<in>set (queue (conns s ! k)). session_id m = conn_id (conns s ! k))) \<and>
     (\<forall>i k. sess_map s i = Some k \<longrightarrow> k < length (conns s) \<and> conn_id (conns s ! k) = i) \<and>
     (sess_closed s \<longrightarrow> session_count s = 0)"
  using udp_run.run_inv [OF udp_inv_new, of checked es]
  by (auto simp: udp_inv_def conn_ok_def Let_def UDP_MESSAGE_CHAN_SIZE_def session_count_def)

theorem udp_sessions_isolated_witness:
  "let s = fold (udp_step True) [NewUdp, NewUdp, RunPump
       \<lparr>session_id = 2, packet_id = 0, frag_id = 0, frag_count = 1, addr = ''h:1'', data = [5]\<rparr>] manager_new
   in length (queue (conns s ! 1)) \<le> 1024 \<and> queue (conns s ! 0) = []"
proof -
  let ?es = "[NewUdp, NewUdp, RunPump
       \<lparr>session_id = 2, packet_id = 0, frag_id = 0, frag_count = 1, addr = ''h:1'', data = [5]\<rparr>]"
  have e: "queue (conns (fold (udp_step True) ?es manager_new) ! 0) = []"
    "length (conns (fold (udp_step True) ?es manager_new)) = 2"
    by (simp_all add: new_udp_def manager_new_def feed_session_def UDP_MESSAGE_CHAN_SIZE_def)
  with udp_sessions_isolated [where es = ?es and checked = True] show ?thesis unfolding Let_def by simp
qed

text \<open>
  After the transport has ended, in any state the manager can reach: opening a session fails
  with a closed error, and a receive never waits. It returns a queued message, or end of file with
  the queue empty; in the release profile it never panics.
\<close>

lemma udp_closed_drains:
  assumes "s = fold (udp_step False) es manager_new" "sess_closed s" "k < length (conns s)"
  shows "fst (new_udp s) = Inl \<lparr>closed_err = None\<rparr> \<and>
    (\<exists>s' r. receive False k s = Ret (s', r) \<and> r \<noteq> WouldBlock \<and>
       (r = Eof \<longrightarrow> queue (conns s' ! k) = []) \<and> (queue (conns s ! k) = [] \<longrightarrow> r = Eof))"
proof -
  have inv: "udp_inv s" unfolding assms(1) by (rule udp_run.run_inv [OF udp_inv_new])
  let ?c = "conns s ! k"
  have dead: "\<not> sender_alive k s" using inv assms(2) by (simp add: udp_inv_def sender_alive_def)
  have "defrag_inv (conn_defragger ?c) UNIV" using inv assms(3) by (simp add: udp_inv_def conn_ok_def)
  from feed_all_inv [OF this subset_UNIV, where checked = False and ms = "queue ?c"]
  have np: "feed_all False (conn_defragger ?c) (queue ?c) \<noteq> Panic" by auto
  from receive_drains [OF np, of "sender_alive k s"] obtain d' q r where
    l: "receive_loop False (sender_alive k s) (conn_defragger ?c) (queue ?c) = Ret (d', q, r)"
      "r = Eof \<or> r = WouldBlock \<longrightarrow> q = []" "r = WouldBlock \<longrightarrow> sender_alive k s" by blast
  have "queue ?c = [] \<longrightarrow> r = Eof" using l(1) dead by auto
  with l dead assms(2,3) show ?thesis by (auto simp: new_udp_def receive_def Let_def)
qed

text \<open>
  C24. A datagram sent through a session whose connection takes datagrams of at most \<open>mx\<close> bytes
  arrives: the message is sent whole when it fits and in at most 255 fragments otherwise, no
  datagram exceeds \<open>mx\<close>, each parses at the other end, and a new session receiving them returns
  exactly the payload and address sent. It holds for messages up to the 4096-byte scratch buffer.
\<close>

theorem udp_send_receive:
  assumes "m = whole_message i d a"
    and "rng_ok rng" "udp_ok m" "udp_size m \<le> MAX_UDP_SIZE" "length buf = MAX_UDP_SIZE"
    and "header_size m < mx" "div_ceil (length d) (mx - header_size m) < 256"
  shows "\<exists>buf' ds fs d'. conn_send checked (quic_limit mx) (Some mx) rng i buf d a = Ret (buf', ds, Inr ()) \<and>
    (\<forall>x\<in>set ds. length x \<le> mx) \<and> map parse_udp_message ds = map Inr fs \<and>
    receive_loop checked True defragger_default fs = Ret (d', [], Got d a)"
proof -
  have fits: "udp_size m \<le> length buf" using assms(4,5) by simp
  obtain buf' fs where
    send: "conn_send checked (quic_limit mx) (Some mx) rng i buf d a = Ret (buf', map udp_wire fs, Inr ())"
    and fs: "\<forall>f\<in>set fs. udp_ok f \<and> udp_size f \<le> mx"
    and how: "if udp_size m \<le> mx then fs = [m]
      else frag_udp_message checked (m\<lparr>packet_id := random_packet_id rng\<rparr>) mx = Ret fs"
    using conn_send_cases [OF assms(3) fits assms(6) assms(1,7), of checked rng]
    by blast
  have len: "\<forall>x\<in>set (map udp_wire fs). length x \<le> mx"
    using fs length_udp_wire by (auto simp: udp_ok_def)
  have parse: "map parse_udp_message (map udp_wire fs) = map Inr fs"
    using fs parse_udp_wire by simp
  from send len parse sent_received [OF assms(1,2,6,7) how, of True] show ?thesis by blast
qed

theorem udp_send_receive_witness:
  "\<exists>buf' ds fs d'. conn_send True (quic_limit 14) (Some 14) (\<lambda>k n. 0) 7 (replicate MAX_UDP_SIZE 0) [1, 2, 3] ''h:53''
      = Ret (buf', ds, Inr ()) \<and> map parse_udp_message ds = map Inr fs \<and>
     receive_loop True True defragger_default fs = Ret (d', [], Got [1, 2, 3] ''h:53'')"
proof -
  let ?m = "whole_message 7 [1, 2, 3] ''h:53''"
  have h: "header_size ?m = 13" "udp_size ?m = 16"
    by (simp_all add: header_size_def udp_size_def varint_len_def MAX_VAR_INT1_def whole_message_def)
  have ok: "udp_ok ?m" by (simp add: udp_ok_def is_str_def as_bytes_def whole_message_def)
  have r: "rng_ok (\<lambda>k n. 0)" by (simp add: rng_ok_def)
  have "length (replicate MAX_UDP_SIZE (0 :: u8)) = MAX_UDP_SIZE" "udp_size ?m \<le> MAX_UDP_SIZE"
    "header_size ?m < 14" "div_ceil (length [1, 2, 3 :: u8]) (14 - header_size ?m) < 256"
    by (simp_all add: h div_ceil_def)
  with udp_send_receive [OF refl r ok, of "replicate MAX_UDP_SIZE 0" 14 True] show ?thesis by blast
qed

text \<open>
  C25. The background task refines the event system: on any sequence of datagrams it does exactly
  one routing step for each datagram that parses, in order, skips the others, and on a connection
  error tears every session down and stops.
\<close>

theorem run_pump_refines:
  assumes "\<not> sess_closed s"
  shows "run_pump ds s = fold (udp_step checked) (pump_events ds) s \<and>
    (sess_closed (run_pump ds s) \<longleftrightarrow> (\<exists>e. Inl e \<in> set ds))"
  using assms
proof (induction ds arbitrary: s rule: pump_events.induct)
  case (3 d ds)
  show ?case
  proof (cases "parse_udp_message d")
    case (Inl e)
    then have "run_pump (Inr d # ds) s = run_pump ds s"
      by (simp add: run_pump.simps [of "_ # _"] run_pump.simps [of ds])
    with 3(1) [OF Inl 3(3)] Inl show ?thesis by auto
  next
    case (Inr m)
    have "sess_closed (feed_session m s) = sess_closed s"
      by (simp add: feed_session_def Let_def split: option.splits)
    with 3(2) [OF Inr, of "feed_session m s"] 3(3) Inr show ?thesis
      by (auto simp: run_pump.simps [of "_ # _"])
  qed
qed (auto simp: run_pump.simps close_cleanup_def)

theorem run_pump_refines_witness:
  "run_pump [Inr [1, 2], Inl ''lost''] manager_new = close_cleanup manager_new"
proof -
  have "parse_udp_message [1, 2] = Inl UnexpectedEof" by code_simp
  then show ?thesis
    using run_pump_refines [of manager_new "[Inr [1, 2], Inl ''lost'']" True]
    by (simp add: manager_new_def)
qed

text \<open>
  C36. A manager that is dropped leaves its sessions waiting for good: whatever happens afterwards, a
  receive on a session with nothing queued that nobody closes waits and never reports the end,
  although a session whose transport has ended reports it.
\<close>

theorem dropped_manager_waits:
  assumes "k < length (conns s)" "sender_alive k s" "queue (conns s ! k) = []" "\<forall>e\<in>set es. \<not> closes s k e"
  shows "\<exists>s'. fold (manager_step checked) (DropManager # es) (s, True) = (s', False) \<and>
    receive checked k s' = Ret (s', WouldBlock) \<and>
    (\<exists>s''. receive checked k (fst (manager_step checked (Managed RunEnd) (s, True))) = Ret (s'', Eof))"
proof -
  have w: "waits k s" using assms(1-3) by (simp add: waits_def)
  from dropped_run_waits [OF w assms(4)] obtain s' where
    "fold (manager_step checked) (DropManager # es) (s, True) = (s', False)" "waits k s'" by auto
  moreover have "\<exists>s''. receive checked k (fst (manager_step checked (Managed RunEnd) (s, True))) = Ret (s'', Eof)"
    using assms(1,3) by (simp add: close_cleanup_def receive_def sender_alive_def Let_def)
  ultimately show ?thesis using waits_receive by blast
qed

theorem dropped_manager_waits_witness:
  "\<exists>s'. fold (manager_step True) [DropManager, Managed RunEnd, Managed (CloseConn 1)]
      (fold (udp_step True) [NewUdp, NewUdp] manager_new, True) = (s', False) \<and> receive True 0 s' = Ret (s', WouldBlock)"
proof -
  let ?s = "fold (udp_step True) [NewUdp, NewUdp] manager_new"
  have s: "0 < length (conns ?s)" "sender_alive 0 ?s" "queue (conns ?s ! 0) = []" "\<forall>e\<in>set [Managed RunEnd, Managed (CloseConn 1)]. \<not> closes ?s 0 e"
    by (simp_all add: new_udp_def manager_new_def sender_alive_def)
  from dropped_manager_waits [OF s, of True] show ?thesis by blast
qed

end
