(* ===== verification/Tls.thy ===== *)
theory Tls
  imports ClientConfig
begin

text \<open>
  The TLS client configuration, \<^verbatim>\<open>crates/hysteria/src/client/tls.rs\<close>. What the calls into rustls
  return is a parameter; the result records whom the configuration trusts and what it negotiates.
\<close>

definition ALPN_H3 :: bytes where "ALPN_H3 = as_bytes ''h3''"

datatype trust = TrustCa bytes | TrustPlatform

record rustls_config =
  rustls_trust :: trust
  alpn_protocols :: "bytes list"

text \<open>The outcome of each fallible call: \<^verbatim>\<open>None\<close> is success.\<close>

record rustls_env =
  re_versions :: "string option"
  re_add_root :: "bytes \<Rightarrow> string option"
  re_platform :: "string option"
  re_quic :: "rustls_config \<Rightarrow> string option"

definition tls_err :: "string option \<Rightarrow> config_error + unit" where
  "tls_err r = (case r of Some e \<Rightarrow> Inl \<lparr>field = ''TLSConfig'', reason = e\<rparr> | None \<Rightarrow> Inr ())"

definition build_rustls_client_config :: "rustls_env \<Rightarrow> tls_config \<Rightarrow> config_error + rustls_config" where
  "build_rustls_client_config re tls =
     and_then (tls_err (re_versions re)) (\<lambda>_.
     and_then
       (case ca tls of
          Some c \<Rightarrow> and_then (tls_err (re_add_root re c)) (\<lambda>_. Inr (TrustCa c))
        | None \<Rightarrow> and_then (tls_err (re_platform re)) (\<lambda>_. Inr TrustPlatform)) (\<lambda>t.
     Inr \<lparr>rustls_trust = t, alpn_protocols = [ALPN_H3]\<rparr>))"

text \<open>A supplied CA replaces the trust store of the platform, and HTTP/3 is all that is offered.\<close>

lemma rustls_trusts:
  "build_rustls_client_config re tls = Inr rc \<Longrightarrow>
     rustls_trust rc = (case ca tls of Some c \<Rightarrow> TrustCa c | None \<Rightarrow> TrustPlatform) \<and>
     alpn_protocols rc = [ALPN_H3]"
  by (auto simp: build_rustls_client_config_def and_then_eq_Inr split: option.splits)

lemma rustls_rejects:
  "ca tls = Some c \<Longrightarrow> re_add_root re c \<noteq> None \<Longrightarrow> \<exists>e. build_rustls_client_config re tls = Inl e"
  by (cases "re_versions re") (auto simp: build_rustls_client_config_def tls_err_def)

end
