(* ===== verification/Transport.thy ===== *)
theory Transport
  imports AuthHeader Sockets UdpSession Tls
begin

text \<open>
  The client proper, \<^verbatim>\<open>crates/hysteria/src/client/transport.rs\<close>: connecting and authenticating,
  opening a proxied TCP stream with or without fast open, and reading from it. The QUIC and HTTP/3
  libraries are parameters: what each call returned. A receive stream is the list of what its
  reads will yield, in order; an empty list is a stream on which a read waits.
\<close>

section \<open>Connecting\<close>

record handshake_info =
  info_udp_enabled :: bool
  info_tx :: u64
  info_server_addr :: socket_addr

definition effective_tx :: "bool \<Rightarrow> u64 \<Rightarrow> u64 \<Rightarrow> u64" where
  "effective_tx auto server_rx client_tx =
     (if auto then 0
      else if server_rx = 0 \<or> client_tx < server_rx then client_tx
      else server_rx)"

definition CLOSE_ERR_CODE_OK :: u32 where "CLOSE_ERR_CODE_OK = 0x100"
definition CLOSE_ERR_CODE_PROTOCOL_ERROR :: u32 where "CLOSE_ERR_CODE_PROTOCOL_ERROR = 0x101"

text \<open>
  The \<^verbatim>\<open>anyhow\<close> errors of the authentication stage, by whether they downcast to
  \<^verbatim>\<open>AuthError\<close>.
\<close>

datatype auth_failure = AuthRejected auth_error | AuthBroken string

text \<open>
  What the HTTP/3 calls return: an error text or success, the request's empty headers, and the
  response as a function of the headers sent.
\<close>

record 'h h3_calls =
  h3_new :: "string option"
  h3_build :: "string \<Rightarrow> string + 'h"
  h3_send :: "'h \<Rightarrow> string option"
  h3_finish :: "string option"
  h3_response :: "'h \<Rightarrow> string + (u16 \<times> 'h)"

definition h3_check :: "string option \<Rightarrow> auth_failure + unit" where
  "h3_check r = (case r of Some e \<Rightarrow> Inl (AuthBroken (display_connect_error \<lparr>connect_err = e\<rparr>)) | None \<Rightarrow> Inr ())"

definition auth_uri :: string where
  "auth_uri = ''https://'' @ URL_HOST @ URL_PATH"

text \<open>
  \<^verbatim>\<open>authenticate\<close>: whether UDP is enabled and the effective rate.
\<close>

definition authenticate ::
  "'h header_ops \<Rightarrow> 'h h3_calls \<Rightarrow> rng \<Rightarrow> config \<Rightarrow> auth_failure + (bool \<times> u64)" where
  "authenticate ops h rng c =
     and_then (h3_check (h3_new h)) (\<lambda>_.
     and_then (case h3_build h auth_uri of Inl e \<Rightarrow> Inl (AuthBroken ''build auth request'') | Inr r \<Rightarrow> Inr r) (\<lambda>r.
     let request = auth_request_to_header (header_map_set ops) rng r
                     \<lparr>req_auth = config_auth c, req_rx = max_rx (bandwidth c)\<rparr> in
     and_then (h3_check (h3_send h request)) (\<lambda>_.
     and_then (h3_check (h3_finish h)) (\<lambda>_.
     and_then (case h3_response h request of
                 Inl e \<Rightarrow> Inl (AuthBroken (display_connect_error \<lparr>connect_err = e\<rparr>))
               | Inr x \<Rightarrow> Inr x) (\<lambda>(status, headers).
     if status \<noteq> STATUS_AUTH_OK then Inl (AuthRejected \<lparr>auth_status_code = uint status\<rparr>)
     else
       let resp = auth_response_from_header (header_map_get ops headers)
       in Inr (udp_enabled resp, effective_tx (rx_auto resp) (resp_rx resp) (max_tx (bandwidth c))))))))"

text \<open>The connection is closed with a protocol error when the credential is refused.\<close>

fun auth_close :: "auth_failure + 'a \<Rightarrow> u32 option" where
  "auth_close (Inl (AuthRejected e)) = Some CLOSE_ERR_CODE_PROTOCOL_ERROR"
| "auth_close _ = None"

datatype handshake_error = HandshakeTimedOut | HandshakeOther string

fun categorize_handshake :: "handshake_error \<Rightarrow> connect_failure" where
  "categorize_handshake HandshakeTimedOut = FailTimeout ''timed out''"
| "categorize_handshake (HandshakeOther e) = FailUnreachable e"

fun categorize_auth :: "auth_failure \<Rightarrow> connect_failure" where
  "categorize_auth (AuthRejected e) = FailAuth (display_auth_error e)"
| "categorize_auth (AuthBroken e) = FailUnreachable e"

text \<open>\<^verbatim>\<open>IpAddr::to_canonical\<close>: an IPv4-mapped IPv6 address as IPv4.\<close>

definition to_canonical :: "ip_addr \<Rightarrow> ip_addr" where
  "to_canonical a =
     (case a of
        V4 x \<Rightarrow> V4 x
      | V6 w \<Rightarrow> if drop_bit 32 w = 0xFFFF then V4 (ucast w) else V6 w)"

text \<open>\<^verbatim>\<open>VarInt::from_u64\<close> takes values below \<open>2 ^ 62\<close>.\<close>

definition to_varint :: "u64 \<Rightarrow> string + u64" where
  "to_varint v = (if unat v < 2 ^ 62 then Inr v else Inl ''value exceeds QUIC varint range'')"

datatype congestion = Brutal u64 | Bbr

record transport_config =
  stream_receive_window :: u64
  receive_window :: u64
  idle_timeout :: duration
  keep_alive_interval :: duration
  datagram_receive_buffer :: nat
  datagram_send_buffer :: nat
  mtu_discovery :: bool
  congestion_control :: congestion
  quic_tls :: rustls_config

text \<open>\<^verbatim>\<open>build_quic_client_config\<close>: \<open>idle\<close> is the outcome of converting the idle timeout.\<close>

definition quic_crypto :: "rustls_env \<Rightarrow> config \<Rightarrow> string + rustls_config" where
  "quic_crypto re c =
     (case build_rustls_client_config re (config_tls c) of
        Inl e \<Rightarrow> Inl (display_config_error e)
      | Inr rc \<Rightarrow> (case re_quic re rc of Some e \<Rightarrow> Inl (''QUIC TLS config: '' @ e) | None \<Rightarrow> Inr rc))"

definition build_quic_client_config ::
  "rustls_env \<Rightarrow> (duration \<Rightarrow> string option) \<Rightarrow> config \<Rightarrow> string + transport_config" where
  "build_quic_client_config re idle c =
     and_then (quic_crypto re c) (\<lambda>rc.
     and_then (to_varint (max_stream_receive_window (quic c))) (\<lambda>sw.
     and_then (to_varint (max_connection_receive_window (quic c))) (\<lambda>cw.
     case idle (max_idle_timeout (quic c)) of
       Some e \<Rightarrow> Inl (''max idle timeout: '' @ e)
     | None \<Rightarrow>
         Inr \<lparr>stream_receive_window = sw, receive_window = cw,
              idle_timeout = max_idle_timeout (quic c),
              keep_alive_interval = keep_alive_period (quic c),
              datagram_receive_buffer = MAX_UDP_SIZE * 1024,
              datagram_send_buffer = MAX_UDP_SIZE * 1024,
              mtu_discovery = (\<not> disable_path_mtu_discovery (quic c)),
              congestion_control =
                (if 0 < max_tx (bandwidth c) then Brutal (max_tx (bandwidth c)) else Bbr),
              quic_tls = rc\<rparr>)))"

text \<open>The socket layers \<^verbatim>\<open>build_endpoint\<close> composes.\<close>

datatype endpoint =
    PlainEndpoint socket_addr
  | LayeredEndpoint socket_addr "salamander option" "(socket_addr \<times> hop_state) option"

definition hop_addrs :: "config \<Rightarrow> socket_addr list option" where
  "hop_addrs c =
     (case hop_ports c of
        None \<Rightarrow> None
      | Some u \<Rightarrow>
          let as = map (\<lambda>p. (fst (server_addr c), p)) (ports u)
          in if as \<noteq> [] then Some as else None)"

text \<open>The outcome of each call that creates the socket.\<close>

record bind_env =
  be_client :: "socket_addr \<Rightarrow> string option"
  be_runtime :: bool
  be_bind :: "socket_addr \<Rightarrow> string option"
  be_wrap :: "string option"
  be_create :: "string option"

definition check_err :: "string option \<Rightarrow> string + unit" where
  "check_err r = (case r of Some e \<Rightarrow> Inl e | None \<Rightarrow> Inr ())"

definition obfs_layer :: "config \<Rightarrow> string + salamander option" where
  "obfs_layer c =
     (case config_obfs c of
        None \<Rightarrow> Inr None
      | Some k \<Rightarrow> (case salamander_new k of
                     Inl e \<Rightarrow> Inl (display_config_error e) | Inr s \<Rightarrow> Inr (Some s)))"

definition hop_layer :: "rng \<Rightarrow> config \<Rightarrow> (socket_addr \<times> hop_state) option exec" where
  "hop_layer rng c =
     (case hop_addrs c of
        None \<Rightarrow> Ret None
      | Some as \<Rightarrow> exec_bind (hop_new rng as) (\<lambda>st. Ret (Some (server_addr c, st))))"

definition build_endpoint :: "rng \<Rightarrow> bind_env \<Rightarrow> socket_addr \<Rightarrow> config \<Rightarrow> (string + endpoint) exec" where
  "build_endpoint rng be bind c =
     (if config_obfs c = None \<and> hop_addrs c = None
      then Ret (and_then (check_err (be_client be bind)) (\<lambda>_. Inr (PlainEndpoint bind)))
      else if \<not> be_runtime be
      then Ret (Inl ''no async runtime found; call within a tokio runtime'')
      else
        (case and_then (check_err (be_bind be bind)) (\<lambda>_.
              and_then (check_err (be_wrap be)) (\<lambda>_. obfs_layer c)) of
           Inl e \<Rightarrow> Ret (Inl e)
         | Inr ob \<Rightarrow>
             exec_bind (hop_layer rng c) (\<lambda>hop.
             Ret (and_then (check_err (be_create be)) (\<lambda>_. Inr (LayeredEndpoint bind ob hop))))))"

text \<open>What happens outside during one \<^verbatim>\<open>connect\<close>.\<close>

record 'h connect_env =
  ce_tls :: rustls_env
  ce_idle :: "duration \<Rightarrow> string option"
  ce_rng :: rng
  ce_bind :: bind_env
  ce_dial :: "socket_addr \<Rightarrow> string \<Rightarrow> string option"
  ce_handshake :: "handshake_error option"
  ce_ops :: "'h header_ops"
  ce_h3 :: "'h h3_calls"

record client =
  cl_endpoint :: endpoint
  cl_transport :: transport_config
  cl_udp :: "sessions option"
  cl_fast_open :: bool
  cl_closed :: "u32 option"

definition bind_addr :: "socket_addr \<Rightarrow> socket_addr" where
  "bind_addr a = (if is_ipv4 (fst a) then (V4 0, 0) else (V6 0, 0))"

definition canonical_server :: "config \<Rightarrow> config" where
  "canonical_server c = c\<lparr>server_addr := (to_canonical (fst (server_addr c)), snd (server_addr c))\<rparr>"

text \<open>
  From a bound endpoint on: dial, handshake, authentication. Beside the result stands the code with
  which the connection has been closed, if it has.
\<close>

definition establish ::
  "'h connect_env \<Rightarrow> config \<Rightarrow> transport_config \<Rightarrow> endpoint \<Rightarrow>
   (connect_failure + (client \<times> handshake_info)) \<times> u32 option" where
  "establish env c tc ep =
     (case ce_dial env (server_addr c) (server_name (config_tls c)) of
        Some e \<Rightarrow> (Inl (FailUnreachable e), None)
      | None \<Rightarrow>
          (case ce_handshake env of
             Some e \<Rightarrow> (Inl (categorize_handshake e), None)
           | None \<Rightarrow>
               let r = authenticate (ce_ops env) (ce_h3 env) (ce_rng env) c in
               (case r of
                  Inl e \<Rightarrow> Inl (categorize_auth e)
                | Inr (udp, tx) \<Rightarrow>
                    Inr (\<lparr>cl_endpoint = ep, cl_transport = tc,
                          cl_udp = (if udp then Some manager_new else None),
                          cl_fast_open = config_fast_open c, cl_closed = None\<rparr>,
                         \<lparr>info_udp_enabled = udp, info_tx = tx, info_server_addr = server_addr c\<rparr>),
                auth_close r)))"

definition connect ::
  "'h connect_env \<Rightarrow> config \<Rightarrow> ((connect_failure + (client \<times> handshake_info)) \<times> u32 option) exec" where
  "connect env c0 =
     (case verify_and_fill c0 of
        Inl e \<Rightarrow> Ret (Inl (FailConfig (display_config_error e)), None)
      | Inr c1 \<Rightarrow>
          let c = canonical_server c1 in
          case build_quic_client_config (ce_tls env) (ce_idle env) c of
            Inl e \<Rightarrow> Ret (Inl (FailConfig e), None)
          | Inr tc \<Rightarrow>
              exec_bind (build_endpoint (ce_rng env) (ce_bind env) (bind_addr (server_addr c)) c) (\<lambda>r.
              Ret (case r of
                     Inl e \<Rightarrow> (Inl (FailUnreachable e), None)
                   | Inr ep \<Rightarrow> establish env c tc ep)))"

text \<open>\<^verbatim>\<open>Client::udp\<close>.\<close>

datatype udp_open_error = UdpDial dial_error | UdpClosed closed_error

definition client_udp :: "client \<Rightarrow> (udp_open_error + nat) \<times> client" where
  "client_udp cl =
     (case cl_udp cl of
        None \<Rightarrow> (Inl (UdpDial \<lparr>dial_message = ''UDP not enabled''\<rparr>), cl)
      | Some s \<Rightarrow>
          (case new_udp s of
             (Inl e, s') \<Rightarrow> (Inl (UdpClosed e), cl\<lparr>cl_udp := Some s'\<rparr>)
           | (Inr k, s') \<Rightarrow> (Inr k, cl\<lparr>cl_udp := Some s'\<rparr>)))"

text \<open>
  \<^verbatim>\<open>Client::close\<close>, also run when the client is dropped: closing a connection that is closed
  does nothing, so the code of the first close stands.
\<close>

definition client_close :: "client \<Rightarrow> client" where
  "client_close cl =
     cl\<lparr>cl_closed := (case cl_closed cl of None \<Rightarrow> Some CLOSE_ERR_CODE_OK | Some k \<Rightarrow> Some k)\<rparr>"

lemma client_close_idem: "client_close (client_close cl) = client_close cl"
  by (simp add: client_close_def split: option.splits)

section \<open>TCP streams\<close>

datatype read_event = Chunk bytes | Finished | ReadErr string

text \<open>One \<^verbatim>\<open>RecvStream::read\<close> into a buffer of \<open>n\<close> bytes.\<close>

datatype quinn_read = QPending | QEnd | QBytes bytes | QErr string

fun recv_read :: "nat \<Rightarrow> read_event list \<Rightarrow> quinn_read \<times> read_event list" where
  "recv_read n [] = (QPending, [])"
| "recv_read n (Chunk c # evs) =
     (if length c \<le> n then (QBytes c, evs) else (QBytes (take n c), Chunk (drop n c) # evs))"
| "recv_read n (Finished # evs) = (QEnd, Finished # evs)"
| "recv_read n (ReadErr e # evs) = (QErr e, ReadErr e # evs)"

fun event_size :: "read_event \<Rightarrow> nat" where
  "event_size (Chunk c) = Suc (length c)"
| "event_size _ = 1"

definition stream_size :: "read_event list \<Rightarrow> nat" where
  "stream_size evs = sum_list (map event_size evs)"

lemma recv_read_decreases: "recv_read n evs = (QBytes c, evs') \<Longrightarrow> 0 < n \<Longrightarrow> stream_size evs' < stream_size evs"
  by (induction n evs rule: recv_read.induct) (auto simp: stream_size_def split: if_splits)

datatype tcp_error = RespIo io_error | RespRead string | RespClosed | RespDial dial_error

text \<open>
  The loop of \<^verbatim>\<open>read_tcp_response\<close>, retrying the parser on a growing buffer. Its result keeps
  the unread part of the stream.
\<close>

datatype response_poll =
    RespPending bytes
  | RespDone "bool \<times> string" bytes "read_event list"
  | RespFailed tcp_error

function response_loop :: "bytes \<Rightarrow> read_event list \<Rightarrow> response_poll" where
  "response_loop buf evs =
     (case read_tcp_response buf of
        Inr (resp, rest) \<Rightarrow> RespDone resp rest evs
      | Inl e \<Rightarrow>
          if e = UnexpectedEof then
            (case recv_read 256 evs of
               (QPending, _) \<Rightarrow> RespPending buf
             | (QBytes c, evs') \<Rightarrow> response_loop (buf @ c) evs'
             | (QEnd, _) \<Rightarrow> RespFailed RespClosed
             | (QErr x, _) \<Rightarrow> RespFailed (RespRead x))
          else RespFailed (RespIo e))"
  by pat_completeness auto
termination
  by (relation "measure (\<lambda>(_, evs). stream_size evs)") (auto, metis recv_read_decreases zero_less_numeral)

declare response_loop.simps [simp del]

text \<open>
  The receive half. \<open>ResponseFailed\<close> is an \<^verbatim>\<open>AwaitingResponse\<close> whose future has completed with an
  error: polling it again panics.
\<close>

datatype recv_state = AwaitingResponse bytes | ResponseFailed | ReadyState bytes nat

record tcp_conn =
  tcp_recv :: recv_state
  tcp_stream :: "read_event list"

datatype read_poll = ReadPending | ReadBytes bytes | ReadFailed tcp_error

fun stream_poll :: "quinn_read \<Rightarrow> read_poll" where
  "stream_poll QPending = ReadPending"
| "stream_poll QEnd = ReadBytes []"
| "stream_poll (QBytes c) = ReadBytes c"
| "stream_poll (QErr e) = ReadFailed (RespRead e)"

definition poll_ready :: "nat \<Rightarrow> bytes \<Rightarrow> nat \<Rightarrow> read_event list \<Rightarrow> tcp_conn \<times> read_poll" where
  "poll_ready n leftover pos evs =
     (if pos < length leftover then
        let remaining = drop pos leftover; k = min (length remaining) n
        in (\<lparr>tcp_recv = ReadyState leftover (pos + k), tcp_stream = evs\<rparr>, ReadBytes (take k remaining))
      else
        let (r, evs') = recv_read n evs
        in (\<lparr>tcp_recv = ReadyState leftover pos, tcp_stream = evs'\<rparr>, stream_poll r))"

definition poll_read :: "nat \<Rightarrow> tcp_conn \<Rightarrow> (tcp_conn \<times> read_poll) exec" where
  "poll_read n c =
     (case tcp_recv c of
        ReadyState leftover pos \<Rightarrow> Ret (poll_ready n leftover pos (tcp_stream c))
      | ResponseFailed \<Rightarrow> Panic
      | AwaitingResponse buf \<Rightarrow>
          (case response_loop buf (tcp_stream c) of
             RespPending buf' \<Rightarrow> Ret (\<lparr>tcp_recv = AwaitingResponse buf', tcp_stream = []\<rparr>, ReadPending)
           | RespFailed e \<Rightarrow> Ret (c\<lparr>tcp_recv := ResponseFailed\<rparr>, ReadFailed e)
           | RespDone (ok, msg) leftover evs \<Rightarrow>
               if ok then Ret (poll_ready n leftover 0 evs)
               else Ret (c\<lparr>tcp_recv := ResponseFailed\<rparr>, ReadFailed (RespDial \<lparr>dial_message = msg\<rparr>))))"

text \<open>
  \<^verbatim>\<open>Client::tcp\<close> on an opened stream: the request bytes written and, without fast open, the
  response awaited. \<^verbatim>\<open>None\<close> is a call still waiting for the response.
\<close>

definition client_tcp ::
  "rng \<Rightarrow> bool \<Rightarrow> string \<Rightarrow> read_event list \<Rightarrow> (bytes \<times> (tcp_error + tcp_conn) option) exec" where
  "client_tcp rng fast a evs =
     exec_bind (write_tcp_request rng a) (\<lambda>request.
     Ret (request,
       if fast then Some (Inr \<lparr>tcp_recv = AwaitingResponse [], tcp_stream = evs\<rparr>)
       else
         (case response_loop [] evs of
            RespPending _ \<Rightarrow> None
          | RespFailed e \<Rightarrow> Some (Inl e)
          | RespDone (ok, msg) leftover evs' \<Rightarrow>
              if ok then Some (Inr \<lparr>tcp_recv = ReadyState leftover 0, tcp_stream = evs'\<rparr>)
              else Some (Inl (RespDial \<lparr>dial_message = msg\<rparr>)))))"

text \<open>
  A whole \<^verbatim>\<open>TcpConn\<close>; \<open>tt_sent\<close> is what the QUIC send stream has accepted. Its writing half forwards to
  that stream, which accepts at most the bytes offered.
\<close>

record tcp_tunnel =
  tt_conn :: tcp_conn
  tt_sent :: bytes
  tt_finished :: bool

datatype write_poll = WritePending | Wrote nat | WriteFailed string

definition tcp_poll_write :: "write_poll \<Rightarrow> bytes \<Rightarrow> tcp_tunnel \<Rightarrow> tcp_tunnel \<times> write_poll" where
  "tcp_poll_write w buf t =
     (case w of
        Wrote n \<Rightarrow> (t\<lparr>tt_sent := tt_sent t @ take n buf\<rparr>, Wrote (min n (length buf)))
      | _ \<Rightarrow> (t, w))"

definition tcp_poll_shutdown :: "tcp_tunnel \<Rightarrow> tcp_tunnel" where
  "tcp_poll_shutdown t = t\<lparr>tt_finished := True\<rparr>"

definition tcp_poll_read :: "nat \<Rightarrow> tcp_tunnel \<Rightarrow> (tcp_tunnel \<times> read_poll) exec" where
  "tcp_poll_read n t =
     exec_bind (poll_read n (tt_conn t)) (\<lambda>(c, r). Ret (t\<lparr>tt_conn := c\<rparr>, r))"

text \<open>
  The whole of \<^verbatim>\<open>Client::tcp\<close>: opening the stream and writing the request can fail too (\<open>opened\<close> and
  \<open>wrote\<close> are their errors).
\<close>

datatype tcp_open_error = StreamClosed closed_error | RequestNotWritten string | ResponseBad tcp_error

definition client_tcp_open ::
  "string option \<Rightarrow> (bytes \<Rightarrow> string option) \<Rightarrow> rng \<Rightarrow> bool \<Rightarrow> string \<Rightarrow> read_event list \<Rightarrow>
   (tcp_open_error + tcp_tunnel) option exec" where
  "client_tcp_open opened wrote rng fast a evs =
     (case opened of
        Some e \<Rightarrow> Ret (Some (Inl (StreamClosed \<lparr>closed_err = Some e\<rparr>)))
      | None \<Rightarrow>
          exec_bind (client_tcp rng fast a evs) (\<lambda>(request, r).
          Ret (case wrote request of
                 Some e \<Rightarrow> Some (Inl (RequestNotWritten e))
               | None \<Rightarrow>
                   map_option (map_sum ResponseBad (\<lambda>c. \<lparr>tt_conn = c, tt_sent = request, tt_finished = False\<rparr>)) r)))"

text \<open>Reading repeatedly with buffers of the given sizes, collecting what the reads return.\<close>

fun read_data :: "read_poll \<Rightarrow> bytes" where
  "read_data (ReadBytes c) = c"
| "read_data _ = []"

fun poll_reads :: "nat list \<Rightarrow> tcp_conn \<Rightarrow> (tcp_conn \<times> bytes) exec" where
  "poll_reads [] c = Ret (c, [])"
| "poll_reads (n # ns) c =
     exec_bind (poll_read n c) (\<lambda>(c', r).
     exec_bind (poll_reads ns c') (\<lambda>(c'', out). Ret (c'', read_data r @ out)))"

section \<open>Byte streams\<close>

text \<open>The bytes a stream yields before it ends, fails or waits, and how it stops.\<close>

fun stream_bytes :: "read_event list \<Rightarrow> bytes" where
  "stream_bytes (Chunk c # evs) = c @ stream_bytes evs"
| "stream_bytes _ = []"

fun stream_end :: "read_event list \<Rightarrow> read_event option" where
  "stream_end [] = None"
| "stream_end (Chunk c # evs) = stream_end evs"
| "stream_end (e # evs) = Some e"

definition no_empty_chunk :: "read_event list \<Rightarrow> bool" where
  "no_empty_chunk evs \<longleftrightarrow> Chunk [] \<notin> set evs"

lemma recv_read_bytes:
  assumes "recv_read n evs = (QBytes c, evs')"
  shows "stream_bytes evs = c @ stream_bytes evs'" "stream_end evs' = stream_end evs" "length c \<le> n"
    "no_empty_chunk evs \<Longrightarrow> no_empty_chunk evs' \<and> (0 < n \<longrightarrow> c \<noteq> [])"
  using assms
  by (induction n evs rule: recv_read.induct) (auto simp: no_empty_chunk_def split: if_splits)

lemma recv_read_stops:
  assumes "recv_read n evs = (q, evs')" "\<forall>c. q \<noteq> QBytes c"
  shows "stream_bytes evs = []" "evs' = evs"
    "q = (case stream_end evs of None \<Rightarrow> QPending | Some (ReadErr e) \<Rightarrow> QErr e | _ \<Rightarrow> QEnd)"
  using assms by (induction n evs rule: recv_read.induct) (auto split: if_splits)

section \<open>The response loop\<close>

text \<open>However the network cuts the stream, the loop returns the response and loses no byte.\<close>

lemma response_loop_reads:
  assumes "tcp_response_ok x" "buf @ stream_bytes evs = tcp_response_wire x @ rest"
  shows "\<exists>l evs'. response_loop buf evs = RespDone (tcp_response_view x) l evs' \<and>
    l @ stream_bytes evs' = rest \<and> stream_end evs' = stream_end evs \<and>
    (no_empty_chunk evs \<longrightarrow> no_empty_chunk evs')"
  using assms(2)
proof (induction buf evs rule: response_loop.induct)
  case (1 buf evs)
  have buf: "buf = take (length buf) (tcp_response_wire x @ rest)"
    using 1(2) by (metis append_eq_conv_conj)
  note dec = tr.dec_prefix [OF assms(1), of "length buf" rest, folded buf]
  show ?case
  proof (cases "length buf < length (tcp_response_wire x)")
    case False
    then have "buf = tcp_response_wire x @ take (length buf - length (tcp_response_wire x)) rest"
      using buf by simp
    from 1(2) [unfolded arg_cong [OF this, of "\<lambda>b. b @ stream_bytes evs"]]
    have "take (length buf - length (tcp_response_wire x)) rest @ stream_bytes evs = rest"
      by (metis append_assoc same_append_eq)
    with False show ?thesis by (subst response_loop.simps) (simp add: dec)
  next
    case True
    then have more: "stream_bytes evs \<noteq> []" using 1(2) by (metis append_Nil2 length_append trans_less_add1 less_irrefl)
    obtain q evs' where r: "recv_read 256 evs = (q, evs')" by fastforce
    then obtain c where q: "q = QBytes c" using recv_read_stops(1) more by blast
    note rr = recv_read_bytes [OF r [unfolded q]]
    have "(buf @ c) @ stream_bytes evs' = tcp_response_wire x @ rest" using 1(2) rr(1) by simp
    then have "\<exists>l evs''. response_loop (buf @ c) evs' = RespDone (tcp_response_view x) l evs'' \<and>
      l @ stream_bytes evs'' = rest \<and> stream_end evs'' = stream_end evs' \<and>
      (no_empty_chunk evs' \<longrightarrow> no_empty_chunk evs'')"
      using 1(1) r q dec True by simp
    with True rr show ?thesis by (subst response_loop.simps) (auto simp: dec r q)
  qed
qed

text \<open>A stream that stops inside the response is an error, or a wait when it has not ended.\<close>

lemma response_loop_short:
  assumes "tcp_response_ok x" "k < length (tcp_response_wire x)"
    and "buf @ stream_bytes evs = take k (tcp_response_wire x)"
  shows "response_loop buf evs =
    (case stream_end evs of None \<Rightarrow> RespPending (buf @ stream_bytes evs)
     | Some (ReadErr e) \<Rightarrow> RespFailed (RespRead e) | Some _ \<Rightarrow> RespFailed RespClosed)"
  using assms(3)
proof (induction buf evs rule: response_loop.induct)
  case (1 buf evs)
  have len: "length buf \<le> k"
    using arg_cong [OF 1(2), of length] assms(2) by simp
  have "buf = take (length buf) (tcp_response_wire x)"
    using arg_cong [OF 1(2), of "take (length buf)"] len by simp
  then have dec: "read_tcp_response buf = Inl UnexpectedEof"
    using tr.dec_short [OF assms(1), of "length buf"] len assms(2) by simp
  obtain q evs' where r: "recv_read 256 evs = (q, evs')" by fastforce
  show ?case
  proof (cases "\<exists>c. q = QBytes c")
    case True
    then obtain c where q: "q = QBytes c" by blast
    note rr = recv_read_bytes [OF r [unfolded q]]
    show ?thesis using 1 rr dec
      by (subst response_loop.simps) (auto simp: r q split: option.splits read_event.splits)
  next
    case False
    then show ?thesis using recv_read_stops [OF r] dec
      by (subst response_loop.simps) (auto simp: r split: option.splits read_event.splits)
  qed
qed

section \<open>Reading a connection\<close>

text \<open>What a connection has still to deliver.\<close>

definition conn_bytes :: "tcp_conn \<Rightarrow> bytes" where
  "conn_bytes c =
     (case tcp_recv c of
        ReadyState l pos \<Rightarrow> drop pos l @ stream_bytes (tcp_stream c)
      | AwaitingResponse buf \<Rightarrow>
          (case response_loop buf (tcp_stream c) of RespDone _ l evs \<Rightarrow> l @ stream_bytes evs | _ \<Rightarrow> [])
      | ResponseFailed \<Rightarrow> [])"

definition is_ready :: "tcp_conn \<Rightarrow> bool" where
  "is_ready c \<longleftrightarrow> (\<exists>l pos. tcp_recv c = ReadyState l pos) \<and> no_empty_chunk (tcp_stream c)"

lemma poll_ready_delivers:
  assumes "poll_ready n l pos evs = (c, r)" "no_empty_chunk evs"
  shows "read_data r @ conn_bytes c = drop pos l @ stream_bytes evs" "is_ready c"
    "0 < n \<Longrightarrow> drop pos l @ stream_bytes evs \<noteq> [] \<Longrightarrow> read_data r \<noteq> []"
proof -
  obtain q evs' where q: "recv_read n evs = (q, evs')" by fastforce
  have "read_data r @ conn_bytes c = drop pos l @ stream_bytes evs \<and> is_ready c \<and>
    (0 < n \<longrightarrow> drop pos l @ stream_bytes evs \<noteq> [] \<longrightarrow> read_data r \<noteq> [])"
  proof (cases "pos < length l")
    case True
    have "take (min (length l - pos) n) (drop pos l) @ drop (pos + min (length l - pos) n) l = drop pos l"
      by (metis add.commute append_take_drop_id drop_drop)
    with True assms show ?thesis
      by (auto simp: poll_ready_def Let_def conn_bytes_def is_ready_def)
  next
    case False
    show ?thesis
    proof (cases "\<exists>b. q = QBytes b")
      case True
      then obtain b where b: "q = QBytes b" by blast
      show ?thesis using False assms recv_read_bytes [OF q [unfolded b]]
        by (auto simp: poll_ready_def q b conn_bytes_def is_ready_def)
    next
      case other: False
      then show ?thesis using False assms recv_read_stops [OF q]
        by (auto simp: poll_ready_def q conn_bytes_def is_ready_def
            split: option.splits read_event.splits)
    qed
  qed
  then show "read_data r @ conn_bytes c = drop pos l @ stream_bytes evs" "is_ready c"
    "0 < n \<Longrightarrow> drop pos l @ stream_bytes evs \<noteq> [] \<Longrightarrow> read_data r \<noteq> []" by blast+
qed

lemma poll_read_ready:
  assumes "is_ready c"
  obtains c' r where "poll_read n c = Ret (c', r)" "is_ready c'" "read_data r @ conn_bytes c' = conn_bytes c"
    "0 < n \<Longrightarrow> conn_bytes c \<noteq> [] \<Longrightarrow> read_data r \<noteq> []"
proof -
  obtain l pos where c: "tcp_recv c = ReadyState l pos" "no_empty_chunk (tcp_stream c)"
    using assms unfolding is_ready_def by blast
  obtain c' r where p: "poll_ready n l pos (tcp_stream c) = (c', r)" by fastforce
  show thesis
    using that [of c' r] poll_ready_delivers [OF p c(2)] p c by (simp add: poll_read_def conn_bytes_def)
qed

lemma poll_reads_ready:
  assumes "is_ready c"
  shows "\<exists>c' out. poll_reads ns c = Ret (c', out) \<and> is_ready c' \<and> out @ conn_bytes c' = conn_bytes c \<and>
    ((\<forall>n\<in>set ns. 0 < n) \<longrightarrow> length (conn_bytes c) \<le> length ns \<longrightarrow> out = conn_bytes c)"
  using assms
proof (induction ns arbitrary: c)
  case Nil
  then show ?case by auto
next
  case (Cons n ns)
  obtain c1 r where r: "poll_read n c = Ret (c1, r)" "is_ready c1" "read_data r @ conn_bytes c1 = conn_bytes c"
    "0 < n \<Longrightarrow> conn_bytes c \<noteq> [] \<Longrightarrow> read_data r \<noteq> []"
    using poll_read_ready [OF Cons(2)] by metis
  obtain c2 out where o: "poll_reads ns c1 = Ret (c2, out)" "is_ready c2" "out @ conn_bytes c2 = conn_bytes c1"
    "(\<forall>n\<in>set ns. 0 < n) \<longrightarrow> length (conn_bytes c1) \<le> length ns \<longrightarrow> out = conn_bytes c1"
    using Cons(1) [OF r(2)] by blast
  have "length (conn_bytes c1) \<le> length ns" if "0 < n" "length (conn_bytes c) \<le> Suc (length ns)"
  proof -
    have "length (conn_bytes c) = length (read_data r) + length (conn_bytes c1)"
      by (simp flip: r(3))
    moreover have "length (conn_bytes c) = 0 \<or> 0 < length (read_data r)" using r(4) that(1) by auto
    ultimately show ?thesis using that(2) by linarith
  qed
  with r o show ?case by (auto simp flip: r(3))
qed

section \<open>Opening a connection\<close>

lemma effective_tx_le: "effective_tx auto s t \<le> t"
  by (simp add: effective_tx_def not_less)

lemma hop_addrs_Some:
  assumes "hop_addrs c = Some as"
  obtains u where "hop_ports c = Some u" "as \<noteq> []"
    "set as = Pair (fst (server_addr c)) ` {p. contains u p}"
  using assms by (auto simp: hop_addrs_def Let_def set_ports split: option.splits if_splits)

lemma hop_layer_total:
  "\<exists>h. hop_layer rng c = Ret h \<and> (h = None \<longleftrightarrow> hop_addrs c = None) \<and>
    (rng_ok rng \<longrightarrow> (\<forall>peer st. h = Some (peer, st) \<longrightarrow>
       peer = server_addr c \<and> hop_inv st \<and> hop_addrs c = Some (addrs st)))"
proof (cases "hop_addrs c")
  case None
  then show ?thesis by (simp add: hop_layer_def)
next
  case (Some as)
  then have "as \<noteq> []" by (auto elim: hop_addrs_Some)
  with Some show ?thesis
    by (auto simp: hop_layer_def hop_new_def hop_inv_def rng_ok_def)
qed

lemma build_endpoint_total:
  "\<exists>r. build_endpoint rng be b c = Ret r \<and>
    (rng_ok rng \<longrightarrow> (\<forall>b' ob peer st. r = Inr (LayeredEndpoint b' ob (Some (peer, st))) \<longrightarrow>
       peer = server_addr c \<and> hop_inv st \<and> hop_addrs c = Some (addrs st)))"
proof -
  obtain h where h: "hop_layer rng c = Ret h"
    "rng_ok rng \<longrightarrow> (\<forall>peer st. h = Some (peer, st) \<longrightarrow>
       peer = server_addr c \<and> hop_inv st \<and> hop_addrs c = Some (addrs st))"
    using hop_layer_total by blast
  show ?thesis
  proof (cases "and_then (check_err (be_bind be b)) (\<lambda>_. and_then (check_err (be_wrap be)) (\<lambda>_. obfs_layer c))")
    case (Inl e)
    then show ?thesis by (cases "be_client be b") (auto simp: build_endpoint_def check_err_def)
  next
    case (Inr ob)
    then show ?thesis using h
      by (cases "be_client be b"; cases "be_create be") (auto simp: build_endpoint_def check_err_def)
  qed
qed

text \<open>The parameters of the QUIC transport that a successful configuration has.\<close>

lemma quic_config_ok:
  "build_quic_client_config tls idle c = Inr tc \<Longrightarrow>
     stream_receive_window tc = max_stream_receive_window (quic c) \<and>
     receive_window tc = max_connection_receive_window (quic c) \<and>
     congestion_control tc = (if max_tx (bandwidth c) = 0 then Bbr else Brutal (max_tx (bandwidth c))) \<and>
     rustls_trust (quic_tls tc) = (case ca (config_tls c) of Some x \<Rightarrow> TrustCa x | None \<Rightarrow> TrustPlatform)"
  using rustls_trusts
  by (fastforce simp: build_quic_client_config_def quic_crypto_def and_then_eq_Inr to_varint_def word_neq_0_conv
      split: option.splits if_splits sum.splits)

lemma authenticate_ok:
  "authenticate ops h rng c = Inr (udp, tx) \<Longrightarrow> tx \<le> max_tx (bandwidth c)"
  by (auto simp: authenticate_def and_then_eq_Inr Let_def effective_tx_le split: if_splits prod.splits)

lemma authenticate_rejected:
  assumes "authenticate ops h rng c = Inl (AuthRejected e)"
  shows "\<exists>req status headers. h3_response h req = Inr (status, headers) \<and>
    status \<noteq> STATUS_AUTH_OK \<and> e = \<lparr>auth_status_code = uint status\<rparr>"
  using assms
  by (auto simp: authenticate_def h3_check_def Let_def split: if_splits prod.splits option.splits sum.splits)

lemma establish_cases:
  obtains
    (dial) e where "establish env c tc ep = (Inl (FailUnreachable e), None)"
  | (handshake) e where "ce_handshake env = Some e" "establish env c tc ep = (Inl (categorize_handshake e), None)"
  | (auth) e where "authenticate (ce_ops env) (ce_h3 env) (ce_rng env) c = Inl e"
      "establish env c tc ep = (Inl (categorize_auth e), auth_close (Inl e :: auth_failure + unit))"
  | (ok) udp tx where "authenticate (ce_ops env) (ce_h3 env) (ce_rng env) c = Inr (udp, tx)"
      "establish env c tc ep =
         (Inr (\<lparr>cl_endpoint = ep, cl_transport = tc, cl_udp = (if udp then Some manager_new else None),
                cl_fast_open = config_fast_open c, cl_closed = None\<rparr>,
               \<lparr>info_udp_enabled = udp, info_tx = tx, info_server_addr = server_addr c\<rparr>), None)"
proof (cases "ce_dial env (server_addr c) (server_name (config_tls c))")
  case (Some e)
  then show thesis using dial by (simp add: establish_def)
next
  case d: None
  show thesis
  proof (cases "ce_handshake env")
    case (Some e)
    then show thesis using handshake by (simp add: establish_def d)
  next
    case h: None
    show thesis
    proof (cases "authenticate (ce_ops env) (ce_h3 env) (ce_rng env) c")
      case (Inl e)
      then show thesis using auth by (cases e) (simp_all add: establish_def d h)
    next
      case (Inr p)
      then show thesis using ok by (cases p) (simp add: establish_def d h)
    qed
  qed
qed

lemma establish_ok:
  assumes "establish env c tc ep = (Inr (cl, info), closed)"
  shows "cl_endpoint cl = ep \<and> cl_transport cl = tc \<and> cl_fast_open cl = config_fast_open c \<and>
    cl_udp cl = (if info_udp_enabled info then Some manager_new else None) \<and>
    info_server_addr info = server_addr c \<and> info_tx info \<le> max_tx (bandwidth c) \<and> closed = None"
proof (cases rule: establish_cases [of env c tc ep])
  case (ok udp tx)
  show ?thesis using assms authenticate_ok [OF ok(1)] unfolding ok(2) by auto
qed (use assms in auto)

text \<open>The failures of the stages after binding.\<close>

lemma establish_failed:
  assumes "establish env c tc ep = (Inl f, closed)"
  shows "((\<exists>e. f = FailAuth e) \<longleftrightarrow> closed = Some CLOSE_ERR_CODE_PROTOCOL_ERROR) \<and>
    (\<forall>e. f = FailAuth e \<longrightarrow>
      (\<exists>req status headers. h3_response (ce_h3 env) req = Inr (status, headers) \<and> status \<noteq> STATUS_AUTH_OK \<and>
        e = display_auth_error \<lparr>auth_status_code = uint status\<rparr>)) \<and>
    (\<forall>e. f = FailTimeout e \<longrightarrow> ce_handshake env = Some HandshakeTimedOut)"
proof (cases rule: establish_cases [of env c tc ep])
  case (dial e)
  with assms show ?thesis by auto
next
  case (handshake e)
  with assms show ?thesis by (cases e) auto
next
  case (auth e)
  show ?thesis
  proof (cases e)
    case (AuthRejected x)
    then show ?thesis using assms authenticate_rejected [OF auth(1) [unfolded AuthRejected]] unfolding auth(2) by auto
  next
    case (AuthBroken x)
    then show ?thesis using assms unfolding auth(2) by auto
  qed
next
  case (ok udp tx)
  with assms show ?thesis by simp
qed

lemma connect_cases:
  obtains
    (config) e where "connect env c0 = Ret (Inl (FailConfig e), None)"
  | (bind) e where "config_ok (filled_config c0)" "connect env c0 = Ret (Inl (FailUnreachable e), None)"
  | (bound) c tc ep where "c = canonical_server (filled_config c0)" "config_ok (filled_config c0)"
      "build_quic_client_config (ce_tls env) (ce_idle env) c = Inr tc"
      "build_endpoint (ce_rng env) (ce_bind env) (bind_addr (server_addr c)) c = Ret (Inr ep)"
      "connect env c0 = Ret (establish env c tc ep)"
proof (cases "verify_and_fill c0")
  case (Inl e)
  then show thesis using config by (simp add: connect_def)
next
  case v: (Inr c1)
  then have c1: "c1 = filled_config c0" "config_ok (filled_config c0)" by (auto simp: verify_and_fill_iff)
  let ?c = "canonical_server c1"
  show thesis
  proof (cases "build_quic_client_config (ce_tls env) (ce_idle env) ?c")
    case (Inl e)
    then show thesis using config by (simp add: connect_def v Let_def)
  next
    case tc: (Inr tc)
    obtain r where r: "build_endpoint (ce_rng env) (ce_bind env) (bind_addr (server_addr ?c)) ?c = Ret r"
      using build_endpoint_total by blast
    show thesis
      using bind [OF c1(2)] bound [OF _ c1(2), of ?c tc] c1(1) tc r
      by (cases r) (simp_all add: connect_def v Let_def)
  qed
qed

text \<open>A first read on a fast-open connection continues as the connection opened without it would.\<close>

lemma poll_reads_fast:
  assumes "response_loop [] evs = RespDone (True, msg) l evs'"
  shows "poll_reads (n # ns) \<lparr>tcp_recv = AwaitingResponse [], tcp_stream = evs\<rparr> =
    poll_reads (n # ns) \<lparr>tcp_recv = ReadyState l 0, tcp_stream = evs'\<rparr>"
  by (simp add: poll_read_def assms)

lemma write_request_total:
  assumes "rng_ok rng" "length a < 2 ^ 62"
  obtains request where "write_tcp_request rng a = Ret request"
proof -
  note len = length_padding [OF assms(1), of TCP_REQUEST_PADDING, unfolded TCP_REQUEST_PADDING_def]
  have "length (padding_string rng TCP_REQUEST_PADDING) < 2 ^ 62"
    using len(2) by (simp add: TCP_REQUEST_PADDING_def)
  from write_tcp_request_wire [OF assms(2) this] that show thesis by blast
qed

text \<open>A concrete configuration and a concrete outside, for the witnesses.\<close>

definition sample_config :: "port_union option \<Rightarrow> config" where
  "sample_config u =
     (filled_config (config_new (V4 1, 443) ''secret'' \<lparr>server_name = ''h'', ca = None\<rparr>))
       \<lparr>bandwidth := \<lparr>max_tx = 1000, max_rx = 0\<rparr>, hop_ports := u\<rparr>"

definition sample_ops :: "(string \<Rightarrow> bytes option) header_ops" where
  "sample_ops = \<lparr>hm_get = (\<lambda>h k. h k), hm_insert = (\<lambda>h k v. h(k \<mapsto> v)), hm_name_ok = (\<lambda>_. True),
     hm_value_ok = (\<lambda>_. True), hm_to_str = (\<lambda>b. from_utf8 b)\<rparr>"

definition sample_env :: "handshake_error option \<Rightarrow> u16 \<Rightarrow> (string \<Rightarrow> bytes option) connect_env" where
  "sample_env hs status =
     \<lparr>ce_tls = \<lparr>re_versions = None, re_add_root = (\<lambda>_. None), re_platform = None, re_quic = (\<lambda>_. None)\<rparr>,
      ce_idle = (\<lambda>_. None), ce_rng = (\<lambda>k n. 0),
      ce_bind = \<lparr>be_client = (\<lambda>_. None), be_runtime = True, be_bind = (\<lambda>_. None), be_wrap = None, be_create = None\<rparr>,
      ce_dial = (\<lambda>_ _. None), ce_handshake = hs, ce_ops = sample_ops,
      ce_h3 = \<lparr>h3_new = None, h3_build = (\<lambda>_. Inr Map.empty), h3_send = (\<lambda>_. None), h3_finish = None,
               h3_response = (\<lambda>_. Inr (status, Map.empty))\<rparr>\<rparr>"

lemma sample_verified: "verify_and_fill (sample_config None) = Inr (sample_config None)"
proof -
  have "config_ok (sample_config None)"
    by (simp add: sample_config_def config_ok_def quic_ok_def filled_config_def filled_quic_def config_new_def
        quic_config_default_def config_consts or_default_def)
  then show ?thesis using verify_and_fill_iff filled_ok by metis
qed

lemma sample_connects:
  "\<exists>ep tc. connect (sample_env hs status) (sample_config None) =
     Ret (establish (sample_env hs status) (canonical_server (sample_config None)) tc ep)"
proof -
  let ?c = "canonical_server (sample_config None)"
  have "\<exists>tc. build_quic_client_config (ce_tls (sample_env hs status)) (\<lambda>_. None) ?c = Inr tc"
    by (simp add: build_quic_client_config_def quic_crypto_def build_rustls_client_config_def tls_err_def sample_env_def to_varint_def canonical_server_def sample_config_def
        filled_config_def filled_quic_def config_new_def quic_config_default_def config_consts or_default_def)
  then obtain tc where tc: "build_quic_client_config (ce_tls (sample_env hs status)) (\<lambda>_. None) ?c = Inr tc" ..
  have "\<exists>ep. build_endpoint rng (ce_bind (sample_env hs status)) b ?c = Ret (Inr ep)" for rng b
    by (simp add: build_endpoint_def sample_env_def check_err_def canonical_server_def sample_config_def
        hop_addrs_def filled_config_def config_new_def)
  then obtain ep where "build_endpoint (\<lambda>k n. 0) (ce_bind (sample_env hs status)) (bind_addr (server_addr ?c)) ?c
    = Ret (Inr ep)" by blast
  with tc show ?thesis
    by (auto simp: connect_def sample_verified Let_def sample_env_def)
qed

lemma sample_accepted:
  "\<exists>cl info. connect (sample_env None 233) (sample_config None) = Ret (Inr (cl, info), None) \<and>
     \<not> info_udp_enabled info"
  using sample_connects [of None 233]
  by (auto simp: establish_def sample_env_def authenticate_def h3_check_def Let_def STATUS_AUTH_OK_def
      auth_response_from_header_def header_map_get_def sample_ops_def split: prod.splits)

lemma sample_rejected: "\<exists>e closed. connect (sample_env None 404) (sample_config None) = Ret (Inl (FailAuth e), closed)"
  using sample_connects [of None 404]
  by (auto simp: establish_def sample_env_def authenticate_def h3_check_def Let_def STATUS_AUTH_OK_def)

lemma stream_end_no_chunk [simp]: "stream_end evs \<noteq> Some (Chunk c)"
  by (induction evs rule: stream_end.induct) auto

lemma response_loop_decides:
  assumes "length buf < MAX_RESPONSE_LENGTH + 256"
  shows "case response_loop buf evs of
      RespPending b \<Rightarrow> b = buf @ stream_bytes evs \<and> stream_end evs = None \<and> length b < MAX_RESPONSE_LENGTH
    | RespDone _ l _ \<Rightarrow> length l < MAX_RESPONSE_LENGTH + 256
    | RespFailed (RespIo x) \<Rightarrow> \<exists>m. x = InvalidData m
    | RespFailed RespClosed \<Rightarrow>
        stream_end evs = Some Finished \<and> length (buf @ stream_bytes evs) < MAX_RESPONSE_LENGTH
    | RespFailed (RespRead x) \<Rightarrow>
        stream_end evs = Some (ReadErr x) \<and> length (buf @ stream_bytes evs) < MAX_RESPONSE_LENGTH
    | RespFailed (RespDial _) \<Rightarrow> False"
  using assms
proof (induction buf evs rule: response_loop.induct)
  case (1 buf evs)
  show ?case
  proof (cases "read_tcp_response buf")
    case (Inr x)
    then show ?thesis using 1(2) read_tcp_response_rest [of buf]
      by (cases x) (fastforce simp: response_loop.simps)
  next
    case (Inl e)
    show ?thesis
    proof (cases "e = UnexpectedEof")
      case False
      then show ?thesis using Inl read_tcp_response_errors [OF Inl] by (auto simp: response_loop.simps)
    next
      case True
      then have short: "length buf < MAX_RESPONSE_LENGTH" using read_tcp_response_eof Inl by blast
      obtain q evs' where r: "recv_read 256 evs = (q, evs')" by fastforce
      have loop: "response_loop buf evs =
          (case q of QPending \<Rightarrow> RespPending buf | QBytes c \<Rightarrow> response_loop (buf @ c) evs'
           | QEnd \<Rightarrow> RespFailed RespClosed | QErr x \<Rightarrow> RespFailed (RespRead x))"
        using Inl True by (subst response_loop.simps) (simp add: r split: quinn_read.splits)
      show ?thesis
      proof (cases "\<exists>c. q = QBytes c")
        case False
        then show ?thesis using recv_read_stops [OF r] short
          by (auto simp: loop split: option.splits read_event.splits quinn_read.splits)
      next
        case bytes: True
        then obtain c where c: "q = QBytes c" by blast
        note rr = recv_read_bytes [OF r [unfolded c]]
        have "length (buf @ c) < MAX_RESPONSE_LENGTH + 256" using short rr(3) by simp
        from 1(1) [OF Inl True r [symmetric] c this] show ?thesis
          by (simp add: loop c rr(1,2) split: response_poll.splits tcp_error.splits)
      qed
    qed
  qed
qed

text \<open>A client, for witnesses.\<close>

definition sample_client :: client where
  "sample_client =
     \<lparr>cl_endpoint = PlainEndpoint (V4 0, 0),
      cl_transport = \<lparr>stream_receive_window = 1, receive_window = 1, idle_timeout = 1, keep_alive_interval = 1,
        datagram_receive_buffer = 1, datagram_send_buffer = 1, mtu_discovery = True, congestion_control = Bbr,
        quic_tls = \<lparr>rustls_trust = TrustPlatform, alpn_protocols = [ALPN_H3]\<rparr>\<rparr>,
      cl_udp = Some manager_new, cl_fast_open = False, cl_closed = None\<rparr>"

section \<open>Properties\<close>

text \<open>
  C3. A proxied TCP stream is transparent: when the server accepts, then however its bytes are cut
  into chunks, with or without fast open, reads with buffers of any sizes deliver exactly the bytes
  that follow the response, in order, and as many non-empty reads as there are bytes deliver all of
  them.
\<close>

theorem tcp_stream_transparent:
  assumes "rng_ok rng" "length a < 2 ^ 62" "tcp_response_ok (0, msg, padding)" "no_empty_chunk evs"
    and "stream_bytes evs = tcp_response_wire (0, msg, padding) @ rest"
  shows "\<exists>request conn conn' out. client_tcp rng fast a evs = Ret (request, Some (Inr conn)) \<and>
    poll_reads ns conn = Ret (conn', out) \<and> out @ conn_bytes conn' = rest \<and>
    ((\<forall>n\<in>set ns. 0 < n) \<longrightarrow> length rest \<le> length ns \<longrightarrow> out = rest)"
proof -
  obtain request where request: "write_tcp_request rng a = Ret request"
    using write_request_total [OF assms(1,2)] by blast
  obtain l evs' where loop: "response_loop [] evs = RespDone (True, msg) l evs'"
    and l: "l @ stream_bytes evs' = rest" and ne: "no_empty_chunk evs'"
    using response_loop_reads [OF assms(3), of "[]" evs rest] assms(4,5) by auto
  let ?ready = "\<lparr>tcp_recv = ReadyState l 0, tcp_stream = evs'\<rparr>"
  let ?wait = "\<lparr>tcp_recv = AwaitingResponse [], tcp_stream = evs\<rparr>"
  have ready: "is_ready ?ready" "conn_bytes ?ready = rest" "conn_bytes ?wait = rest"
    using ne l loop by (simp_all add: is_ready_def conn_bytes_def)
  have slow: "\<exists>conn' out. poll_reads ns ?ready = Ret (conn', out) \<and> out @ conn_bytes conn' = rest \<and>
    ((\<forall>n\<in>set ns. 0 < n) \<longrightarrow> length rest \<le> length ns \<longrightarrow> out = rest)" for ns
    using poll_reads_ready [OF ready(1), of ns] unfolding ready(2) by blast
  have "\<exists>conn' out. poll_reads ns ?wait = Ret (conn', out) \<and> out @ conn_bytes conn' = rest \<and>
    ((\<forall>n\<in>set ns. 0 < n) \<longrightarrow> length rest \<le> length ns \<longrightarrow> out = rest)"
    using slow [of ns] ready(3) poll_reads_fast [OF loop] by (cases ns) auto
  with slow [of ns] show ?thesis
    by (cases fast) (simp_all add: client_tcp_def request loop)
qed

theorem tcp_stream_transparent_witness:
  "\<exists>request conn conn' out.
     client_tcp (\<lambda>k n. 0) True ''h:80'' [Chunk [0, 0], Chunk [1, 7, 5], Chunk [6], Finished] =
       Ret (request, Some (Inr conn)) \<and>
     poll_reads [1, 1, 1] conn = Ret (conn', out) \<and> out @ conn_bytes conn' = [5, 6] \<and> out = [5, 6]"
proof -
  have z: "varint_wire 0 = [0]" "varint_wire 1 = [1]" by code_simp+
  have "stream_bytes [Chunk [0, 0], Chunk [1, 7, 5], Chunk [6], Finished] =
      tcp_response_wire (0, [], [7]) @ [5, 6]"
    by (simp add: z as_bytes_def)
  moreover have "tcp_response_ok (0, [], [7])"
    by (simp add: MAX_PADDING_LENGTH_def is_str_def as_bytes_def)
  ultimately show ?thesis
    using tcp_stream_transparent [of "\<lambda>k n. 0" "''h:80''" "[]" "[7]"
        "[Chunk [0, 0], Chunk [1, 7, 5], Chunk [6], Finished]" "[5, 6]" True "[1, 1, 1]"]
    by (simp add: rng_ok_def no_empty_chunk_def)
qed

text \<open>
  C39. A refused connection is reported with the server's message: by \<^verbatim>\<open>tcp\<close> itself without fast
  open, by the first read with it; a read after that failed first read polls a completed future and
  panics.
\<close>

theorem tcp_dial_refused:
  assumes "rng_ok rng" "length a < 2 ^ 62" "tcp_response_ok (status, msg, padding)" "status \<noteq> 0"
    and "stream_bytes evs = tcp_response_wire (status, msg, padding) @ rest"
  shows "\<exists>request conn conn'.
    client_tcp rng False a evs = Ret (request, Some (Inl (RespDial \<lparr>dial_message = msg\<rparr>))) \<and>
    client_tcp rng True a evs = Ret (request, Some (Inr conn)) \<and>
    poll_read n conn = Ret (conn', ReadFailed (RespDial \<lparr>dial_message = msg\<rparr>)) \<and>
    poll_read n' conn' = Panic"
proof -
  obtain request where request: "write_tcp_request rng a = Ret request"
    using write_request_total [OF assms(1,2)] by blast
  obtain l evs' where loop: "response_loop [] evs = RespDone (False, msg) l evs'"
    using response_loop_reads [OF assms(3), of "[]" evs rest] assms(4,5) by auto
  show ?thesis by (simp add: client_tcp_def request loop poll_read_def)
qed

theorem tcp_dial_refused_witness:
  "\<exists>request conn conn'.
    client_tcp (\<lambda>k n. 0) False ''h:80'' [Chunk [1, 1], Chunk [110, 0]] =
      Ret (request, Some (Inl (RespDial \<lparr>dial_message = ''n''\<rparr>))) \<and>
    client_tcp (\<lambda>k n. 0) True ''h:80'' [Chunk [1, 1], Chunk [110, 0]] = Ret (request, Some (Inr conn)) \<and>
    poll_read 9 conn = Ret (conn', ReadFailed (RespDial \<lparr>dial_message = ''n''\<rparr>)) \<and>
    poll_read 9 conn' = Panic"
proof -
  have z: "varint_wire 0 = [0]" "varint_wire 1 = [1]" by code_simp+
  have "stream_bytes [Chunk [1, 1], Chunk [110, 0]] = tcp_response_wire (1, ''n'', []) @ []"
    by (simp add: z as_bytes_def)
  moreover have "tcp_response_ok (1, ''n'', [])"
    by (simp add: MAX_MESSAGE_LENGTH_def is_str_def as_bytes_def)
  ultimately show ?thesis
    using tcp_dial_refused [of "\<lambda>k n. 0" "''h:80''" 1 "''n''" "[]" "[Chunk [1, 1], Chunk [110, 0]]" "[]"]
    by (simp add: rng_ok_def)
qed





text \<open>
  C28. Waiting for the server's answer ends: whatever bytes come, in whatever chunks, the loop that
  reads the response is still waiting only while the stream is open and has yielded fewer bytes than
  the longest response, a stream that ends or fails earlier is reported as such, everything else is
  decided as a response or as invalid data, and no more is ever buffered than one read beyond that
  length.
\<close>

theorem tcp_response_decided:
  "case response_loop [] evs of
     RespPending b \<Rightarrow> b = stream_bytes evs \<and> stream_end evs = None \<and> length b < MAX_RESPONSE_LENGTH
   | RespDone _ l _ \<Rightarrow> length l < MAX_RESPONSE_LENGTH + 256
   | RespFailed (RespIo x) \<Rightarrow> \<exists>m. x = InvalidData m
   | RespFailed RespClosed \<Rightarrow>
       stream_end evs = Some Finished \<and> length (stream_bytes evs) < MAX_RESPONSE_LENGTH
   | RespFailed (RespRead x) \<Rightarrow>
       stream_end evs = Some (ReadErr x) \<and> length (stream_bytes evs) < MAX_RESPONSE_LENGTH
   | RespFailed (RespDial _) \<Rightarrow> False"
  using response_loop_decides [of "[]" evs, unfolded append_Nil] by (simp add: MAX_RESPONSE_LENGTH_def)

end
