(* ===== verification/Dataplane.thy ===== *)
theory Dataplane
  imports Transport "HOL-Library.AList"
begin

text \<open>
  The dataplane, \<^verbatim>\<open>crates/dataplane\<close>: the UDP NAT table (\<^verbatim>\<open>session.rs\<close>) with the replies of its
  sessions, the byte counting of the TCP relays (\<^verbatim>\<open>count.rs\<close>), and the loop that drives them
  (\<^verbatim>\<open>lib.rs\<close>). The \<^verbatim>\<open>HashMap\<close> is an association list with distinct keys; \<^verbatim>\<open>Instant\<close> is a number
  of nanoseconds. The upstream is a state \<^typ>\<open>'c\<close> with the operations \<open>create\<close> (open a session) and
  \<open>send\<close>; how the standard library prints and parses a socket address is a parameter.
\<close>

section \<open>The NAT table\<close>

record 'u nat_entry =
  entry_conn :: 'u
  last_activity :: nat

record 'u nat_sessions =
  nat_map :: "(socket_addr \<times> 'u nat_entry) list"
  nat_max :: nat

definition sessions_new :: "nat \<Rightarrow> 'u nat_sessions" where
  "sessions_new mx = \<lparr>nat_map = [], nat_max = mx\<rparr>"

definition get_or_create ::
  "('c \<Rightarrow> 'u option \<times> 'c) \<Rightarrow> socket_addr \<Rightarrow> nat \<Rightarrow> 'c \<Rightarrow> 'u nat_sessions \<Rightarrow>
   'u option \<times> 'c \<times> 'u nat_sessions" where
  "get_or_create create src now c s =
     (case map_of (nat_map s) src of
        Some e \<Rightarrow>
          (Some (entry_conn e), c, s\<lparr>nat_map := AList.update src (e\<lparr>last_activity := now\<rparr>) (nat_map s)\<rparr>)
      | None \<Rightarrow>
          if nat_max s \<le> length (nat_map s) then (None, c, s)
          else
            (case create c of
               (None, c') \<Rightarrow> (None, c', s)
             | (Some conn, c') \<Rightarrow>
                 (Some conn, c',
                  s\<lparr>nat_map := (src, \<lparr>entry_conn = conn, last_activity = now\<rparr>) # nat_map s\<rparr>)))"

datatype outcome = Sent bool | Dropped bool

definition forward ::
  "('c \<Rightarrow> 'u option \<times> 'c) \<Rightarrow> ('u \<Rightarrow> bytes \<Rightarrow> string \<Rightarrow> 'c \<Rightarrow> bool \<times> 'c) \<Rightarrow> (socket_addr \<Rightarrow> string) \<Rightarrow>
   socket_addr \<Rightarrow> socket_addr \<Rightarrow> bytes \<Rightarrow> nat \<Rightarrow> 'c \<Rightarrow> 'u nat_sessions \<Rightarrow> outcome \<times> 'c \<times> 'u nat_sessions" where
  "forward create send show_addr src dst d now c s =
     (let already_open = (src \<in> set (map fst (nat_map s))) in
      case get_or_create create src now c s of
        (None, c', s') \<Rightarrow> (Dropped False, c', s')
      | (Some conn, c', s') \<Rightarrow>
          let opened = (\<not> already_open);
              (ok, c'') = send conn d (show_addr dst) c'
          in (if ok then Sent opened else Dropped opened, c'', s'))"

text \<open>\<^verbatim>\<open>idle_keys\<close>; \<^verbatim>\<open>saturating_duration_since\<close> is the subtraction of natural numbers.\<close>

definition idle_keys :: "(socket_addr \<times> 'u nat_entry) list \<Rightarrow> nat \<Rightarrow> duration \<Rightarrow> socket_addr list" where
  "idle_keys m now idle = map fst (filter (\<lambda>(src, e). now - last_activity e > idle) m)"

definition reap_idle :: "nat \<Rightarrow> duration \<Rightarrow> 'u nat_sessions \<Rightarrow> 'u nat_sessions" where
  "reap_idle now idle s =
     s\<lparr>nat_map := fold AList.delete (idle_keys (nat_map s) now idle) (nat_map s)\<rparr>"

text \<open>
  The reply task of \<^verbatim>\<open>spawn_recv\<close>: each event is what \<^verbatim>\<open>conn.receive()\<close> resolved to, with the
  answer of \<^verbatim>\<open>deliver\<close> in case it is called, or the shutdown signal. The result is what was
  delivered and whether the task has ended.
\<close>

datatype recv_event = Received "(bytes \<times> string) option" bool | ShutdownSeen

fun reply_pump ::
  "(string \<Rightarrow> socket_addr option) \<Rightarrow> socket_addr \<Rightarrow> recv_event list \<Rightarrow>
   (socket_addr \<times> socket_addr \<times> bytes) list \<times> bool" where
  "reply_pump parse_addr src [] = ([], False)"
| "reply_pump parse_addr src (ShutdownSeen # evs) = ([], True)"
| "reply_pump parse_addr src (Received None ok # evs) = ([], True)"
| "reply_pump parse_addr src (Received (Some (d, from)) ok # evs) =
     (case parse_addr from of
        None \<Rightarrow> reply_pump parse_addr src evs
      | Some a \<Rightarrow>
          if ok then
            let (out, ended) = reply_pump parse_addr src evs in ((src, a, d) # out, ended)
          else ([(src, a, d)], True))"

section \<open>Counters\<close>

record dp_stats =
  stats_tx :: u64
  stats_rx :: u64
  tcp_flows :: u64
  udp_sessions :: u64
  flow_errors :: u64

definition counters_new :: dp_stats where
  "counters_new = \<lparr>stats_tx = 0, stats_rx = 0, tcp_flows = 0, udp_sessions = 0, flow_errors = 0\<rparr>"

text \<open>\<^verbatim>\<open>u64::try_from(n).unwrap_or(u64::MAX)\<close> on a length.\<close>

definition len_u64 :: "nat \<Rightarrow> u64" where
  "len_u64 n = (if n < 2 ^ 64 then of_nat n else - 1)"

text \<open>\<^verbatim>\<open>Counting::poll_read\<close> and \<^verbatim>\<open>poll_write\<close> given the inner stream's answer.\<close>

definition counting_read :: "read_poll \<Rightarrow> dp_stats \<Rightarrow> dp_stats" where
  "counting_read r k =
     (case r of ReadBytes b \<Rightarrow> k\<lparr>stats_rx := stats_rx k + len_u64 (length b)\<rparr> | _ \<Rightarrow> k)"

definition counting_write :: "write_poll \<Rightarrow> dp_stats \<Rightarrow> dp_stats" where
  "counting_write r k =
     (case r of Wrote n \<Rightarrow> k\<lparr>stats_tx := stats_tx k + len_u64 n\<rparr> | _ \<Rightarrow> k)"

text \<open>\<^verbatim>\<open>ReplyQueue::deliver\<close> counts before it queues.\<close>

definition deliver_count :: "bytes \<Rightarrow> dp_stats \<Rightarrow> dp_stats" where
  "deliver_count d k = k\<lparr>stats_rx := stats_rx k + len_u64 (length d)\<rparr>"

section \<open>The loop\<close>

definition GC_INTERVAL :: duration where "GC_INTERVAL = from_secs 30"
definition UDP_IDLE :: duration where "UDP_IDLE = from_secs (5 * 60)"

record limits =
  stack_buffer :: nat
  udp_buffer :: nat
  tcp_buffer :: nat
  max_tcp_flows :: nat
  max_udp_sessions :: nat

definition limits_default :: limits where
  "limits_default = \<lparr>stack_buffer = 512, udp_buffer = 128, tcp_buffer = 128, max_tcp_flows = 256,
     max_udp_sessions = 256\<rparr>"

record dp_config =
  dp_mtu :: nat
  dp_limits :: limits

definition dp_config_new :: "nat \<Rightarrow> dp_config" where
  "dp_config_new m = \<lparr>dp_mtu = m, dp_limits = limits_default\<rparr>"

record ('c, 'u) dataplane =
  dp_counters :: dp_stats
  dp_sessions :: "'u nat_sessions"
  permits :: nat
  relays :: nat
  dp_client :: 'c
  running :: bool

definition dp_start :: "limits \<Rightarrow> 'c \<Rightarrow> ('c, 'u) dataplane" where
  "dp_start l c =
     \<lparr>dp_counters = counters_new, dp_sessions = sessions_new (max_udp_sessions l),
      permits = max_tcp_flows l, relays = 0, dp_client = c, running = True\<rparr>"

text \<open>
  One iteration of the \<^verbatim>\<open>select!\<close> loop, or a step of one of the tasks it started: a relay reading
  from or writing to its tunnel, a relay ending (with or without an error; its permit is returned),
  or a session's reply being delivered.
\<close>

datatype dp_event =
    Accepted "socket_addr option"
  | Inbound "(bytes \<times> socket_addr \<times> socket_addr) option" nat
  | GcTick nat
  | RelayReads read_poll
  | RelayWrites write_poll
  | RelayEnds bool
  | Replied bytes
  | InfraFailed
  | ShutdownChanged

definition dp_stop :: "('c, 'u) dataplane \<Rightarrow> ('c, 'u) dataplane" where
  "dp_stop s =
     s\<lparr>running := False, permits := permits s + relays s, relays := 0,
       dp_sessions := (dp_sessions s)\<lparr>nat_map := []\<rparr>\<rparr>"

definition accept_flow :: "('c, 'u) dataplane \<Rightarrow> ('c, 'u) dataplane" where
  "accept_flow s =
     (let s = s\<lparr>dp_counters := (dp_counters s)\<lparr>tcp_flows := tcp_flows (dp_counters s) + 1\<rparr>\<rparr>
      in if permits s = 0 then s else s\<lparr>permits := permits s - 1, relays := relays s + 1\<rparr>)"

definition count_outcome :: "outcome \<Rightarrow> u64 \<Rightarrow> dp_stats \<Rightarrow> dp_stats" where
  "count_outcome o' len k =
     (case o' of
        Sent opened \<Rightarrow>
          let k = k\<lparr>stats_tx := stats_tx k + len\<rparr>
          in if opened then k\<lparr>udp_sessions := udp_sessions k + 1\<rparr> else k
      | Dropped opened \<Rightarrow>
          let k = k\<lparr>flow_errors := flow_errors k + 1\<rparr>
          in if opened then k\<lparr>udp_sessions := udp_sessions k + 1\<rparr> else k)"

definition udp_inbound ::
  "('c \<Rightarrow> 'u option \<times> 'c) \<Rightarrow> ('u \<Rightarrow> bytes \<Rightarrow> string \<Rightarrow> 'c \<Rightarrow> bool \<times> 'c) \<Rightarrow> (socket_addr \<Rightarrow> string) \<Rightarrow>
   bytes \<Rightarrow> socket_addr \<Rightarrow> socket_addr \<Rightarrow> nat \<Rightarrow> ('c, 'u) dataplane \<Rightarrow> ('c, 'u) dataplane" where
  "udp_inbound create send show_addr d src dst now s =
     (let (o', c', n') = forward create send show_addr src dst d now (dp_client s) (dp_sessions s)
      in s\<lparr>dp_counters := count_outcome o' (len_u64 (length d)) (dp_counters s),
           dp_sessions := n', dp_client := c'\<rparr>)"

definition relay_ends :: "bool \<Rightarrow> ('c, 'u) dataplane \<Rightarrow> ('c, 'u) dataplane" where
  "relay_ends ok s =
     (if relays s = 0 then s
      else
        let k = dp_counters s
        in s\<lparr>relays := relays s - 1, permits := permits s + 1,
             dp_counters := (if ok then k else k\<lparr>flow_errors := flow_errors k + 1\<rparr>)\<rparr>)"

fun dp_step ::
  "('c \<Rightarrow> 'u option \<times> 'c) \<Rightarrow> ('u \<Rightarrow> bytes \<Rightarrow> string \<Rightarrow> 'c \<Rightarrow> bool \<times> 'c) \<Rightarrow> (socket_addr \<Rightarrow> string) \<Rightarrow>
   dp_event \<Rightarrow> ('c, 'u) dataplane \<Rightarrow> ('c, 'u) dataplane" where
  "dp_step create send show_addr e s =
     (if \<not> running s then s
      else
        (case e of
           Accepted None \<Rightarrow> dp_stop s
         | Accepted (Some dst) \<Rightarrow> accept_flow s
         | Inbound None _ \<Rightarrow> dp_stop s
         | Inbound (Some (d, src, dst)) now \<Rightarrow> udp_inbound create send show_addr d src dst now s
         | GcTick now \<Rightarrow> s\<lparr>dp_sessions := reap_idle now UDP_IDLE (dp_sessions s)\<rparr>
         | RelayReads r \<Rightarrow> if relays s = 0 then s else s\<lparr>dp_counters := counting_read r (dp_counters s)\<rparr>
         | RelayWrites w \<Rightarrow> if relays s = 0 then s else s\<lparr>dp_counters := counting_write w (dp_counters s)\<rparr>
         | RelayEnds ok \<Rightarrow> relay_ends ok s
         | Replied d \<Rightarrow> s\<lparr>dp_counters := deliver_count d (dp_counters s)\<rparr>
         | InfraFailed \<Rightarrow> dp_stop s
         | ShutdownChanged \<Rightarrow> dp_stop s))"

text \<open>The upstream in use, \<^verbatim>\<open>client.udp().ok()\<close>.\<close>

definition client_create :: "client \<Rightarrow> nat option \<times> client" where
  "client_create cl =
     (case client_udp cl of (Inl _, cl') \<Rightarrow> (None, cl') | (Inr k, cl') \<Rightarrow> (Some k, cl'))"

section \<open>Invariants\<close>

definition nat_inv :: "'u nat_sessions \<Rightarrow> bool" where
  "nat_inv s \<longleftrightarrow> distinct (map fst (nat_map s)) \<and> length (nat_map s) \<le> nat_max s"

lemma delete_is_filter: "AList.delete k al = filter (\<lambda>p. fst p \<noteq> k) al"
  by (auto simp: AList.delete_eq intro!: filter_cong)

lemma fold_delete: "fold AList.delete ks al = filter (\<lambda>p. fst p \<notin> set ks) al"
  by (induction ks arbitrary: al) (auto simp: delete_is_filter intro!: filter_cong)

lemma reap_filter:
  assumes "distinct (map fst (nat_map s))"
  shows "nat_map (reap_idle now idle s) = filter (\<lambda>p. now - last_activity (snd p) \<le> idle) (nat_map s)"
proof -
  have "p \<in> set (nat_map s) \<Longrightarrow>
    fst p \<notin> set (idle_keys (nat_map s) now idle) \<longleftrightarrow> now - last_activity (snd p) \<le> idle" for p
    using assms eq_key_imp_eq_value [OF assms]
    by (cases p) (fastforce simp: idle_keys_def image_iff not_less split: prod.splits)
  then show ?thesis by (auto simp: reap_idle_def fold_delete intro!: filter_cong)
qed

lemma map_of_filter_values:
  assumes "distinct (map fst al)"
  shows "map_of (filter (\<lambda>p. P (snd p)) al) k = (case map_of al k of Some v \<Rightarrow> if P v then Some v else None | None \<Rightarrow> None)"
  using assms
proof (induction al)
  case (Cons p al)
  then show ?case
    by (cases p) (auto split: option.splits dest: map_of_SomeD simp: image_iff)
qed simp

lemma reap_inv: "nat_inv s \<Longrightarrow> nat_inv (reap_idle now idle s) \<and> nat_max (reap_idle now idle s) = nat_max s"
proof -
  assume inv: "nat_inv s"
  then have "nat_map (reap_idle now idle s) = filter (\<lambda>p. now - last_activity (snd p) \<le> idle) (nat_map s)"
    by (simp add: reap_filter nat_inv_def)
  moreover have "nat_max (reap_idle now idle s) = nat_max s" by (simp add: reap_idle_def)
  ultimately show ?thesis
    using inv unfolding nat_inv_def
    by (auto simp: distinct_map_filter intro: le_trans [OF length_filter_le])
qed

text \<open>What a lookup does to the table, by cases.\<close>

lemma length_update_present: "(k, w) \<in> set al \<Longrightarrow> length (AList.update k v al) = length al"
  by (induction al) auto

lemma get_or_create_cases:
  assumes "get_or_create create src now c s = (r, c', s')" "nat_inv s"
  shows "nat_inv s'" "nat_max s' = nat_max s"
    "map_of (nat_map s') =
       (case r of None \<Rightarrow> map_of (nat_map s)
        | Some conn \<Rightarrow> (map_of (nat_map s))(src \<mapsto> \<lparr>entry_conn = conn, last_activity = now\<rparr>))"
    "length (nat_map s') =
       length (nat_map s) + (if r \<noteq> None \<and> src \<notin> set (map fst (nat_map s)) then 1 else 0)"
    "\<And>e. map_of (nat_map s) src = Some e \<Longrightarrow> r = Some (entry_conn e)"
    "src \<notin> set (map fst (nat_map s)) \<Longrightarrow> nat_max s \<le> length (nat_map s) \<Longrightarrow> r = None \<and> c' = c \<and> s' = s"
proof -
  have keys: "map_of (nat_map s) src = None \<longleftrightarrow> src \<notin> set (map fst (nat_map s))"
    by (simp add: map_of_eq_None_iff)
  show "nat_inv s'" "nat_max s' = nat_max s"
    "map_of (nat_map s') =
       (case r of None \<Rightarrow> map_of (nat_map s)
        | Some conn \<Rightarrow> (map_of (nat_map s))(src \<mapsto> \<lparr>entry_conn = conn, last_activity = now\<rparr>))"
    "length (nat_map s') =
       length (nat_map s) + (if r \<noteq> None \<and> src \<notin> set (map fst (nat_map s)) then 1 else 0)"
    "\<And>e. map_of (nat_map s) src = Some e \<Longrightarrow> r = Some (entry_conn e)"
    "src \<notin> set (map fst (nat_map s)) \<Longrightarrow> nat_max s \<le> length (nat_map s) \<Longrightarrow> r = None \<and> c' = c \<and> s' = s"
    using assms keys
    by (auto simp: get_or_create_def nat_inv_def length_update_present update_conv distinct_update
        split: option.splits if_splits prod.splits)
qed

lemma forward_cases:
  assumes "forward create send show_addr src dst d now c s = (o', c', s')" "nat_inv s"
  obtains r c1 where "get_or_create create src now c s = (r, c1, s')"
    "case r of None \<Rightarrow> o' = Dropped False \<and> c' = c1
     | Some conn \<Rightarrow>
         let opened = (src \<notin> set (map fst (nat_map s))) in
         o' = (if fst (send conn d (show_addr dst) c1) then Sent opened else Dropped opened) \<and>
         c' = snd (send conn d (show_addr dst) c1)"
  using assms by (auto simp: forward_def Let_def split: option.splits prod.splits)

definition dp_inv :: "limits \<Rightarrow> ('c, 'u) dataplane \<Rightarrow> bool" where
  "dp_inv l s \<longleftrightarrow> nat_inv (dp_sessions s) \<and> nat_max (dp_sessions s) = max_udp_sessions l \<and>
     permits s + relays s = max_tcp_flows l"

lemma dp_start_inv: "dp_inv l (dp_start l c)"
  by (simp add: dp_inv_def dp_start_def sessions_new_def nat_inv_def)

lemma udp_inbound_inv:
  assumes "dp_inv l s"
  shows "dp_inv l (udp_inbound create send show_addr d src dst now s)"
proof -
  obtain o' c' n' where f: "forward create send show_addr src dst d now (dp_client s) (dp_sessions s) = (o', c', n')"
    by (metis prod_cases3)
  obtain r c1 where g: "get_or_create create src now (dp_client s) (dp_sessions s) = (r, c1, n')"
    using forward_cases [OF f] assms unfolding dp_inv_def by metis
  have "nat_inv n'" "nat_max n' = nat_max (dp_sessions s)"
    using get_or_create_cases(1,2) [OF g] assms unfolding dp_inv_def by blast+
  with assms show ?thesis by (simp add: udp_inbound_def f dp_inv_def)
qed

lemma dp_stop_inv: "dp_inv l s \<Longrightarrow> dp_inv l (dp_stop s)"
  by (simp add: dp_inv_def dp_stop_def nat_inv_def)

lemma accept_flow_inv: "dp_inv l s \<Longrightarrow> dp_inv l (accept_flow s)"
  by (auto simp: dp_inv_def accept_flow_def Let_def)

lemma relay_ends_inv: "dp_inv l s \<Longrightarrow> dp_inv l (relay_ends ok s)"
  by (auto simp: dp_inv_def relay_ends_def Let_def)

lemma sweep_inv: "dp_inv l s \<Longrightarrow> dp_inv l (s\<lparr>dp_sessions := reap_idle now idle (dp_sessions s)\<rparr>)"
  using reap_inv [of "dp_sessions s" now idle] by (simp add: dp_inv_def)

lemma count_inv: "dp_inv l (s\<lparr>dp_counters := k\<rparr>) \<longleftrightarrow> dp_inv l s"
  by (simp add: dp_inv_def)

lemmas dp_step_invs = dp_stop_inv accept_flow_inv relay_ends_inv sweep_inv udp_inbound_inv

lemma dp_step_inv: "dp_inv l s \<Longrightarrow> dp_inv l (dp_step create send show_addr e s)"
  by (simp add: count_inv dp_step_invs split: dp_event.splits option.splits prod.splits)

interpretation dp: event_system "dp_step create send show_addr" "dp_inv l"
  by unfold_locales (rule dp_step_inv)

text \<open>The sessions that a trace closes, by sweeping or by stopping.\<close>

definition open_sessions :: "('c, 'u) dataplane \<Rightarrow> nat" where
  "open_sessions s = length (nat_map (dp_sessions s))"

fun closed_sessions :: "(dp_event \<Rightarrow> ('c, 'u) dataplane \<Rightarrow> ('c, 'u) dataplane) \<Rightarrow> dp_event list \<Rightarrow>
  ('c, 'u) dataplane \<Rightarrow> nat" where
  "closed_sessions step [] s = 0"
| "closed_sessions step (e # es) s =
     (open_sessions s - open_sessions (step e s)) + closed_sessions step es (step e s)"

lemma forward_counted:
  assumes "forward create send show_addr src dst d now c s = (o', c', s')" "nat_inv s"
  shows "length (nat_map s') = length (nat_map s) + (if o' \<in> {Sent True, Dropped True} then 1 else 0)"
proof -
  obtain r c1 where g: "get_or_create create src now c s = (r, c1, s')"
    "case r of None \<Rightarrow> o' = Dropped False \<and> c' = c1
     | Some conn \<Rightarrow>
         let opened = (src \<notin> set (map fst (nat_map s))) in
         o' = (if fst (send conn d (show_addr dst) c1) then Sent opened else Dropped opened) \<and>
         c' = snd (send conn d (show_addr dst) c1)"
    using forward_cases [OF assms] .
  show ?thesis using get_or_create_cases(4) [OF g(1) assms(2)] g(2)
    by (cases r) (auto simp: Let_def)
qed

lemma udp_inbound_counted:
  assumes "dp_inv l s"
  shows "udp_sessions (dp_counters (udp_inbound create send show_addr d src dst now s)) + of_nat (open_sessions s) =
    udp_sessions (dp_counters s) + of_nat (open_sessions (udp_inbound create send show_addr d src dst now s)) \<and>
    open_sessions s \<le> open_sessions (udp_inbound create send show_addr d src dst now s)"
proof -
  obtain o' c' n' where f: "forward create send show_addr src dst d now (dp_client s) (dp_sessions s) = (o', c', n')"
    by (metis prod_cases3)
  have "length (nat_map n') = length (nat_map (dp_sessions s)) + (if o' \<in> {Sent True, Dropped True} then 1 else 0)"
    using forward_counted [OF f] assms by (simp add: dp_inv_def)
  then show ?thesis
    by (auto simp: udp_inbound_def f open_sessions_def count_outcome_def Let_def split: outcome.splits)
qed

lemma dp_step_counted:
  assumes "dp_inv l s"
    and s'_def: "s' = dp_step create send show_addr e s"
  shows "udp_sessions (dp_counters s') + of_nat (open_sessions s) =
    udp_sessions (dp_counters s) + of_nat (open_sessions s' + (open_sessions s - open_sessions s'))"
proof -
  have reap: "open_sessions (s\<lparr>dp_sessions := reap_idle now idle (dp_sessions s)\<rparr>) \<le> open_sessions s" for now idle
    using assms by (simp add: open_sessions_def reap_filter dp_inv_def nat_inv_def)
  show ?thesis
    using udp_inbound_counted [OF assms(1), of create send show_addr] reap unfolding s'_def
    by (auto simp: dp_stop_def open_sessions_def accept_flow_def relay_ends_def Let_def
        counting_read_def counting_write_def deliver_count_def
        split: dp_event.splits option.splits prod.splits read_poll.splits write_poll.splits)
qed

lemma count_trans:
  fixes a :: u64
  assumes "a + o1 = u1 + (n + c)" "u1 + o0 = u0 + (o1 + d)"
  shows "a + o0 = u0 + (n + (d + c))"
proof -
  have "(a + o0) + (u1 + o1) = (u0 + (n + (d + c))) + (u1 + o1)"
    using arg_cong2 [OF assms, of "(+)"] by (simp add: ac_simps)
  then show ?thesis by simp
qed

lemma dp_run_counted:
  assumes "dp_inv l s"
  shows "udp_sessions (dp_counters (fold (dp_step create send show_addr) es s)) + of_nat (open_sessions s) =
    udp_sessions (dp_counters s) + of_nat (open_sessions (fold (dp_step create send show_addr) es s) +
      closed_sessions (dp_step create send show_addr) es s)"
  using assms
proof (induction es arbitrary: s)
  case (Cons e es)
  let ?s = "dp_step create send show_addr e s"
  from Cons(1) [OF dp_step_inv [OF Cons(2)], of create send show_addr e]
    dp_step_counted [OF Cons(2) refl, of create send show_addr e]
  show ?case by (simp del: dp_step.simps) (rule count_trans)
qed simp

text \<open>The events of a session whose every reply is delivered.\<close>

definition replies :: "(bytes \<times> string) list \<Rightarrow> recv_event list" where
  "replies ds = map (\<lambda>p. Received (Some p) True) ds"

definition addressed :: "(string \<Rightarrow> socket_addr option) \<Rightarrow> socket_addr \<Rightarrow> (bytes \<times> string) list \<Rightarrow>
  (socket_addr \<times> socket_addr \<times> bytes) list" where
  "addressed parse_addr src ds =
     List.map_filter (\<lambda>(d, from). map_option (\<lambda>a. (src, a, d)) (parse_addr from)) ds"

lemma reply_pump_all:
  "reply_pump parse_addr src (replies ds @ evs) =
     (addressed parse_addr src ds @ fst (reply_pump parse_addr src evs), snd (reply_pump parse_addr src evs))"
  by (induction ds) (auto simp: replies_def addressed_def List.map_filter_simps split: option.splits prod.splits)

lemma reply_pump_sound:
  "(s, a, d) \<in> set (fst (reply_pump parse_addr src evs)) \<Longrightarrow>
     s = src \<and> (\<exists>from ok. Received (Some (d, from)) ok \<in> set evs \<and> parse_addr from = Some a)"
  by (induction parse_addr src evs rule: reply_pump.induct)
    (auto split: option.splits if_splits prod.splits)

text \<open>A flow accepted at the cap is closed at once: it is counted as a flow and not as an error.\<close>

lemma capped_flow_counts:
  assumes "running s" "permits s = 0"
  shows "dp_step create send show_addr (Accepted (Some dst)) s =
    s\<lparr>dp_counters := (dp_counters s)\<lparr>tcp_flows := tcp_flows (dp_counters s) + 1\<rparr>\<rparr>"
  using assms by (simp add: accept_flow_def)

section \<open>Properties\<close>

text \<open>
  C16. Whatever the events, the dataplane stays within its limits: at most the configured number of
  UDP sessions, one per source, at most the configured number of TCP relays, with every permit
  either free or held by a relay; and the session counter counts every session that was ever
  opened exactly once, up to wrap-around.
\<close>

theorem dataplane_bounds:
  "let s = fold (dp_step create send show_addr) es (dp_start l c) in
     distinct (map fst (nat_map (dp_sessions s))) \<and>
     open_sessions s \<le> max_udp_sessions l \<and>
     relays s \<le> max_tcp_flows l \<and> permits s + relays s = max_tcp_flows l \<and>
     udp_sessions (dp_counters s) =
       of_nat (open_sessions s + closed_sessions (dp_step create send show_addr) es (dp_start l c))"
proof -
  let ?s = "fold (dp_step create send show_addr) es (dp_start l c)"
  have "dp_inv l ?s" by (rule dp.run_inv [OF dp_start_inv])
  moreover have "udp_sessions (dp_counters ?s) =
      of_nat (open_sessions ?s + closed_sessions (dp_step create send show_addr) es (dp_start l c))"
    using dp_run_counted [OF dp_start_inv, of create send show_addr es l c]
    by (simp add: dp_start_def counters_new_def open_sessions_def sessions_new_def del: dp_step.simps)
  ultimately show ?thesis
    unfolding dp_inv_def nat_inv_def open_sessions_def Let_def by auto
qed

text \<open>
  Forwarding is isolated per source: a datagram goes out on its source's own session, which is
  the one already open if there is one, other sources' sessions are untouched, \<^verbatim>\<open>opened\<close> is reported
  exactly when this datagram registered the session, also when its send failed, and a new source
  that finds the table full is dropped with nothing opened.
\<close>

lemma nat_forward_isolated:
  assumes "forward create send show_addr src dst d now c s = (o', c', s')" "nat_inv s"
  shows "nat_inv s' \<and>
    (\<forall>a. a \<noteq> src \<longrightarrow> map_of (nat_map s') a = map_of (nat_map s) a) \<and>
    (\<forall>e. map_of (nat_map s) src = Some e \<longrightarrow>
       map_of (nat_map s') src = Some \<lparr>entry_conn = entry_conn e, last_activity = now\<rparr>) \<and>
    (\<forall>b. o' = Sent b \<longrightarrow>
       (\<exists>e c1. map_of (nat_map s') src = Some e \<and> last_activity e = now \<and>
          send (entry_conn e) d (show_addr dst) c1 = (True, c'))) \<and>
    (o' \<in> {Sent True, Dropped True} \<longleftrightarrow>
       src \<notin> set (map fst (nat_map s)) \<and> src \<in> set (map fst (nat_map s'))) \<and>
    (src \<notin> set (map fst (nat_map s)) \<longrightarrow> length (nat_map s) = nat_max s \<longrightarrow>
       o' = Dropped False \<and> c' = c \<and> s' = s)"
proof -
  obtain r c1 where g: "get_or_create create src now c s = (r, c1, s')"
    and r: "case r of None \<Rightarrow> o' = Dropped False \<and> c' = c1
     | Some conn \<Rightarrow>
         let opened = (src \<notin> set (map fst (nat_map s))) in
         o' = (if fst (send conn d (show_addr dst) c1) then Sent opened else Dropped opened) \<and>
         c' = snd (send conn d (show_addr dst) c1)"
    using forward_cases [OF assms] .
  note cs = get_or_create_cases [OF g assms(2)]
  have dom: "src \<in> set (map fst (nat_map s')) \<longleftrightarrow> r \<noteq> None \<or> src \<in> set (map fst (nat_map s))"
    using cs(3) by (cases r) (auto simp flip: dom_map_of_conv_image_fst)
  show ?thesis
  proof (intro conjI)
    show "nat_inv s'" by (rule cs(1))
    show "\<forall>a. a \<noteq> src \<longrightarrow> map_of (nat_map s') a = map_of (nat_map s) a"
      using cs(3) by (cases r) auto
    show "\<forall>e. map_of (nat_map s) src = Some e \<longrightarrow>
       map_of (nat_map s') src = Some \<lparr>entry_conn = entry_conn e, last_activity = now\<rparr>"
      using cs(3,5) by auto
    show "\<forall>b. o' = Sent b \<longrightarrow>
       (\<exists>e c1. map_of (nat_map s') src = Some e \<and> last_activity e = now \<and>
          send (entry_conn e) d (show_addr dst) c1 = (True, c'))"
      using cs(3) r by (cases r) (auto simp: Let_def split: if_splits intro!: prod_eqI exI [of _ c1])
    show "o' \<in> {Sent True, Dropped True} \<longleftrightarrow>
       src \<notin> set (map fst (nat_map s)) \<and> src \<in> set (map fst (nat_map s'))"
      using r unfolding dom by (cases r) (auto simp: Let_def)
    show "src \<notin> set (map fst (nat_map s)) \<longrightarrow> length (nat_map s) = nat_max s \<longrightarrow>
       o' = Dropped False \<and> c' = c \<and> s' = s"
      using cs(6) r by auto
  qed
qed

text \<open>
  Sweeping removes exactly the sessions idle for longer than the limit and keeps the others as
  they are; a session that has just carried a datagram survives a sweep at any time up to the limit
  and is gone at any later one.
\<close>

lemma nat_reap_exact:
  assumes "nat_inv s"
  shows "map_of (nat_map (reap_idle now idle s)) a =
      (case map_of (nat_map s) a of
         None \<Rightarrow> None
       | Some e \<Rightarrow> if now \<le> last_activity e + idle then Some e else None) \<and>
    (forward create send show_addr a dst d t c s = (Sent b, c', s') \<longrightarrow>
       (map_of (nat_map (reap_idle now idle s')) a \<noteq> None \<longleftrightarrow> now \<le> t + idle))"
proof -
  have reap: "map_of (nat_map (reap_idle now idle s)) a =
      (case map_of (nat_map s) a of
         None \<Rightarrow> None
       | Some e \<Rightarrow> if now \<le> last_activity e + idle then Some e else None)" if "nat_inv s" for s :: "'a nat_sessions"
    using map_of_filter_values [of "nat_map s" "\<lambda>e. now - last_activity e \<le> idle" a] that
    by (simp add: reap_filter nat_inv_def le_diff_conv add.commute cong: option.case_cong)
  have "map_of (nat_map (reap_idle now idle s')) a \<noteq> None \<longleftrightarrow> now \<le> t + idle"
    if f: "forward create send show_addr a dst d t c s = (Sent b, c', s')"
  proof -
    have "\<exists>r c1. get_or_create create a t c s = (r, c1, s') \<and> r \<noteq> None"
      by (rule forward_cases [OF f assms]) (auto split: option.splits)
    then obtain r c1 where g: "get_or_create create a t c s = (r, c1, s')" "r \<noteq> None" by blast
    then obtain conn where "map_of (nat_map s') a = Some \<lparr>entry_conn = conn, last_activity = t\<rparr>"
      using get_or_create_cases(3) [OF g(1) assms] by auto
    with reap [OF get_or_create_cases(1) [OF g(1) assms]] show ?thesis by simp
  qed
  with reap [OF assms] show ?thesis by blast
qed

text \<open>
  Replies return to the source whose session received them: as long as the app side takes them,
  each datagram whose sender is an address is delivered once, in order, unchanged and from that
  sender; nothing else is ever delivered; and a session that closes ends its task.
\<close>

lemma reply_pump_correct:
  "fst (reply_pump parse_addr src (replies ds)) = addressed parse_addr src ds \<and>
   reply_pump parse_addr src (replies ds @ Received None ok # evs) = (addressed parse_addr src ds, True) \<and>
   reply_pump parse_addr src (replies ds @ ShutdownSeen # evs) = (addressed parse_addr src ds, True) \<and>
   set (fst (reply_pump parse_addr src evs)) \<subseteq>
     {(s, a, d). s = src \<and> (\<exists>from ok. Received (Some (d, from)) ok \<in> set evs \<and> parse_addr from = Some a)}"
  using reply_pump_all [of parse_addr src ds "[]"] reply_pump_sound [of _ _ _ parse_addr src evs]
  by (auto simp: reply_pump_all)

end
