(* ===== verification/Netstack.thy ===== *)
theory Netstack
  imports Prelude
begin

text \<open>
  The socket-style API over the user-space network stack, \<^verbatim>\<open>crates/netstack\<close>: building the stack,
  the two pumps between it and the TUN device, the queue of UDP replies with its single writer, and
  the set of infrastructure tasks. The stack itself (\<^verbatim>\<open>netstack-smoltcp\<close>) and the device (\<^verbatim>\<open>tun-rs\<close>)
  are parameters: what each call returned.
\<close>

section \<open>Building the stack\<close>

text \<open>
  An \<^verbatim>\<open>anyhow::Error\<close> is the list of the contexts added to it, the outermost first, and the text
  of the error they were added to.
\<close>

type_synonym anyhow = "string list"

fun with_ctx :: "string \<Rightarrow> anyhow + 'a \<Rightarrow> anyhow + 'a" where
  "with_ctx m (Inl e) = Inl (m # e)"
| "with_ctx m (Inr x) = Inr x"

definition ok_or_else :: "'a option \<Rightarrow> anyhow \<Rightarrow> anyhow + 'a" where
  "ok_or_else x e = (case x of None \<Rightarrow> Inl e | Some v \<Rightarrow> Inr v)"

record ns_config =
  ns_mtu :: nat
  ns_stack_buffer :: nat
  ns_udp_buffer :: nat
  ns_tcp_buffer :: nat

text \<open>The settings given to \<^verbatim>\<open>StackBuilder\<close>.\<close>

record stack_settings =
  st_tcp :: bool
  st_udp :: bool
  st_icmp :: bool
  st_config :: ns_config

text \<open>The tasks \<^verbatim>\<open>build\<close> spawns; the TUN reader with the length of its buffer.\<close>

datatype infra_task = StackRunner | TunReader nat | TunWriter | UdpWriter

record ('u, 'l) sockets =
  sk_tcp :: 'l
  sk_udp :: 'u
  sk_infra :: "infra_task list"

definition build ::
  "(stack_settings \<Rightarrow> anyhow + ('r option \<times> 'u option \<times> 'l option)) \<Rightarrow> ns_config \<Rightarrow> anyhow + ('u, 'l) sockets" where
  "build stack_builder c =
     and_then (with_ctx ''build netstack''
        (stack_builder \<lparr>st_tcp = True, st_udp = True, st_icmp = True, st_config = c\<rparr>)) (\<lambda>(runner, udp_socket, tcp_listener).
     and_then (ok_or_else runner [''netstack runner missing'']) (\<lambda>runner.
     and_then (ok_or_else udp_socket [''netstack UDP socket missing'']) (\<lambda>udp_socket.
     and_then (ok_or_else tcp_listener [''netstack TCP listener missing'']) (\<lambda>tcp_listener.
     Inr \<lparr>sk_tcp = tcp_listener, sk_udp = udp_socket,
          sk_infra = [StackRunner, TunReader (max (ns_mtu c) 1500), TunWriter, UdpWriter]\<rparr>))))"

section \<open>The pumps\<close>

text \<open>
  TUN to stack. Each event is one \<^verbatim>\<open>device.recv\<close>: an error, or the bytes it put at the front of
  the buffer with the length it returned, and whether the stack takes the packet in case it is
  offered. The result is what the stack was given, and whether the task has ended.
\<close>

datatype tun_read = TunFailed | TunGot bytes nat bool

definition fill_buf :: "bytes \<Rightarrow> bytes \<Rightarrow> bytes" where
  "fill_buf b buf = take (length buf) b @ drop (length b) buf"

fun tun_reader :: "bytes \<Rightarrow> tun_read list \<Rightarrow> bytes list \<times> bool" where
  "tun_reader buf [] = ([], False)"
| "tun_reader buf (TunFailed # evs) = ([], True)"
| "tun_reader buf (TunGot b n ok # evs) =
     (let buf = fill_buf b buf in
      if length buf < n then tun_reader buf evs
      else if ok then let (out, ended) = tun_reader buf evs in (take n buf # out, ended)
      else ([take n buf], True))"

text \<open>Stack to TUN: the stack's next packet (or an error, or its end) and whether the device takes it.\<close>

fun tun_writer :: "((string + bytes) option \<times> bool) list \<Rightarrow> bytes list \<times> bool" where
  "tun_writer [] = ([], False)"
| "tun_writer ((None, _) # evs) = ([], True)"
| "tun_writer ((Some (Inl e), _) # evs) = tun_writer evs"
| "tun_writer ((Some (Inr pkt), ok) # evs) =
     (if ok then let (out, ended) = tun_writer evs in (pkt # out, ended) else ([pkt], True))"

section \<open>Flows and replies\<close>

text \<open>\<^verbatim>\<open>TcpAcceptor::accept\<close> on what the listener yields: the stream with the address dialled.\<close>

definition tcp_accept :: "('s \<times> socket_addr \<times> socket_addr) option \<Rightarrow> ('s \<times> socket_addr) option" where
  "tcp_accept x = map_option (\<lambda>(stream, _, remote). (stream, remote)) x"

text \<open>A queued reply: payload, the remote it comes from, the app's address.\<close>

type_synonym reply = "bytes \<times> socket_addr \<times> socket_addr"

definition REPLY_CHANNEL :: nat where "REPLY_CHANNEL = 256"

text \<open>
  The bounded channel with its writer: the replies that wait, those handed to the stack, and
  whether the writer still runs.
\<close>

record reply_writer =
  waiting :: "reply list"
  emitted :: "reply list"
  alive :: bool

definition writer_new :: reply_writer where
  "writer_new = \<lparr>waiting = [], emitted = [], alive = True\<rparr>"

text \<open>
  \<^verbatim>\<open>UdpSender::send\<close>: false once the writer is gone; \<^term>\<open>None\<close> is a sender that waits for room.
\<close>

definition udp_send :: "reply \<Rightarrow> reply_writer \<Rightarrow> bool option \<times> reply_writer" where
  "udp_send r w =
     (if \<not> alive w then (Some False, w)
      else if length (waiting w) < REPLY_CHANNEL then (Some True, w\<lparr>waiting := waiting w @ [r]\<rparr>)
      else (None, w))"

definition same_family :: "reply \<Rightarrow> bool" where
  "same_family r = (case r of (d, from, src) \<Rightarrow> is_ipv4 (fst from) = is_ipv4 (fst src))"

text \<open>One turn of the writer; \<open>ok\<close> is whether the stack takes the datagram in case it is sent.\<close>

definition writer_turn :: "bool \<Rightarrow> reply_writer \<Rightarrow> reply_writer" where
  "writer_turn ok w =
     (if \<not> alive w then w
      else case waiting w of
        [] \<Rightarrow> w
      | r # rs \<Rightarrow>
          if \<not> same_family r then w\<lparr>waiting := rs\<rparr>
          else if ok then w\<lparr>waiting := rs, emitted := emitted w @ [r]\<rparr>
          else w\<lparr>waiting := [], alive := False\<rparr>)"

datatype writer_event = SendReply reply | WriterTurn bool

fun writer_step :: "writer_event \<Rightarrow> reply_writer \<Rightarrow> reply_writer" where
  "writer_step (SendReply r) w = snd (udp_send r w)"
| "writer_step (WriterTurn ok) w = writer_turn ok w"

text \<open>
  \<^verbatim>\<open>Infra\<close>: the tasks with whether each has ended. \<^verbatim>\<open>join_next\<close> resolves when one has, or at once
  on an empty set.
\<close>

type_synonym infra = "(infra_task \<times> bool) list"

definition infra_failed :: "infra \<Rightarrow> bool" where
  "infra_failed ts \<longleftrightarrow> ts = [] \<or> (\<exists>t \<in> set ts. snd t)"

definition infra_shutdown :: "infra \<Rightarrow> infra" where
  "infra_shutdown ts = []"

section \<open>The device buffer\<close>

text \<open>
  The buffer is reused, so a short packet leaves the bytes of a longer one behind it. What the
  stack gets is nevertheless each packet as it was read, provided the device reports the length it
  wrote.
\<close>

definition packet_reads :: "bytes list \<Rightarrow> tun_read list" where
  "packet_reads ps = map (\<lambda>p. TunGot p (length p) True) ps"

lemma length_fill_buf [simp]: "length (fill_buf b buf) = length buf"
  by (simp add: fill_buf_def)

lemma take_fill_buf: "length b \<le> length buf \<Longrightarrow> take (length b) (fill_buf b buf) = b"
  by (simp add: fill_buf_def)

lemma tun_reader_packets:
  assumes "\<And>p. p \<in> set ps \<Longrightarrow> length p \<le> length buf"
  shows "\<exists>buf'. length buf' = length buf \<and>
    tun_reader buf (packet_reads ps @ evs) = (ps @ fst (tun_reader buf' evs), snd (tun_reader buf' evs))"
  using assms
proof (induction ps arbitrary: buf)
  case (Cons p ps)
  then obtain buf' where "length buf' = length (fill_buf p buf)"
    "tun_reader (fill_buf p buf) (packet_reads ps @ evs) = (ps @ fst (tun_reader buf' evs), snd (tun_reader buf' evs))"
    by (metis length_fill_buf list.set_intros(2))
  with Cons(2) [of p] show ?case
    by (intro exI [of _ buf']) (simp add: packet_reads_def take_fill_buf)
qed (auto simp: packet_reads_def)

text \<open>A stack that was built has all four tasks, and its reader takes every packet of the MTU.\<close>

lemma build_ok:
  assumes "build stack_builder c = Inr s"
  shows "\<exists>n. sk_infra s = [StackRunner, TunReader n, TunWriter, UdpWriter] \<and> ns_mtu c \<le> n \<and> 1500 \<le> n"
  using assms by (auto simp: build_def ok_or_else_def and_then_eq_Inr split: option.splits)

section \<open>The writer keeps the order\<close>

text \<open>The replies a run of the writer accepted.\<close>

fun accepted :: "writer_event list \<Rightarrow> reply_writer \<Rightarrow> reply list" where
  "accepted [] w = []"
| "accepted (e # es) w =
     (case e of
        SendReply r \<Rightarrow> if fst (udp_send r w) = Some True then [r] else []
      | WriterTurn _ \<Rightarrow> []) @ accepted es (writer_step e w)"

definition writer_inv :: "reply_writer \<Rightarrow> bool" where
  "writer_inv w \<longleftrightarrow> length (waiting w) \<le> REPLY_CHANNEL \<and> (\<forall>r \<in> set (emitted w). same_family r)"

lemma writer_step_inv: "writer_inv w \<Longrightarrow> writer_inv (writer_step e w)"
  by (cases e) (auto simp: writer_inv_def udp_send_def writer_turn_def split: list.splits)

interpretation writer: event_system writer_step writer_inv
  by unfold_locales (rule writer_step_inv)

lemma writer_dead: "\<not> alive w \<Longrightarrow> fold writer_step es w = w \<and> accepted es w = []"
  by (induction es) (auto simp: udp_send_def writer_turn_def split: writer_event.splits elim!: writer_step.elims)

text \<open>
  While the writer runs, what the stack was given and what waits are together the accepted replies
  of one family, in order; once it has stopped, what was given is still a prefix of them.
\<close>

lemma writer_run:
  fixes es w
  defines "w' \<equiv> fold writer_step es w"
  assumes "alive w"
  shows "\<exists>lost. emitted w' @ filter same_family (waiting w') @ lost =
      emitted w @ filter same_family (waiting w @ accepted es w) \<and> (alive w' \<longrightarrow> lost = [])"
  using assms(2) unfolding w'_def
proof (induction es arbitrary: w)
  case (Cons e es)
  show ?case
  proof (cases "alive (writer_step e w)")
    case True
    from Cons(1) [OF this] Cons(2) True show ?thesis
      by (cases e) (auto simp: udp_send_def writer_turn_def split: list.splits if_splits)
  next
    case False
    then obtain r rs where "e = WriterTurn False" "waiting w = r # rs" "same_family r"
      using Cons(2) by (cases e) (auto simp: udp_send_def writer_turn_def split: list.splits if_splits)
    with Cons(2) writer_dead [OF False, of es] show ?thesis by (simp add: writer_turn_def)
  qed
qed simp

end
