(* ===== verification/UrlCodec.thy ===== *)
theory UrlCodec
  imports Prelude
begin

text \<open>
  The two encoding crates the link parser relies on, \<^verbatim>\<open>percent-encoding\<close> and
  \<^verbatim>\<open>form_urlencoded\<close>, as a parameter \<open>url_codec\<close> with the documented behaviour \<open>codec_ok\<close>. The
  second half is a concrete codec that has this behaviour, so the theorems under \<open>codec_ok\<close> are
  about something.
\<close>

section \<open>The parameter\<close>

text \<open>An \<^verbatim>\<open>AsciiSet\<close>: the ASCII characters to escape. Non-ASCII bytes always are.\<close>

type_synonym ascii_set = "char \<Rightarrow> bool"

record url_codec =
  pct_encode :: "ascii_set \<Rightarrow> string \<Rightarrow> string"
  pct_decode :: "string \<Rightarrow> bytes"
  form_serialize :: "(string \<times> string) list \<Rightarrow> string"
  form_parse :: "string \<Rightarrow> (string \<times> string) list"

definition hex_chars :: string where "hex_chars = ''0123456789ABCDEF''"

definition is_alnum :: "char \<Rightarrow> bool" where
  "is_alnum c \<longleftrightarrow> (let n = (of_char c :: nat) in
     (48 \<le> n \<and> n \<le> 57) \<or> (65 \<le> n \<and> n \<le> 90) \<or> (97 \<le> n \<and> n \<le> 122))"

text \<open>The crate's sets \<^verbatim>\<open>NON_ALPHANUMERIC\<close> and \<^verbatim>\<open>CONTROLS\<close>.\<close>

definition NON_ALPHANUMERIC :: ascii_set where
  "NON_ALPHANUMERIC c \<longleftrightarrow> (of_char c :: nat) < 128 \<and> \<not> is_alnum c"

definition CONTROLS :: ascii_set where
  "CONTROLS c \<longleftrightarrow> (of_char c :: nat) < 32 \<or> (of_char c :: nat) = 127"

definition codec_ok :: "url_codec \<Rightarrow> bool" where
  "codec_ok u \<longleftrightarrow>
     (\<forall>A s. A (CHR ''%'') \<longrightarrow> pct_decode u (pct_encode u A s) = as_bytes s) \<and>
     (\<forall>A s c. c \<in> set (pct_encode u A s) \<longrightarrow>
        c = CHR ''%'' \<or> c \<in> set hex_chars \<or> (c \<in> set s \<and> \<not> A c)) \<and>
     (\<forall>A s. s \<noteq> [] \<longrightarrow> pct_encode u A s \<noteq> []) \<and>
     (\<forall>a b. pct_decode u (a @ CHR '':'' # b) = pct_decode u a @ as_bytes '':'' @ pct_decode u b) \<and>
     (\<forall>ps. form_parse u (form_serialize u ps) = ps) \<and>
     (\<forall>ps c. c \<in> set (form_serialize u ps) \<longrightarrow> is_alnum c \<or> c \<in> set ''*-._+%&='') \<and>
     (\<forall>ps. form_serialize u ps = [] \<longleftrightarrow> ps = [])"

section \<open>A percent codec\<close>

definition hex_digit :: "nat \<Rightarrow> char" where
  "hex_digit n = hex_chars ! (n mod 16)"

definition hex_val :: "char \<Rightarrow> nat option" where
  "hex_val c = (let n = (of_char c :: nat) in
     if 48 \<le> n \<and> n \<le> 57 then Some (n - 48)
     else if 65 \<le> n \<and> n \<le> 70 then Some (n - 55)
     else if 97 \<le> n \<and> n \<le> 102 then Some (n - 87) else None)"

definition escape_byte :: "char \<Rightarrow> string" where
  "escape_byte c = [CHR ''%'', hex_digit (of_char c div 16), hex_digit (of_char c mod 16)]"

definition escapes :: "ascii_set \<Rightarrow> string \<Rightarrow> string" where
  "escapes A s = concat (map (\<lambda>c. if A c \<or> 128 \<le> (of_char c :: nat) then escape_byte c else [c]) s)"

function unescapes :: "string \<Rightarrow> bytes" where
  "unescapes [] = []"
| "unescapes (c # r) =
     (if c = CHR ''%'' \<and> 2 \<le> length r \<and> hex_val (r ! 0) \<noteq> None \<and> hex_val (r ! 1) \<noteq> None
      then of_nat (16 * the (hex_val (r ! 0)) + the (hex_val (r ! 1))) # unescapes (drop 2 r)
      else of_nat (of_char c) # unescapes r)"
  by pat_completeness auto
termination by (relation "measure length") auto

lemma hex_digit_val: "n < 16 \<Longrightarrow> hex_val (hex_digit n) = Some n"
proof -
  have "\<forall>n\<in>set [0..<16]. hex_val (hex_digit n) = Some n" by code_simp
  then show "n < 16 \<Longrightarrow> hex_val (hex_digit n) = Some n" by simp
qed

lemma hex_digit_in: "hex_digit n \<in> set hex_chars"
  unfolding hex_digit_def by (rule nth_mem) (simp add: hex_chars_def)

lemma unescapes_escape: "unescapes (escape_byte c @ r) = of_nat (of_char c) # unescapes r"
proof -
  have n: "(of_char c :: nat) < 256" by (rule nat_of_char_less_256)
  have "hex_val (hex_digit (of_char c div 16)) = Some (of_char c div 16)"
    by (rule hex_digit_val) (use n in \<open>simp add: less_mult_imp_div_less\<close>)
  moreover have "hex_val (hex_digit (of_char c mod 16)) = Some (of_char c mod 16)"
    by (rule hex_digit_val) simp
  ultimately show ?thesis by (simp add: escape_byte_def)
qed

lemma unescapes_plain: "c \<noteq> CHR ''%'' \<Longrightarrow> unescapes (c # r) = of_nat (of_char c) # unescapes r"
  by simp

lemma unescapes_escapes: "A (CHR ''%'') \<Longrightarrow> unescapes (escapes A s @ r) = as_bytes s @ unescapes r"
proof (induction s)
  case (Cons c s)
  have eq: "escapes A (c # s) @ r =
    (if A c \<or> 128 \<le> (of_char c :: nat) then escape_byte c else [c]) @ (escapes A s @ r)"
    by (simp add: escapes_def)
  show ?case
  proof (cases "A c \<or> 128 \<le> (of_char c :: nat)")
    case True
    then show ?thesis using Cons by (simp add: eq unescapes_escape as_bytes_def del: unescapes.simps)
  next
    case False
    with Cons.prems have "c \<noteq> CHR ''%''" by auto
    with False Cons show ?thesis
      by (simp add: eq unescapes_plain as_bytes_def del: unescapes.simps)
  qed
qed (simp add: escapes_def as_bytes_def)

lemma escapes_chars:
  assumes "c \<in> set (escapes A s)"
  shows "c = CHR ''%'' \<or> c \<in> set hex_chars \<or> (c \<in> set s \<and> \<not> A c)"
  using assms by (auto simp: escapes_def escape_byte_def hex_digit_in split: if_splits)

lemma escapes_Nil: "escapes A s = [] \<longleftrightarrow> s = []"
  by (cases s) (auto simp: escapes_def escape_byte_def)

lemma hex_val_colon: "hex_val (CHR '':'') = None"
  by (simp add: hex_val_def of_char_def)

lemma unescapes_colon:
  "unescapes (a @ CHR '':'' # b) = unescapes a @ as_bytes '':'' @ unescapes b"
proof (induction a rule: unescapes.induct)
  case 1
  show ?case by (simp add: as_bytes_def)
next
  case (2 c r)
  show ?case
  proof (cases "c = CHR ''%'' \<and> 2 \<le> length r \<and> hex_val (r ! 0) \<noteq> None \<and> hex_val (r ! 1) \<noteq> None")
    case True
    then obtain x y r' where r: "r = x # y # r'" by (cases r; cases "tl r") auto
    with True 2(1) [OF True] show ?thesis by auto
  next
    case False
    have "\<not> (c = CHR ''%'' \<and> 2 \<le> length (r @ CHR '':'' # b) \<and>
      hex_val ((r @ CHR '':'' # b) ! 0) \<noteq> None \<and> hex_val ((r @ CHR '':'' # b) ! 1) \<noteq> None)"
      using False hex_val_colon by (cases r; cases "tl r") auto
    then have "unescapes (c # r @ CHR '':'' # b) = of_nat (of_char c) # unescapes (r @ CHR '':'' # b)"
      by (simp only: unescapes.simps if_False)
    moreover from False have "unescapes (c # r) = of_nat (of_char c) # unescapes r"
      by (simp only: unescapes.simps if_False)
    ultimately show ?thesis using 2(2) [OF False] by (simp only: append_Cons)
  qed
qed

section \<open>A form codec\<close>

text \<open>
  The \<^verbatim>\<open>application/x-www-form-urlencoded\<close> format: letters, digits and \<^verbatim>\<open>*-._\<close> stand for themselves,
  a space is a plus, everything else is escaped.
\<close>

definition form_keep :: "char \<Rightarrow> bool" where
  "form_keep c \<longleftrightarrow> is_alnum c \<or> c \<in> set ''*-._''"

definition form_escape :: "string \<Rightarrow> string" where
  "form_escape s =
     map (\<lambda>c. if c = CHR '' '' then CHR ''+'' else c) (escapes (\<lambda>c. \<not> form_keep c \<and> c \<noteq> CHR '' '') s)"

definition form_unescape :: "string \<Rightarrow> bytes" where
  "form_unescape s = unescapes (map (\<lambda>c. if c = CHR ''+'' then CHR '' '' else c) s)"

definition form_pair :: "string \<times> string \<Rightarrow> string" where
  "form_pair p = form_escape (fst p) @ ''='' @ form_escape (snd p)"

fun join_with :: "char \<Rightarrow> string list \<Rightarrow> string" where
  "join_with d [] = []"
| "join_with d [x] = x"
| "join_with d (x # y # ys) = x @ d # join_with d (y # ys)"

definition form_unpair :: "string \<Rightarrow> string \<times> string" where
  "form_unpair s = (case split_once (CHR ''='') s of
     Some (k, v) \<Rightarrow> (raw_string (form_unescape k), raw_string (form_unescape v))
   | None \<Rightarrow> (raw_string (form_unescape s), []))"

definition form_write :: "(string \<times> string) list \<Rightarrow> string" where
  "form_write ps = join_with (CHR ''&'') (map form_pair ps)"

definition form_read :: "string \<Rightarrow> (string \<times> string) list" where
  "form_read s = map form_unpair (filter (\<lambda>x. x \<noteq> []) (split_char (CHR ''&'') s))"

lemma not_kept:
  "\<not> form_keep (CHR ''%'')" "\<not> form_keep (CHR ''='')" "\<not> form_keep (CHR ''&'')" "\<not> form_keep (CHR ''+'')"
  by (simp_all add: form_keep_def is_alnum_def of_char_def)

lemma escaped_chars:
  assumes "c \<in> set (escapes (\<lambda>c. \<not> form_keep c \<and> c \<noteq> CHR '' '') s)"
  shows "form_keep c \<or> c = CHR ''%'' \<or> c = CHR '' ''"
proof -
  have "\<forall>c\<in>set hex_chars. is_alnum c" by code_simp
  then show ?thesis using escapes_chars [OF assms] unfolding form_keep_def by blast
qed

lemma form_escape_chars: "c \<in> set (form_escape s) \<Longrightarrow> form_keep c \<or> c = CHR ''%'' \<or> c = CHR ''+''"
  using escaped_chars by (auto simp: form_escape_def split: if_splits)

lemma form_unescape_escape: "form_unescape (form_escape s) = as_bytes s"
proof -
  let ?e = "escapes (\<lambda>c. \<not> form_keep c \<and> c \<noteq> CHR '' '') s"
  have "CHR ''+'' \<notin> set ?e" using escaped_chars [of "CHR ''+''" s] not_kept(4) by auto
  then have "map ((\<lambda>c. if c = CHR ''+'' then CHR '' '' else c) \<circ> (\<lambda>c. if c = CHR '' '' then CHR ''+'' else c)) ?e = ?e"
    by (auto intro: map_idI)
  then show ?thesis
    using unescapes_escapes [of "\<lambda>c. \<not> form_keep c \<and> c \<noteq> CHR '' ''" s "[]"] not_kept(1)
    by (simp add: form_unescape_def form_escape_def)
qed

lemma split_once_at:
  "d \<notin> set a \<Longrightarrow> split_once d (a @ d # b) = Some (a, b)"
  by (simp add: split_once_def takeWhile_append dropWhile_append)

lemma form_unpair_pair: "form_unpair (form_pair p) = p"
proof -
  have "CHR ''='' \<notin> set (form_escape (fst p))" using form_escape_chars not_kept by fastforce
  then show ?thesis by (simp add: form_unpair_def form_pair_def split_once_at form_unescape_escape)
qed

lemma split_char_clean: "d \<notin> set x \<Longrightarrow> split_char d x = [x]"
  by (induction x) auto

lemma split_char_append: "d \<notin> set x \<Longrightarrow> split_char d (x @ d # r) = x # split_char d r"
  by (induction x) auto

lemma split_char_join: "xs \<noteq> [] \<Longrightarrow> \<forall>x\<in>set xs. d \<notin> set x \<Longrightarrow> split_char d (join_with d xs) = xs"
  by (induction d xs rule: join_with.induct) (auto simp: split_char_append split_char_clean)

lemma form_pair_chars: "c \<in> set (form_pair p) \<Longrightarrow> form_keep c \<or> c = CHR ''%'' \<or> c = CHR ''+'' \<or> c = CHR ''=''"
  using form_escape_chars by (auto simp: form_pair_def)

lemma join_with_set: "c \<in> set (join_with d xs) \<Longrightarrow> c = d \<or> (\<exists>x\<in>set xs. c \<in> set x)"
  by (induction d xs rule: join_with.induct) auto

lemma form_write_Nil: "form_write ps = [] \<longleftrightarrow> ps = []"
  by (cases ps; cases "tl ps") (auto simp: form_write_def form_pair_def)

lemma form_read_write: "form_read (form_write ps) = ps"
proof (cases "ps = []")
  case False
  have "\<forall>x\<in>set (map form_pair ps). CHR ''&'' \<notin> set x" using form_pair_chars not_kept by fastforce
  then have "split_char (CHR ''&'') (form_write ps) = map form_pair ps"
    unfolding form_write_def by (intro split_char_join) (use False in auto)
  moreover have "filter (\<lambda>x. x \<noteq> []) (map form_pair ps) = map form_pair ps"
    by (simp add: filter_id_conv form_pair_def)
  ultimately show ?thesis by (simp add: form_read_def form_unpair_pair map_idI)
qed (simp add: form_read_def form_write_def)

section \<open>The concrete codec\<close>

definition sample_codec :: url_codec where
  "sample_codec = \<lparr>pct_encode = escapes, pct_decode = unescapes, form_serialize = form_write,
     form_parse = form_read\<rparr>"

lemma sample_codec_ok: "codec_ok sample_codec"
proof -
  have "is_alnum c \<or> c \<in> set ''*-._+%&=''" if "c \<in> set (form_write ps)" for c ps
    using join_with_set [OF that [unfolded form_write_def]] form_pair_chars unfolding form_keep_def by fastforce
  then show ?thesis
    using unescapes_escapes [where r = "[]"] escapes_chars escapes_Nil unescapes_colon form_read_write
      form_write_Nil
    by (auto simp: codec_ok_def sample_codec_def)
qed

end
