(* ===== verification/Uri.thy ===== *)
theory Uri
  imports UrlCodec Profile
begin

text \<open>
  Share links, \<^verbatim>\<open>crates/config/src/lib.rs\<close>: parsing a \<^verbatim>\<open>hysteria2://\<close> link into a profile,
  printing a profile as a link with its name as the fragment, and reading the name back. The
  encoding crates are the parameter \<open>u\<close>.
\<close>

section \<open>Definitions\<close>

definition USERINFO :: ascii_set where
  "USERINFO c \<longleftrightarrow> NON_ALPHANUMERIC c \<and> c \<notin> set ''-._~''"

definition FRAGMENT :: ascii_set where
  "FRAGMENT c \<longleftrightarrow> CONTROLS c \<or> c \<in> set '' \"<>`%#+''"

definition percent_decode :: "url_codec \<Rightarrow> string \<Rightarrow> string option" where
  "percent_decode u s = from_utf8 (pct_decode u s)"

definition encode_component :: "url_codec \<Rightarrow> string \<Rightarrow> string" where
  "encode_component u s = pct_encode u USERINFO s"

definition encode_userinfo :: "url_codec \<Rightarrow> string \<Rightarrow> string" where
  "encode_userinfo u a =
     (case split_once (CHR '':'') a of
        Some (user, pass) \<Rightarrow> encode_component u user @ '':'' @ encode_component u pass
      | None \<Rightarrow> encode_component u a)"

text \<open>The first value of a key wins.\<close>

definition parse_query :: "url_codec \<Rightarrow> string \<Rightarrow> string \<Rightarrow> string option" where
  "parse_query u query =
     foldl (\<lambda>m (k, v). if m k = None then m(k \<mapsto> v) else m) Map.empty (form_parse u query)"

text \<open>\<^verbatim>\<open>.filter(|s| !s.is_empty())\<close>.\<close>

definition non_empty :: "string option \<Rightarrow> string option" where
  "non_empty r = (case r of Some v \<Rightarrow> if v = [] then None else Some v | None \<Rightarrow> None)"

definition scheme_ok :: "string \<Rightarrow> bool" where
  "scheme_ok scheme \<longleftrightarrow>
     eq_ignore_ascii_case scheme ''hysteria2'' \<or> eq_ignore_ascii_case scheme ''hy2''"

definition apply_query :: "url_codec \<Rightarrow> string option \<Rightarrow> profile \<Rightarrow> profile" where
  "apply_query u query p =
     (case query of
        None \<Rightarrow> p
      | Some q \<Rightarrow>
          let params = parse_query u q;
              p = (case non_empty (params ''obfs'') of
                     Some t \<Rightarrow>
                       p\<lparr>profile_obfs := Some \<lparr>obfs_type = t,
                          password = (case params ''obfs-password'' of Some pw \<Rightarrow> pw | None \<Rightarrow> [])\<rparr>\<rparr>
                   | None \<Rightarrow> p)
          in case non_empty (params ''sni'') of
               Some n \<Rightarrow> p\<lparr>profile_tls := \<lparr>sni = n\<rparr>\<rparr>
             | None \<Rightarrow> p)"

text \<open>The fragment dropped, the query split off, and the authority before the first slash.\<close>

definition uri_parts :: "string \<Rightarrow> string \<times> string option" where
  "uri_parts after =
     (let after = hd (split_char (CHR ''#'') after);
          (authority_path, query) =
            (case split_once (CHR ''?'') after of
               Some (ap, q) \<Rightarrow> (ap, Some q)
             | None \<Rightarrow> (after, None))
      in (hd (split_char (CHR ''/'') authority_path), query))"

definition uri_userinfo :: "url_codec \<Rightarrow> string \<Rightarrow> (string \<times> string) option" where
  "uri_userinfo u authority =
     (case rsplit_once (CHR ''@'') authority of
        Some (user, host) \<Rightarrow>
          (case percent_decode u user of Some a \<Rightarrow> Some (a, host) | None \<Rightarrow> None)
      | None \<Rightarrow> Some ([], authority))"

definition parse_uri :: "url_codec \<Rightarrow> string \<Rightarrow> profile option" where
  "parse_uri u s =
     (case split_once_str ''://'' s of
        None \<Rightarrow> None
      | Some (scheme, after) \<Rightarrow>
          if \<not> scheme_ok scheme then None
          else
            let (authority, query) = uri_parts after
            in case uri_userinfo u authority of
                 None \<Rightarrow> None
               | Some (a, host) \<Rightarrow>
                   if host = [] then None
                   else Some (apply_query u query (profile_default\<lparr>server := host, auth := a\<rparr>)))"

definition uri_query :: "url_codec \<Rightarrow> profile \<Rightarrow> string" where
  "uri_query u p =
     form_serialize u
       ((case profile_obfs p of
           Some o' \<Rightarrow> [(''obfs'', obfs_type o'), (''obfs-password'', password o')]
         | None \<Rightarrow> []) @
        (if sni (profile_tls p) \<noteq> [] then [(''sni'', sni (profile_tls p))] else []))"

definition to_uri_with_name :: "url_codec \<Rightarrow> profile \<Rightarrow> string option \<Rightarrow> string" where
  "to_uri_with_name u p name =
     (let query = uri_query u p;
          userinfo = (if auth p = [] then [] else encode_userinfo u (auth p) @ ''@'');
          query = (if query = [] then [] else ''?'' @ query);
          base = ''hysteria2://'' @ userinfo @ server p @ ''/'' @ query
      in case non_empty (map_option str_trim name) of
           Some n \<Rightarrow> base @ ''#'' @ pct_encode u FRAGMENT n
         | None \<Rightarrow> base)"

definition to_uri :: "url_codec \<Rightarrow> profile \<Rightarrow> string" where
  "to_uri u p = to_uri_with_name u p None"

definition name_from_uri :: "url_codec \<Rightarrow> string \<Rightarrow> string option" where
  "name_from_uri u s =
     (case split_once_str ''://'' s of
        None \<Rightarrow> None
      | Some (scheme, after) \<Rightarrow>
          if \<not> scheme_ok scheme then None
          else
            (case split_once (CHR ''#'') after of
               None \<Rightarrow> None
             | Some (_, fragment) \<Rightarrow> if fragment = [] then None else percent_decode u fragment))"

section \<open>Lemmas\<close>

text \<open>The profiles a link can carry.\<close>

definition linkable :: "profile \<Rightarrow> bool" where
  "linkable p \<longleftrightarrow>
     server p \<noteq> [] \<and> set (server p) \<inter> set ''#?/@'' = {} \<and> is_str (auth p) \<and>
     (\<forall>o'. profile_obfs p = Some o' \<longrightarrow> obfs_type o' \<noteq> []) \<and> \<not> fast_open p"

lemma hd_split_char: "hd (split_char d s) = takeWhile (\<lambda>c. c \<noteq> d) s"
  by (rule hd_split_when)

lemma takeWhile_clean: "d \<notin> set a \<Longrightarrow> takeWhile (\<lambda>c. c \<noteq> d) (a @ d # b) = a"
  by (simp add: takeWhile_append)

lemma takeWhile_all: "d \<notin> set a \<Longrightarrow> takeWhile (\<lambda>c. c \<noteq> d) a = a"
  by (rule takeWhile_eq_all_conv [THEN iffD2]) auto

lemma split_once_none: "d \<notin> set a \<Longrightarrow> split_once d a = None"
  by (simp add: split_once_def)

lemma rsplit_once_at: "d \<notin> set b \<Longrightarrow> rsplit_once d (a @ d # b) = Some (a, b)"
  by (simp add: rsplit_once_def split_once_at)

lemma rsplit_once_none: "d \<notin> set a \<Longrightarrow> rsplit_once d a = None"
  by (simp add: rsplit_once_def split_once_none)

lemma split_once_Some:
  "split_once d s = Some (a, b) \<Longrightarrow> s = a @ d # b \<and> d \<notin> set a"
proof -
  assume s: "split_once d s = Some (a, b)"
  then have d: "d \<in> set s" "a = takeWhile (\<lambda>c. c \<noteq> d) s" "b = tl (dropWhile (\<lambda>c. c \<noteq> d) s)"
    by (auto simp: split_once_def split: if_splits)
  then have "dropWhile (\<lambda>c. c \<noteq> d) s = d # b"
    by (metis (mono_tags, lifting) dropWhile_eq_Nil_conv hd_dropWhile list.collapse)
  with d(2) show ?thesis by (metis set_takeWhileD takeWhile_dropWhile_id)
qed

lemma link_scheme:
  "split_once_str ''://'' (''hysteria2://'' @ r) = Some (''hysteria2'', r)" "scheme_ok ''hysteria2''"
  by (simp_all add: scheme_ok_def eq_ignore_ascii_case_def)

section \<open>Printing uses safe characters\<close>

lemma reserved_chars:
  "c \<in> {CHR ''#'', CHR ''?'', CHR ''/'', CHR ''@''} \<Longrightarrow>
   USERINFO c \<and> c \<noteq> CHR ''%'' \<and> c \<notin> set hex_chars \<and> c \<noteq> CHR '':'' \<and> \<not> is_alnum c \<and> c \<notin> set ''*-._+%&=''"
proof -
  have "\<forall>c\<in>set ''#?/@''. USERINFO c \<and> c \<noteq> CHR ''%'' \<and> c \<notin> set hex_chars \<and> c \<noteq> CHR '':'' \<and>
     \<not> is_alnum c \<and> c \<notin> set ''*-._+%&=''" by code_simp
  then show "c \<in> {CHR ''#'', CHR ''?'', CHR ''/'', CHR ''@''} \<Longrightarrow> ?thesis" by auto
qed

lemma codec_okD:
  assumes "codec_ok u"
  shows "A (CHR ''%'') \<Longrightarrow> pct_decode u (pct_encode u A s) = as_bytes s"
    "c \<in> set (pct_encode u A s) \<Longrightarrow> c = CHR ''%'' \<or> c \<in> set hex_chars \<or> (c \<in> set s \<and> \<not> A c)"
    "s \<noteq> [] \<Longrightarrow> pct_encode u A s \<noteq> []"
    "pct_decode u (a @ CHR '':'' # b) = pct_decode u a @ as_bytes '':'' @ pct_decode u b"
    "form_parse u (form_serialize u ps) = ps"
    "c \<in> set (form_serialize u ps) \<Longrightarrow> is_alnum c \<or> c \<in> set ''*-._+%&=''"
    "form_serialize u ps = [] \<longleftrightarrow> ps = []"
proof -
  note c1 = assms [unfolded codec_ok_def]
  note c2 = conjunct2 [OF c1] note c3 = conjunct2 [OF c2] note c4 = conjunct2 [OF c3]
  note c5 = conjunct2 [OF c4] note c6 = conjunct2 [OF c5]
  show "A (CHR ''%'') \<Longrightarrow> pct_decode u (pct_encode u A s) = as_bytes s"
    using conjunct1 [OF c1] by blast
  show "c \<in> set (pct_encode u A s) \<Longrightarrow> c = CHR ''%'' \<or> c \<in> set hex_chars \<or> (c \<in> set s \<and> \<not> A c)"
    using conjunct1 [OF c2] by blast
  show "s \<noteq> [] \<Longrightarrow> pct_encode u A s \<noteq> []" using conjunct1 [OF c3] by blast
  show "pct_decode u (a @ CHR '':'' # b) = pct_decode u a @ as_bytes '':'' @ pct_decode u b"
    using conjunct1 [OF c4] by blast
  show "form_parse u (form_serialize u ps) = ps" using conjunct1 [OF c5] by blast
  show "c \<in> set (form_serialize u ps) \<Longrightarrow> is_alnum c \<or> c \<in> set ''*-._+%&=''"
    using conjunct1 [OF c6] by blast
  show "form_serialize u ps = [] \<longleftrightarrow> ps = []" using conjunct2 [OF c6] by blast
qed

lemma encode_userinfo_clean:
  assumes "codec_ok u"
  shows "set (encode_userinfo u a) \<inter> {CHR ''#'', CHR ''?'', CHR ''/'', CHR ''@''} = {}"
proof -
  have "c \<notin> set (encode_component u s)" if "c \<in> {CHR ''#'', CHR ''?'', CHR ''/'', CHR ''@''}" for c s
    using codec_okD(2) [OF assms, of c USERINFO s] reserved_chars [OF that]
    by (auto simp: encode_component_def)
  moreover have "CHR '':'' \<notin> {CHR ''#'', CHR ''?'', CHR ''/'', CHR ''@''}" by simp
  ultimately show ?thesis
    by (auto simp: encode_userinfo_def split: option.splits)
qed

lemma encode_userinfo_decode:
  assumes "codec_ok u" "is_str a"
  shows "percent_decode u (encode_userinfo u a) = Some a"
proof -
  have pct: "USERINFO (CHR ''%'')" by code_simp
  have comp: "pct_decode u (encode_component u s) = as_bytes s" for s
    using codec_okD(1) [where A = USERINFO, OF assms(1) pct] by (simp add: encode_component_def)
  have "pct_decode u (encode_userinfo u a) = as_bytes a"
  proof (cases "split_once (CHR '':'') a")
    case None then show ?thesis by (simp add: encode_userinfo_def comp)
  next
    case (Some ab)
    obtain x y where xy: "split_once (CHR '':'') a = Some (x, y)" using Some by (cases ab) auto
    have "encode_userinfo u a = encode_component u x @ CHR '':'' # encode_component u y"
      by (simp add: encode_userinfo_def xy)
    moreover from split_once_Some [OF xy] have "a = x @ CHR '':'' # y" by simp
    ultimately show ?thesis
      by (simp add: codec_okD(4) [OF assms(1)] comp) (simp add: as_bytes_def)
  qed
  then show ?thesis using assms(2) by (simp add: percent_decode_def)
qed

lemma apply_query_printed:
  assumes "codec_ok u" "\<forall>o'. profile_obfs p = Some o' \<longrightarrow> obfs_type o' \<noteq> []"
  shows "apply_query u (if uri_query u p = [] then None else Some (uri_query u p))
      (profile_default\<lparr>server := s, auth := a\<rparr>) =
    \<lparr>server = s, auth = a, profile_tls = \<lparr>sni = sni (profile_tls p)\<rparr>, profile_obfs = profile_obfs p,
     fast_open = False\<rparr>"
  using assms(2)
  by (cases "profile_obfs p"; cases "sni (profile_tls p) = []")
     (auto simp: apply_query_def uri_query_def codec_okD(5,7) [OF assms(1)] parse_query_def
      non_empty_def profile_default_def)

text \<open>The printed link: a body without a fragment delimiter, and the fragment.\<close>

definition link_userinfo :: "url_codec \<Rightarrow> profile \<Rightarrow> string" where
  "link_userinfo u p = (if auth p = [] then [] else encode_userinfo u (auth p) @ ''@'')"

definition link_query :: "url_codec \<Rightarrow> profile \<Rightarrow> string" where
  "link_query u p = (if uri_query u p = [] then [] else ''?'' @ uri_query u p)"

definition link_body :: "url_codec \<Rightarrow> profile \<Rightarrow> string" where
  "link_body u p = link_userinfo u p @ server p @ ''/'' @ link_query u p"

definition link_fragment :: "url_codec \<Rightarrow> string option \<Rightarrow> string" where
  "link_fragment u name = (case non_empty (map_option str_trim name) of
     Some n \<Rightarrow> ''#'' @ pct_encode u FRAGMENT n | None \<Rightarrow> [])"

lemma link_shape: "to_uri_with_name u p name = ''hysteria2://'' @ link_body u p @ link_fragment u name"
  by (simp add: to_uri_with_name_def link_body_def link_userinfo_def link_query_def link_fragment_def
      split: option.splits)

lemma link_clean:
  assumes "codec_ok u" "linkable p"
  shows "CHR ''#'' \<notin> set (link_body u p)" "CHR ''?'' \<notin> set (link_userinfo u p @ server p @ ''/'')"
    "CHR ''/'' \<notin> set (link_userinfo u p @ server p)"
proof -
  have srv: "set (server p) \<inter> {CHR ''#'', CHR ''?'', CHR ''/'', CHR ''@''} = {}"
    using assms(2) by (auto simp: linkable_def)
  have ui: "set (link_userinfo u p) \<inter> {CHR ''#'', CHR ''?'', CHR ''/''} = {}"
    using encode_userinfo_clean [OF assms(1), of "auth p"] by (auto simp: link_userinfo_def)
  have "CHR ''#'' \<notin> set (uri_query u p)"
    using codec_okD(6) [OF assms(1)] reserved_chars unfolding uri_query_def by blast
  with srv ui show "CHR ''#'' \<notin> set (link_body u p)"
    by (auto simp: link_body_def link_query_def)
  from srv ui show "CHR ''?'' \<notin> set (link_userinfo u p @ server p @ ''/'')"
    "CHR ''/'' \<notin> set (link_userinfo u p @ server p)" by auto
qed

lemma link_authority:
  assumes "codec_ok u" "linkable p"
  shows "uri_userinfo u (link_userinfo u p @ server p) = Some (auth p, server p)"
proof -
  have at: "CHR ''@'' \<notin> set (server p)" using assms(2) by (auto simp: linkable_def)
  show ?thesis
    using rsplit_once_at [OF at, of "encode_userinfo u (auth p)"] rsplit_once_none [OF at]
      encode_userinfo_decode [OF assms(1), of "auth p"] assms(2)
    by (simp add: uri_userinfo_def link_userinfo_def linkable_def)
qed

lemma parse_printed:
  assumes "codec_ok u" "linkable p"
  shows "parse_uri u (to_uri_with_name u p name) = Some p"
proof -
  let ?ui = "link_userinfo u p" and ?q = "if uri_query u p = [] then None else Some (uri_query u p)"
  note clean = link_clean [OF assms]
  have s1: "takeWhile (\<lambda>c. c \<noteq> CHR ''#'') (link_body u p @ link_fragment u name) =
      ?ui @ server p @ ''/'' @ link_query u p"
    using takeWhile_clean [OF clean(1)] takeWhile_all [OF clean(1)]
    by (simp add: link_fragment_def split: option.splits) (simp add: link_body_def)
  have s2: "(case split_once (CHR ''?'') (?ui @ server p @ ''/'' @ link_query u p) of
        Some (ap, q) \<Rightarrow> (ap, Some q) | None \<Rightarrow> (?ui @ server p @ ''/'' @ link_query u p, None)) =
      (?ui @ server p @ ''/'', ?q)"
    using split_once_at [OF clean(2), of "uri_query u p"] split_once_none [OF clean(2)]
    by (simp add: link_query_def)
  have s3: "takeWhile (\<lambda>c. c \<noteq> CHR ''/'') (?ui @ server p @ ''/'') = ?ui @ server p"
    using takeWhile_clean [OF clean(3), of "[]"] by simp
  have parts: "uri_parts (link_body u p @ link_fragment u name) = (?ui @ server p, ?q)"
    unfolding uri_parts_def hd_split_char s1 s2 Let_def prod.case s3 ..
  have ap: "apply_query u ?q (profile_default\<lparr>server := server p, auth := auth p\<rparr>) = p"
    using apply_query_printed [OF assms(1), where p = p and s = "server p" and a = "auth p"] assms(2)
    by (simp add: linkable_def)
  have "server p \<noteq> []" using assms(2) by (simp add: linkable_def)
  then show ?thesis
    unfolding link_shape parse_uri_def link_scheme option.case prod.case parts
      link_authority [OF assms] Let_def
    using link_scheme(2) ap by simp
qed

lemma name_printed:
  assumes "codec_ok u" "linkable p"
  shows "name_from_uri u (to_uri_with_name u p name) =
    (case non_empty (map_option str_trim name) of
       Some n \<Rightarrow> if is_str n then Some n else None | None \<Rightarrow> None)"
proof -
  note clean = link_clean(1) [OF assms]
  have pct: "FRAGMENT (CHR ''%'')" by code_simp
  have dec: "percent_decode u (pct_encode u FRAGMENT n) = (if is_str n then Some n else None)" for n
    using codec_okD(1) [where A = FRAGMENT, OF assms(1) pct]
    by (simp add: percent_decode_def from_utf8_def is_str_def)
  show ?thesis
  proof (cases "non_empty (map_option str_trim name)")
    case None
    then show ?thesis
      using split_once_none [OF clean] link_scheme(2)
      unfolding name_from_uri_def link_shape link_scheme(1) option.case prod.case
      by (simp add: link_fragment_def)
  next
    case (Some n)
    then have "n \<noteq> []" by (auto simp: non_empty_def split: option.splits if_splits)
    then show ?thesis
      using split_once_at [OF clean] link_scheme(2) codec_okD(3) [OF assms(1)] dec Some
      unfolding name_from_uri_def link_shape link_scheme(1) option.case prod.case
      by (simp add: link_fragment_def)
  qed
qed

section \<open>What parsing accepts\<close>

lemma rsplit_once_Some:
  "rsplit_once d s = Some (a, b) \<Longrightarrow> s = a @ d # b \<and> d \<notin> set b"
proof -
  assume "rsplit_once d s = Some (a, b)"
  then have "split_once d (rev s) = Some (rev b, rev a)"
    by (auto simp: rsplit_once_def)
  from split_once_Some [OF this] show ?thesis
    by (metis append.assoc append_Cons append_Nil rev.simps(2) rev_append rev_rev_ident set_rev)
qed

lemma apply_query_fields:
  "server (apply_query u q p) = server p" "auth (apply_query u q p) = auth p"
  "fast_open (apply_query u q p) = fast_open p"
  by (auto simp: apply_query_def Let_def split: option.splits)

lemma apply_query_obfs:
  "profile_obfs (apply_query u q (profile_default\<lparr>server := s, auth := a\<rparr>)) = Some o' \<Longrightarrow> obfs_type o' \<noteq> []"
  by (auto simp: apply_query_def Let_def non_empty_def profile_default_def
      split: option.splits if_splits)

lemma uri_parts_authority: "set (fst (uri_parts after)) \<inter> {CHR ''#'', CHR ''?'', CHR ''/''} = {}"
proof -
  define body where "body = takeWhile (\<lambda>c. c \<noteq> CHR ''#'') after"
  have body: "CHR ''#'' \<notin> set body" by (auto simp: body_def dest: set_takeWhileD)
  show ?thesis
  proof (cases "split_once (CHR ''?'') body")
    case None
    then have "CHR ''?'' \<notin> set body" by (auto simp: split_once_def split: if_splits)
    with None body show ?thesis
      by (auto simp: uri_parts_def hd_split_char body_def [symmetric] dest!: set_takeWhileD)
  next
    case (Some apq)
    obtain ap q where apq: "apq = (ap, q)" by force
    have "body = ap @ CHR ''?'' # q" "CHR ''?'' \<notin> set ap"
      using split_once_Some Some apq by auto
    with Some body apq show ?thesis
      by (auto simp: uri_parts_def hd_split_char body_def [symmetric] dest!: set_takeWhileD)
  qed
qed

lemma uri_userinfo_Some:
  "uri_userinfo u authority = Some (a, host) \<Longrightarrow>
   set host \<subseteq> set authority \<and> CHR ''@'' \<notin> set host \<and> is_str a"
proof (cases "rsplit_once (CHR ''@'') authority")
  case None
  moreover from None have "CHR ''@'' \<notin> set authority"
    by (auto simp: rsplit_once_def split_once_def split: if_splits)
  ultimately show "uri_userinfo u authority = Some (a, host) \<Longrightarrow> ?thesis"
    by (auto simp: uri_userinfo_def is_str_def as_bytes_def)
next
  case (Some uh)
  obtain user h where uh: "uh = (user, h)" by force
  from rsplit_once_Some [OF Some [unfolded uh]] Some uh
  show "uri_userinfo u authority = Some (a, host) \<Longrightarrow> ?thesis"
    by (auto simp: uri_userinfo_def percent_decode_def dest!: from_utf8_Some split: option.splits)
qed

lemma parse_uri_linkable:
  assumes "parse_uri u s = Some p"
  shows "linkable p"
proof -
  obtain scheme after where sp: "split_once_str ''://'' s = Some (scheme, after)"
    using assms by (auto simp: parse_uri_def split: option.splits)
  obtain authority query where parts: "uri_parts after = (authority, query)" by force
  obtain a host where ah: "uri_userinfo u authority = Some (a, host)" "host \<noteq> []"
    and p: "p = apply_query u query (profile_default\<lparr>server := host, auth := a\<rparr>)"
    using assms unfolding parse_uri_def sp option.case prod.case parts Let_def
    by (auto split: if_splits option.splits)
  show ?thesis
    using uri_parts_authority [of after] uri_userinfo_Some [OF ah(1)] ah(2) apply_query_obfs
    unfolding linkable_def p by (auto simp: apply_query_fields profile_default_def parts)
qed

section \<open>Properties\<close>

text \<open>
  C11. A link is a faithful copy of a profile: printing a profile that a link can carry, with any
  display name, and parsing the link gives the profile back, and the name read from the link is
  the trimmed name, or nothing when it is blank.
\<close>

theorem uri_roundtrip:
  assumes "codec_ok u" "linkable p" "\<And>n. name = Some n \<Longrightarrow> is_str (str_trim n)"
  shows "parse_uri u (to_uri_with_name u p name) = Some p \<and>
    name_from_uri u (to_uri_with_name u p name) = non_empty (map_option str_trim name)"
proof -
  have "is_str n" if "non_empty (map_option str_trim name) = Some n" for n
    using that assms(3) by (auto simp: non_empty_def split: option.splits if_splits)
  then have "(case non_empty (map_option str_trim name) of
       Some n \<Rightarrow> if is_str n then Some n else None | None \<Rightarrow> None) = non_empty (map_option str_trim name)"
    by (auto split: option.splits)
  with parse_printed [OF assms(1,2)] name_printed [OF assms(1,2)] show ?thesis by simp
qed

theorem uri_roundtrip_witness:
  "parse_uri sample_codec (to_uri_with_name sample_codec
      (profile_default\<lparr>server := ''h:1-2'', auth := ''a@b:c/d'', profile_tls := \<lparr>sni = ''x y''\<rparr>\<rparr>) (Some ''C#'')) =
     Some (profile_default\<lparr>server := ''h:1-2'', auth := ''a@b:c/d'', profile_tls := \<lparr>sni = ''x y''\<rparr>\<rparr>)"
proof -
  let ?p = "profile_default\<lparr>server := ''h:1-2'', auth := ''a@b:c/d'', profile_tls := \<lparr>sni = ''x y''\<rparr>\<rparr>"
  have l: "linkable ?p"
    by (simp add: linkable_def profile_default_def is_str_def as_bytes_def)
  have t: "is_str (str_trim ''C#'')" by code_simp
  have n: "is_str (str_trim n)" if "Some ''C#'' = Some n" for n using that t by auto
  from uri_roundtrip [where name = "Some ''C#''", OF sample_codec_ok l n] show ?thesis by auto
qed

text \<open>
  Any text that parses as a link names a host without link delimiters, has no fast-open flag
  and no obfuscation without a type, and is canonicalised by printing: the printed link parses to
  the same profile.
\<close>

lemma parse_uri_canonical:
  assumes "codec_ok u" "parse_uri u s = Some p"
  shows "linkable p \<and> parse_uri u (to_uri u p) = Some p"
  using parse_uri_linkable [OF assms(2)] parse_printed [OF assms(1)] by (simp add: to_uri_def)

end
