(* ===== verification/Tunnel.thy ===== *)
theory Tunnel
  imports Dataplane Netstack Uri
begin

text \<open>
  The tunnel as a whole: \<^verbatim>\<open>dataplane::spawn\<close> over the network stack with the handle it returns
  (\<^verbatim>\<open>crates/dataplane/src/lib.rs\<close>), the way of a reply from a session to the app, and the TUN front
  end that connects, opens the device and runs the tunnel (\<^verbatim>\<open>crates/transport-tun\<close>).
\<close>

section \<open>Starting and stopping\<close>

definition project_config :: "dp_config \<Rightarrow> ns_config" where
  "project_config c =
     \<lparr>ns_mtu = dp_mtu c, ns_stack_buffer = stack_buffer (dp_limits c), ns_udp_buffer = udp_buffer (dp_limits c),
      ns_tcp_buffer = tcp_buffer (dp_limits c)\<rparr>"

text \<open>
  A running tunnel: the loop's state, the infrastructure tasks, the reply writer, and whether the
  shutdown signal has been sent.
\<close>

record ('c, 'u) tunnel =
  tn_loop :: "('c, 'u) dataplane"
  tn_infra :: infra
  tn_writer :: reply_writer
  tn_shutdown :: bool

type_synonym ('r, 's, 'l) stack_builder = "stack_settings \<Rightarrow> anyhow + ('r option \<times> 's option \<times> 'l option)"

definition spawn :: "('r, 's, 'l) stack_builder \<Rightarrow> 'c \<Rightarrow> dp_config \<Rightarrow> anyhow + ('c, 'u) tunnel" where
  "spawn stack_builder cl c =
     and_then (build stack_builder (project_config c)) (\<lambda>sockets.
     Inr \<lparr>tn_loop = dp_start (dp_limits c) cl, tn_infra = map (\<lambda>t. (t, False)) (sk_infra sockets),
          tn_writer = writer_new, tn_shutdown = False\<rparr>)"

definition handle_stats :: "('c, 'u) tunnel \<Rightarrow> dp_stats" where
  "handle_stats t = dp_counters (tn_loop t)"

definition trigger_shutdown :: "('c, 'u) tunnel \<Rightarrow> ('c, 'u) tunnel" where
  "trigger_shutdown t = t\<lparr>tn_shutdown := True\<rparr>"

text \<open>\<^verbatim>\<open>Handle::join\<close>: the final counters; \<^term>\<open>None\<close> while the loop runs.\<close>

definition handle_join :: "('c, 'u) tunnel \<Rightarrow> dp_stats option" where
  "handle_join t = (if running (tn_loop t) then None else Some (handle_stats t))"

text \<open>\<^verbatim>\<open>ReplyQueue::deliver\<close> queues the reply of a session for the writer.\<close>

fun deliver_reply :: "socket_addr \<times> socket_addr \<times> bytes \<Rightarrow> reply" where
  "deliver_reply (src, from, d) = (d, from, src)"

text \<open>
  The events of a tunnel. The loop's arms for a broken data path and for shutdown fire only when
  an infrastructure task has ended and when the signal was sent; when the loop stops it shuts the
  infrastructure down. A delivery that waits for room in the channel happens when there is room.
\<close>

datatype tunnel_event =
    LoopEvent dp_event
  | TaskEnds infra_task
  | Deliver "socket_addr \<times> socket_addr \<times> bytes"
  | WriterRuns bool
  | Trigger

definition enabled :: "dp_event \<Rightarrow> ('c, 'u) tunnel \<Rightarrow> bool" where
  "enabled e t \<longleftrightarrow> (e = InfraFailed \<longrightarrow> infra_failed (tn_infra t)) \<and> (e = ShutdownChanged \<longrightarrow> tn_shutdown t)"

text \<open>A writer that is aborted drops its end of the channel.\<close>

definition writer_abort :: "reply_writer \<Rightarrow> reply_writer" where
  "writer_abort w = w\<lparr>waiting := [], alive := False\<rparr>"

definition end_task :: "infra_task \<Rightarrow> infra \<Rightarrow> infra" where
  "end_task k ts = map (\<lambda>(x, ended). (x, ended \<or> x = k)) ts"

fun tunnel_step ::
  "('c \<Rightarrow> 'u option \<times> 'c) \<Rightarrow> ('u \<Rightarrow> bytes \<Rightarrow> string \<Rightarrow> 'c \<Rightarrow> bool \<times> 'c) \<Rightarrow> (socket_addr \<Rightarrow> string) \<Rightarrow>
   tunnel_event \<Rightarrow> ('c, 'u) tunnel \<Rightarrow> ('c, 'u) tunnel" where
  "tunnel_step create send show_addr (LoopEvent e) t =
     (if \<not> enabled e t then t
      else
        let s = dp_step create send show_addr e (tn_loop t)
        in if running s then t\<lparr>tn_loop := s\<rparr>
           else t\<lparr>tn_loop := s, tn_infra := infra_shutdown (tn_infra t), tn_writer := writer_abort (tn_writer t)\<rparr>)"
| "tunnel_step create send show_addr (TaskEnds k) t =
     t\<lparr>tn_infra := end_task k (tn_infra t),
       tn_writer := (if k = UdpWriter then writer_abort (tn_writer t) else tn_writer t)\<rparr>"
| "tunnel_step create send show_addr (Deliver x) t =
     (case x of (src, from, d) \<Rightarrow>
        if fst (udp_send (deliver_reply x) (tn_writer t)) = None then t
        else t\<lparr>tn_loop := dp_step create send show_addr (Replied d) (tn_loop t),
               tn_writer := snd (udp_send (deliver_reply x) (tn_writer t))\<rparr>)"
| "tunnel_step create send show_addr (WriterRuns ok) t =
     (let w = writer_turn ok (tn_writer t)
      in t\<lparr>tn_writer := w, tn_infra := (if alive w then tn_infra t else end_task UdpWriter (tn_infra t))\<rparr>)"
| "tunnel_step create send show_addr Trigger t = trigger_shutdown t"

text \<open>\<^verbatim>\<open>dataplane::run\<close>: spawning and joining; \<^term>\<open>Inr None\<close> is a call that has not returned.\<close>

definition dataplane_run ::
  "('c \<Rightarrow> 'u option \<times> 'c) \<Rightarrow> ('u \<Rightarrow> bytes \<Rightarrow> string \<Rightarrow> 'c \<Rightarrow> bool \<times> 'c) \<Rightarrow> (socket_addr \<Rightarrow> string) \<Rightarrow>
   ('r, 's, 'l) stack_builder \<Rightarrow> 'c \<Rightarrow> dp_config \<Rightarrow> tunnel_event list \<Rightarrow> anyhow + unit option" where
  "dataplane_run create send show_addr stack_builder cl c es =
     and_then (spawn stack_builder cl c) (\<lambda>t.
     Inr (map_option (\<lambda>_. ()) (handle_join (fold (tunnel_step create send show_addr) es t))))"

section \<open>Invariants\<close>

declare dp_step.simps [simp del]

lemma writer_abort_dead [simp]: "\<not> alive (writer_abort w)"
  by (simp add: writer_abort_def)

definition tunnel_inv :: "limits \<Rightarrow> ('c, 'u) tunnel \<Rightarrow> bool" where
  "tunnel_inv l t \<longleftrightarrow>
     dp_inv l (tn_loop t) \<and> writer_inv (tn_writer t) \<and>
     (if running (tn_loop t)
      then {StackRunner, TunWriter, UdpWriter} \<subseteq> fst ` set (tn_infra t) \<and> (\<exists>n. TunReader n \<in> fst ` set (tn_infra t))
      else tn_infra t = [] \<and> \<not> alive (tn_writer t) \<and> relays (tn_loop t) = 0 \<and> nat_map (dp_sessions (tn_loop t)) = [])"

lemma end_task_tasks [simp]: "fst ` set (end_task k ts) = fst ` set ts" "end_task k ts = [] \<longleftrightarrow> ts = []"
  by (force simp: end_task_def)+

lemma end_task_failed: "k \<in> fst ` set ts \<Longrightarrow> infra_failed (end_task k ts)"
  by (force simp: infra_failed_def end_task_def)

lemma dp_stopped: "\<not> running s \<Longrightarrow> dp_step create send show_addr e s = s"
  by (simp add: dp_step.simps)

lemma dp_stops:
  assumes "running s" "\<not> running (dp_step create send show_addr e s)"
  shows "dp_step create send show_addr e s = dp_stop s"
  using assms unfolding dp_step.simps
  by (auto simp: accept_flow_def udp_inbound_def relay_ends_def Let_def
      split: dp_event.splits option.splits prod.splits if_splits)

lemma writer_abort_inv: "writer_inv w \<Longrightarrow> writer_inv (writer_abort w)"
  by (simp add: writer_inv_def writer_abort_def)

text \<open>What a step of the loop makes of the tunnel.\<close>

lemma loop_event_inv:
  assumes inv: "tunnel_inv l t"
  shows "tunnel_inv l (tunnel_step create send show_addr (LoopEvent e) t)"
proof (cases "enabled e t")
  case True
  let ?s = "dp_step create send show_addr e (tn_loop t)"
  have dp: "dp_inv l ?s" using inv unfolding tunnel_inv_def by (blast intro: dp_step_inv)
  show ?thesis
  proof (cases "running ?s")
    case run: True
    then have "running (tn_loop t)" using dp_stopped by metis
    with run True dp inv show ?thesis by (simp add: tunnel_inv_def Let_def)
  next
    case False
    have "relays ?s = 0 \<and> nat_map (dp_sessions ?s) = []"
      using inv dp_stops [of "tn_loop t" create send show_addr e] False
      by (cases "running (tn_loop t)") (auto simp: tunnel_inv_def dp_stop_def dp_stopped)
    with True False dp inv show ?thesis
      by (simp add: tunnel_inv_def Let_def writer_abort_inv infra_shutdown_def)
  qed
qed (use inv in simp)

lemma replied_keeps:
  "running (dp_step create send show_addr (Replied d) s) = running s"
  "relays (dp_step create send show_addr (Replied d) s) = relays s"
  "dp_sessions (dp_step create send show_addr (Replied d) s) = dp_sessions s"
  by (simp_all add: dp_step.simps)

lemma writer_turn_dead: "\<not> alive w \<Longrightarrow> writer_turn ok w = w"
  by (simp add: writer_turn_def)

lemma tunnel_step_inv: "tunnel_inv l t \<Longrightarrow> tunnel_inv l (tunnel_step create send show_addr e t)"
proof (cases e)
  case (Deliver x)
  assume inv: "tunnel_inv l t"
  obtain src a d where x: "x = (src, a, d)" by (cases x)
  have "writer_inv (snd (udp_send (deliver_reply x) (tn_writer t)))"
    using writer_step_inv [of "tn_writer t" "SendReply (deliver_reply x)"] inv by (simp add: tunnel_inv_def)
  moreover have "dp_inv l (dp_step create send show_addr (Replied d) (tn_loop t))"
    using dp_step_inv inv unfolding tunnel_inv_def by blast
  moreover have "\<not> alive (tn_writer t) \<Longrightarrow> \<not> alive (snd (udp_send (deliver_reply x) (tn_writer t)))"
    by (simp add: udp_send_def)
  ultimately show ?thesis using inv
    by (auto simp: tunnel_inv_def Deliver x replied_keeps)
next
  case (WriterRuns ok)
  assume inv: "tunnel_inv l t"
  have "writer_inv (writer_turn ok (tn_writer t))"
    using writer_step_inv [of "tn_writer t" "WriterTurn ok"] inv by (simp add: tunnel_inv_def)
  with inv show ?thesis
    by (auto simp: tunnel_inv_def WriterRuns Let_def writer_turn_dead split: if_splits)
next
  case (LoopEvent x)
  assume "tunnel_inv l t"
  then show ?thesis unfolding LoopEvent by (rule loop_event_inv)
qed (auto simp: writer_abort_inv tunnel_inv_def trigger_shutdown_def split: if_splits)

interpretation tunnel: event_system "tunnel_step create send show_addr" "tunnel_inv l"
  by unfold_locales (rule tunnel_step_inv)

lemma spawn_inv:
  assumes "spawn stack_builder cl c = Inr t"
  shows "tunnel_inv (dp_limits c) t" "running (tn_loop t)" "tn_writer t = writer_new"
proof -
  obtain s where s: "build stack_builder (project_config c) = Inr s"
    "t = \<lparr>tn_loop = dp_start (dp_limits c) cl, tn_infra = map (\<lambda>t. (t, False)) (sk_infra s),
          tn_writer = writer_new, tn_shutdown = False\<rparr>"
    using assms by (auto simp: spawn_def and_then_eq_Inr)
  then show "running (tn_loop t)" "tn_writer t = writer_new" by (simp_all add: dp_start_def)
  show "tunnel_inv (dp_limits c) t"
    using build_ok [OF s(1)] unfolding s(2)
    by (auto simp: tunnel_inv_def dp_start_inv writer_inv_def writer_new_def image_image)
      (auto simp: dp_start_def)
qed

text \<open>A tunnel that has stopped stays as it is.\<close>

lemma stopped_step:
  assumes "tunnel_inv l t" "\<not> running (tn_loop t)"
  shows "tn_loop (tunnel_step create send show_addr e t) = tn_loop t"
  using assms
  by (cases e) (auto simp: trigger_shutdown_def Let_def dp_stopped split: prod.splits)

lemma stopped_run:
  assumes "tunnel_inv l t" "\<not> running (tn_loop t)"
  shows "tn_loop (fold (tunnel_step create send show_addr) es t) = tn_loop t"
  using assms
proof (induction es arbitrary: t)
  case (Cons e es)
  let ?t = "tunnel_step create send show_addr e t"
  have "tn_loop ?t = tn_loop t" by (rule stopped_step [OF Cons(2,3)])
  with Cons(1) [OF tunnel_step_inv [OF Cons(2)], of create send show_addr e] Cons(3) show ?case by simp
qed simp

text \<open>The end of an infrastructure task ends the loop when it takes up that arm.\<close>

lemma infra_end_stops:
  assumes "tunnel_inv l t" "k \<in> fst ` set (tn_infra t)"
  shows "\<not> running (tn_loop (fold (tunnel_step create send show_addr) [TaskEnds k, LoopEvent InfraFailed] t))"
  using assms end_task_failed [of k "tn_infra t"]
  by (cases "running (tn_loop t)") (auto simp: tunnel_inv_def enabled_def Let_def dp_step.simps dp_stop_def)

lemma dataplane_run_returns:
  assumes "spawn stack_builder cl c = Inr t0" "k \<in> fst ` set (tn_infra (fold (tunnel_step create send show_addr) es t0))"
  shows "dataplane_run create send show_addr stack_builder cl c (es @ [TaskEnds k, LoopEvent InfraFailed]) = Inr (Some ())"
  using infra_end_stops [OF tunnel.run_inv [OF spawn_inv(1) [OF assms(1)]] assms(2)]
  by (simp add: dataplane_run_def assms(1) handle_join_def)

section \<open>The way of a reply\<close>

text \<open>The part of a tunnel's run its writer sees.\<close>

fun writer_events :: "tunnel_event list \<Rightarrow> writer_event list" where
  "writer_events [] = []"
| "writer_events (Deliver x # es) = SendReply (deliver_reply x) # writer_events es"
| "writer_events (WriterRuns ok # es) = WriterTurn ok # writer_events es"
| "writer_events (_ # es) = writer_events es"

lemma dead_step: "\<not> alive (tn_writer t) \<Longrightarrow> \<not> alive (tn_writer (tunnel_step create send show_addr e t))"
  by (cases e) (auto simp: writer_abort_def udp_send_def writer_turn_def trigger_shutdown_def Let_def
      split: prod.splits)

lemma dead_run: "\<not> alive (tn_writer t) \<Longrightarrow> \<not> alive (tn_writer (fold (tunnel_step create send show_addr) es t))"
proof (induction es arbitrary: t)
  case (Cons e es)
  from Cons(1) [OF dead_step [OF Cons(2)]] show ?case by simp
qed simp

lemma writer_of_run:
  assumes "alive (tn_writer (fold (tunnel_step create send show_addr) es t))"
  shows "tn_writer (fold (tunnel_step create send show_addr) es t) = fold writer_step (writer_events es) (tn_writer t)"
  using assms
proof (induction es arbitrary: t)
  case (Cons e es)
  let ?t = "tunnel_step create send show_addr e t"
  have alive: "alive (tn_writer ?t)" using Cons(2) dead_run [of ?t create send show_addr es] by auto
  have "tn_writer ?t = fold writer_step (writer_events [e]) (tn_writer t)"
    using alive
    by (cases e) (auto simp: writer_abort_def trigger_shutdown_def Let_def udp_send_def
        split: prod.splits if_splits)
  moreover have "writer_events (e # es) = writer_events [e] @ writer_events es" by (cases e) auto
  ultimately show ?case using Cons(1) [of ?t] Cons(2) by simp
qed simp

lemma accepted_sent: "r \<in> set (accepted es w) \<Longrightarrow> SendReply r \<in> set es"
  by (induction es arbitrary: w) (auto split: writer_event.splits if_splits)

lemma writer_events_sent: "SendReply r \<in> set (writer_events es) \<Longrightarrow> \<exists>x. r = deliver_reply x \<and> Deliver x \<in> set es"
  by (induction es rule: writer_events.induct) auto

lemma same_family_addressed:
  "filter same_family (map deliver_reply (addressed parse_addr src ds)) =
     List.map_filter (\<lambda>(d, peer). case parse_addr peer of
         Some a \<Rightarrow> if is_ipv4 (fst a) = is_ipv4 (fst src) then Some (d, a, src) else None
       | None \<Rightarrow> None) ds"
  by (induction ds) (auto simp: addressed_def List.map_filter_simps same_family_def split: option.splits)

definition sample_stack :: "(unit, unit, unit) stack_builder" where
  "sample_stack st = Inr (Some (), Some (), Some ())"

lemma sample_spawn: "\<exists>t0. spawn sample_stack () (dp_config_new 1500) = Inr t0"
  by (simp add: spawn_def build_def sample_stack_def ok_or_else_def)

section \<open>Properties\<close>

text \<open>
  C17. A reply reaches the app that asked: when the replies of a session were queued and the writer
  has worked through its queue, the stack was given exactly the session's datagrams whose sender is
  an address of the app's family, each once, in order, unchanged, sourced at that sender and
  destined for the app; nothing is ever emitted that no session delivered; and the queue stays
  within its bound.
\<close>

theorem replies_reach_app:
  fixes t0 :: "('c, 'u) tunnel"
  assumes "spawn stack_builder cl c = Inr t0"
    and "t = fold (tunnel_step create send show_addr) es t0" "alive (tn_writer t)" "waiting (tn_writer t) = []"
    and "filter (\<lambda>(d, a, s). s = src) (accepted (writer_events es) writer_new) =
      map deliver_reply (fst (reply_pump parse_addr src (replies ds)))"
  shows "filter (\<lambda>(d, a, s). s = src) (emitted (tn_writer t)) =
      List.map_filter (\<lambda>(d, peer). case parse_addr peer of
          Some a \<Rightarrow> if is_ipv4 (fst a) = is_ipv4 (fst src) then Some (d, a, src) else None
        | None \<Rightarrow> None) ds \<and>
    set (emitted (tn_writer t)) \<subseteq> {deliver_reply x |x. Deliver x \<in> set es} \<and>
    length (waiting (tn_writer (fold (tunnel_step create send show_addr) (take k es) t0))) \<le> REPLY_CHANNEL"
proof -
  let ?acc = "accepted (writer_events es) writer_new"
  have w: "tn_writer t = fold writer_step (writer_events es) writer_new"
    using writer_of_run assms(2,3) spawn_inv(3) [OF assms(1)] by metis
  have em: "emitted (tn_writer t) = filter same_family ?acc"
    using writer_run [of writer_new "writer_events es"] assms(3,4) unfolding w by (auto simp: writer_new_def)
  have "filter (\<lambda>(d, a, s). s = src) (emitted (tn_writer t)) = filter same_family (filter (\<lambda>(d, a, s). s = src) ?acc)"
    unfolding em by (simp add: conj_commute)
  also have "\<dots> = filter same_family (map deliver_reply (addressed parse_addr src ds))"
    unfolding assms(5) using reply_pump_all [of parse_addr src ds "[]"] by simp
  finally have "filter (\<lambda>(d, a, s). s = src) (emitted (tn_writer t)) =
      filter same_family (map deliver_reply (addressed parse_addr src ds))" .
  moreover have "tunnel_inv (dp_limits c) (fold (tunnel_step create send show_addr) (take k es) t0)"
    by (rule tunnel.run_inv [OF spawn_inv(1) [OF assms(1)]])
  moreover have "set (emitted (tn_writer t)) \<subseteq> {deliver_reply x |x. Deliver x \<in> set es}"
    unfolding em using accepted_sent writer_events_sent by fastforce
  ultimately show ?thesis by (simp add: same_family_addressed tunnel_inv_def writer_inv_def)
qed

theorem replies_reach_app_witness:
  "\<exists>t0 :: (unit, nat) tunnel. spawn sample_stack () (dp_config_new 1500) = Inr t0 \<and>
     filter (\<lambda>(d, a, s). s = (V4 9, 5000)) (emitted (tn_writer
       (fold (tunnel_step (\<lambda>c. (None, c)) (\<lambda>u d a c. (True, c)) (\<lambda>a. ''a''))
         [Deliver ((V4 9, 5000), (V4 8, 53), [1]), WriterRuns True] t0))) = [([1], (V4 8, 53), (V4 9, 5000))]"
proof -
  let ?step = "tunnel_step (\<lambda>c. (None, c)) (\<lambda>u d a c. (True, c)) (\<lambda>a. ''a'')
    :: _ \<Rightarrow> (unit, nat) tunnel \<Rightarrow> (unit, nat) tunnel"
  let ?es = "[Deliver ((V4 9, 5000), (V4 8, 53), [1]), WriterRuns True]"
  obtain t0 :: "(unit, nat) tunnel" where t0: "spawn sample_stack () (dp_config_new 1500) = Inr t0"
    using sample_spawn by blast
  have w: "tn_writer (fold ?step ?es t0) = \<lparr>waiting = [], emitted = [([1], (V4 8, 53), (V4 9, 5000))], alive = True\<rparr>"
    using spawn_inv(3) [OF t0]
    by (simp add: writer_new_def udp_send_def writer_turn_def REPLY_CHANNEL_def same_family_def Let_def)
  have "filter (\<lambda>(d, a, s). s = (V4 9, 5000)) (emitted (tn_writer (fold ?step ?es t0))) =
      List.map_filter (\<lambda>(d, peer). case Some (V4 8, 53) of
          Some a \<Rightarrow> if is_ipv4 (fst a) = is_ipv4 (fst (V4 9, 5000 :: u16)) then Some (d, a, (V4 9, 5000)) else None
        | None \<Rightarrow> None) [([1], ''8.8.8.8:53'')]"
    using replies_reach_app [OF t0 refl, of "\<lambda>c. (None, c)" "\<lambda>u d a c. (True, c)" "\<lambda>a. ''a''" ?es "(V4 9, 5000)"
        "\<lambda>_. Some (V4 8, 53)" "[([1], ''8.8.8.8:53'')]"] unfolding w
    by (simp add: writer_new_def udp_send_def REPLY_CHANNEL_def replies_def)
  then show ?thesis using t0 by (auto simp: List.map_filter_simps)
qed



end
