(* ===== verification/FrontEnds.thy ===== *)
theory FrontEnds
  imports Tunnel
begin

text \<open>
  The two development front ends: \<^verbatim>\<open>crates/transport-tun\<close>, which runs the tunnel over a device it
  opens, and \<^verbatim>\<open>crates/transport-socks5\<close>, which serves SOCKS5 clients. The SOCKS5 protocol itself
  (\<^verbatim>\<open>fast-socks5\<close>), the file system, the device and the listening sockets are parameters: what each call
  returned.
\<close>

section \<open>The TUN front end\<close>

record tun_cli =
  tun_url :: string
  tun_addr :: u32
  tun_prefix :: u8
  tun_addr6 :: "128 word option"
  tun_prefix6 :: u8
  tun_mtu :: u16

text \<open>The settings given to \<^verbatim>\<open>DeviceBuilder\<close>.\<close>

record dev_settings =
  dev_ipv4 :: "u32 \<times> u8"
  dev_ipv6 :: "(128 word \<times> u8) option"
  dev_mtu :: u16

definition device_settings :: "tun_cli \<Rightarrow> dev_settings" where
  "device_settings cli =
     \<lparr>dev_ipv4 = (tun_addr cli, tun_prefix cli),
      dev_ipv6 = map_option (\<lambda>a. (a, tun_prefix6 cli)) (tun_addr6 cli), dev_mtu = tun_mtu cli\<rparr>"

type_synonym resolver = "string \<Rightarrow> u16 \<Rightarrow> string + socket_addr list"

definition build_config :: "url_codec \<Rightarrow> resolver \<Rightarrow> string \<Rightarrow> anyhow + config" where
  "build_config u resolve url =
     and_then (ok_or_else (parse_uri u url) [''not a hysteria2:// link: '' @ url]) (\<lambda>profile.
     with_ctx ''build client config from link'' (map_sum (\<lambda>e. [display_config_error e]) id (from_profile resolve profile)))"

text \<open>A call that fails with the given text.\<close>

definition checked_call :: "string \<Rightarrow> string option \<Rightarrow> anyhow + unit" where
  "checked_call m r = (case r of Some e \<Rightarrow> Inl [m, e] | None \<Rightarrow> Inr ())"

definition client_connect :: "'h connect_env \<Rightarrow> config \<Rightarrow> (anyhow + client \<times> handshake_info) exec" where
  "client_connect env c =
     exec_bind (connect env c) (\<lambda>(r, _).
     Ret (with_ctx ''connect to server'' (map_sum (\<lambda>e. [display_connect_failure e]) id r)))"

text \<open>
  What happens outside while the front end runs: whether the device opens and has a name, the
  tunnel's events until Ctrl-C (or waiting for it fails), and those until the loop takes up the signal.
\<close>

record ('h, 'r, 's, 'l) tun_env =
  te_connect :: "'h connect_env"
  te_open :: "dev_settings \<Rightarrow> string option"
  te_name :: "string option"
  te_stack :: "('r, 's, 'l) stack_builder"
  te_before :: "tunnel_event list"
  te_ctrl_c :: "string option"
  te_after :: "tunnel_event list"

text \<open>
  \<^verbatim>\<open>run\<close>, with the session operations of the client: the final counters.
\<close>

definition tun_run ::
  "url_codec \<Rightarrow> resolver \<Rightarrow> (nat \<Rightarrow> bytes \<Rightarrow> string \<Rightarrow> client \<Rightarrow> bool \<times> client) \<Rightarrow> (socket_addr \<Rightarrow> string) \<Rightarrow>
   ('h, 'r, 's, 'l) tun_env \<Rightarrow> tun_cli \<Rightarrow> (anyhow + dp_stats option) exec" where
  "tun_run u resolve send show_addr env cli =
     (case build_config u resolve (tun_url cli) of
        Inl e \<Rightarrow> Ret (Inl e)
      | Inr c \<Rightarrow>
          exec_bind (client_connect (te_connect env) c) (\<lambda>r.
          Ret (and_then r (\<lambda>(cl, info).
            and_then (checked_call ''open TUN device'' (te_open env (device_settings cli))) (\<lambda>_.
            and_then (checked_call ''TUN name'' (te_name env)) (\<lambda>_.
            and_then (spawn (te_stack env) cl (dp_config_new (unat (tun_mtu cli)))) (\<lambda>t.
            let t = fold (tunnel_step client_create send show_addr) (te_before env) t in
            and_then (checked_call ''await Ctrl-C'' (te_ctrl_c env)) (\<lambda>_.
            Inr (handle_join (fold (tunnel_step client_create send show_addr)
                   (Trigger # te_after env @ [LoopEvent ShutdownChanged]) t))))))))))"

section \<open>The SOCKS5 front end\<close>

record socks_cli =
  socks5 :: socket_addr
  cli_url :: string
  cli_ca :: "string option"

definition into_parts ::
  "url_codec \<Rightarrow> resolver \<Rightarrow> (string \<Rightarrow> string + bytes) \<Rightarrow> (bytes \<Rightarrow> string + bytes) \<Rightarrow> socks_cli \<Rightarrow>
   anyhow + (socket_addr \<times> config)" where
  "into_parts u resolve read_file from_pem cli =
     and_then (build_config u resolve (cli_url cli)) (\<lambda>config.
     and_then
       (case cli_ca cli of
          None \<Rightarrow> Inr config
        | Some ca_path \<Rightarrow>
            and_then (case read_file ca_path of
                        Inl e \<Rightarrow> Inl [''read CA cert '' @ ca_path, e] | Inr pem \<Rightarrow> Inr pem) (\<lambda>pem.
            and_then (case from_pem pem of
                        Inl e \<Rightarrow> Inl [''parse CA cert '' @ ca_path @ '': '' @ e] | Inr cert \<Rightarrow> Inr cert) (\<lambda>cert.
            Inr (config\<lparr>config_tls := (config_tls config)\<lparr>ca := Some cert\<rparr>\<rparr>)))) (\<lambda>config.
     Inr (socks5 cli, config)))"

text \<open>
  \<^verbatim>\<open>run\<close> up to serving: the client and the address served. \<open>bound\<close> and \<open>local\<close> are the outcomes of
  binding the listener and of asking for its address.
\<close>

definition socks_run ::
  "url_codec \<Rightarrow> resolver \<Rightarrow> (string \<Rightarrow> string + bytes) \<Rightarrow> (bytes \<Rightarrow> string + bytes) \<Rightarrow> 'h connect_env \<Rightarrow>
   (socket_addr \<Rightarrow> string option) \<Rightarrow> string option \<Rightarrow> socks_cli \<Rightarrow> (anyhow + socket_addr \<times> client) exec" where
  "socks_run u resolve read_file from_pem env bound local_addr cli =
     (case into_parts u resolve read_file from_pem cli of
        Inl e \<Rightarrow> Ret (Inl e)
      | Inr (listen, config) \<Rightarrow>
          exec_bind (client_connect env config) (\<lambda>r.
          Ret (and_then r (\<lambda>(cl, info).
            and_then (checked_call ''bind SOCKS5 listener'' (bound listen)) (\<lambda>_.
            and_then (checked_call ''SOCKS5 listener local address'' local_addr) (\<lambda>_.
            Inr (listen, cl)))))))"

text \<open>
  \<^verbatim>\<open>serve\<close>: every accepted connection is handled on its own; the loop ends with the first error of
  the listener. The result is the connections handled and that error.
\<close>

fun serve :: "(string + 'conn) list \<Rightarrow> 'conn list \<times> anyhow option" where
  "serve [] = ([], None)"
| "serve (Inl e # xs) = ([], Some [''accept SOCKS5 connection'', e])"
| "serve (Inr c # xs) = (let (cs, e) = serve xs in (c # cs, e))"

datatype socks_command = TCPConnect | TCPBind | UDPAssociate

datatype socks_reply =
    ReplySuccess socket_addr
  | HostUnreachable
  | GeneralFailure
  | CommandNotSupported

text \<open>Sending a reply: the reply is on the wire unless it fails.\<close>

definition reply_with :: "(socks_reply \<Rightarrow> string option) \<Rightarrow> socks_reply \<Rightarrow> socks_reply list \<times> (anyhow + unit)" where
  "reply_with out r = (case out r of Some e \<Rightarrow> ([], Inl [e]) | None \<Rightarrow> ([r], Inr ()))"

text \<open>
  \<^verbatim>\<open>handle_connect\<close> given what \<^verbatim>\<open>client.tcp\<close> answered: the replies sent, whether the two streams
  were spliced, and the result.
\<close>

definition handle_connect ::
  "(socks_reply \<Rightarrow> string option) \<Rightarrow> (tcp_open_error \<Rightarrow> string) \<Rightarrow> string option \<Rightarrow> tcp_open_error + tcp_tunnel \<Rightarrow>
   socks_reply list \<times> tcp_tunnel option \<times> (anyhow + unit)" where
  "handle_connect out show_err copied r =
     (case r of
        Inl e \<Rightarrow>
          let (sent, ok) = reply_with out HostUnreachable
          in (sent, None, and_then ok (\<lambda>_. Inl [''open tunnel'', show_err e]))
      | Inr tunnel \<Rightarrow>
          let (sent, ok) = reply_with out (ReplySuccess (V4 0, 0))
          in (sent, (case ok of Inl _ \<Rightarrow> None | Inr _ \<Rightarrow> Some tunnel),
              and_then ok (\<lambda>_. checked_call ''relay TCP'' copied)))"

text \<open>
  The relay loop of \<^verbatim>\<open>handle_udp_associate\<close>. Each event is the arm of the \<^verbatim>\<open>select!\<close> that fired: a
  datagram of at most 65535 bytes at the relay socket, a datagram of the session with the outcome of sending
  it on in case it is, or a read of the control connection (false is its end or an error).
\<close>

datatype assoc_event =
    AtRelay "string + (bytes \<times> socket_addr)"
  | AtSession "string + (bytes \<times> string)" "string option"
  | AtControl bool

datatype assoc_out = SessionSend bytes string | SendTo bytes socket_addr

record socks_codec =
  parse_udp_request :: "bytes \<Rightarrow> (u8 \<times> string \<times> bytes) option"
  new_udp_header :: "socket_addr \<Rightarrow> bytes option"
  parse_socket_addr :: "string \<Rightarrow> socket_addr option"

definition at_relay ::
  "socks_codec \<Rightarrow> bytes \<Rightarrow> socket_addr \<Rightarrow> socket_addr option \<Rightarrow> socket_addr option \<times> assoc_out list" where
  "at_relay cd packet peer pinned =
     (if pinned \<noteq> None \<and> pinned \<noteq> Some peer then (pinned, [])
      else
        (Some peer,
         case parse_udp_request cd packet of
           Some (frag, target, d) \<Rightarrow> if frag = 0 then [SessionSend d target] else []
         | None \<Rightarrow> []))"

definition at_session :: "socks_codec \<Rightarrow> bytes \<Rightarrow> string \<Rightarrow> socket_addr option \<Rightarrow> assoc_out list" where
  "at_session cd d peer pinned =
     (case (pinned, parse_socket_addr cd peer) of
        (Some dst, Some a) \<Rightarrow>
          (case new_udp_header cd a of Some h \<Rightarrow> [SendTo (h @ d) dst] | None \<Rightarrow> [])
      | _ \<Rightarrow> [])"

text \<open>The result of the loop: what it sent, and how it ended if it has.\<close>

fun assoc_loop ::
  "socks_codec \<Rightarrow> assoc_event list \<Rightarrow> socket_addr option \<Rightarrow> assoc_out list \<times> (anyhow + unit) option" where
  "assoc_loop cd [] pinned = ([], None)"
| "assoc_loop cd (AtRelay (Inl e) # evs) pinned = ([], Some (Inl [''recv from SOCKS UDP'', e]))"
| "assoc_loop cd (AtRelay (Inr (packet, peer)) # evs) pinned =
     (let (pinned', out) = at_relay cd packet peer pinned;
          (outs, r) = assoc_loop cd evs pinned'
      in (out @ outs, r))"
| "assoc_loop cd (AtSession (Inl e) _ # evs) pinned = ([], Some (Inl [''receive from tunnel'', e]))"
| "assoc_loop cd (AtSession (Inr (d, peer)) sent # evs) pinned =
     (let out = at_session cd d peer pinned in
      case (out, sent) of
        (_ # _, Some e) \<Rightarrow> ([], Some (Inl [''send to SOCKS UDP'', e]))
      | _ \<Rightarrow> let (outs, r) = assoc_loop cd evs pinned in (out @ outs, r))"
| "assoc_loop cd (AtControl goes_on # evs) pinned =
     (if goes_on then assoc_loop cd evs pinned else ([], Some (Inr ())))"

text \<open>
  \<^verbatim>\<open>handle_udp_associate\<close>: \<open>bound\<close> is the outcome of binding the relay socket and \<open>relay_addr\<close> of asking
  for its address. The client is returned, since opening a session changes its table.
\<close>

definition handle_udp_associate ::
  "socks_codec \<Rightarrow> (socks_reply \<Rightarrow> string option) \<Rightarrow> (udp_open_error \<Rightarrow> string) \<Rightarrow> string option \<Rightarrow>
   string + socket_addr \<Rightarrow> assoc_event list \<Rightarrow> client \<Rightarrow>
   socks_reply list \<times> assoc_out list \<times> (anyhow + unit) option \<times> client" where
  "handle_udp_associate cd out show_err bound relay_addr evs cl =
     (case checked_call ''bind UDP relay'' bound of
        Inl e \<Rightarrow> ([], [], Some (Inl e), cl)
      | Inr _ \<Rightarrow>
          (case relay_addr of
             Inl e \<Rightarrow> ([], [], Some (Inl [''relay addr'', e]), cl)
           | Inr ra \<Rightarrow>
               (case client_udp cl of
                  (Inl e, cl') \<Rightarrow>
                    let (sent, ok) = reply_with out GeneralFailure
                    in (sent, [], Some (and_then ok (\<lambda>_. Inl [''open UDP session'', show_err e])), cl')
                | (Inr session, cl') \<Rightarrow>
                    let (sent, ok) = reply_with out (ReplySuccess ra)
                    in case ok of
                         Inl e \<Rightarrow> (sent, [], Some (Inl e), cl')
                       | Inr _ \<Rightarrow> let (outs, r) = assoc_loop cd evs None in (sent, outs, r, cl'))))"

text \<open>
  \<^verbatim>\<open>handle\<close>: the handshake, then the command. \<open>se_local\<close>, \<open>se_accept\<close> and \<open>se_command\<close> are what asking
  for the local address, the greeting and reading the command returned; the rest is what the
  commands meet.
\<close>

record socks_env =
  se_local :: "string option"
  se_accept :: "string option"
  se_command :: "string + (socks_command \<times> string)"
  se_reply :: "socks_reply \<Rightarrow> string option"
  se_stream :: "string option"
  se_write :: "bytes \<Rightarrow> string option"
  se_rng :: rng
  se_answers :: "read_event list"
  se_copy :: "string option"
  se_bind :: "string option"
  se_relay :: "string + socket_addr"
  se_events :: "assoc_event list"
  se_show_tcp :: "tcp_open_error \<Rightarrow> string"
  se_show_udp :: "udp_open_error \<Rightarrow> string"

record socks_done =
  sd_replies :: "socks_reply list"
  sd_spliced :: "tcp_tunnel option"
  sd_out :: "assoc_out list"
  sd_result :: "(anyhow + unit) option"
  sd_client :: client

definition socks_failed :: "anyhow \<Rightarrow> client \<Rightarrow> socks_done" where
  "socks_failed e cl = \<lparr>sd_replies = [], sd_spliced = None, sd_out = [], sd_result = Some (Inl e), sd_client = cl\<rparr>"

definition dispatch :: "socks_codec \<Rightarrow> socks_env \<Rightarrow> client \<Rightarrow> socks_command \<Rightarrow> string \<Rightarrow> socks_done exec" where
  "dispatch cd env cl cmd target =
     (case cmd of
        TCPConnect \<Rightarrow>
          exec_bind (client_tcp_open (se_stream env) (se_write env) (se_rng env) (cl_fast_open cl) target (se_answers env))
            (\<lambda>r. Ret (case r of
               None \<Rightarrow> \<lparr>sd_replies = [], sd_spliced = None, sd_out = [], sd_result = None, sd_client = cl\<rparr>
             | Some x \<Rightarrow>
                 let (sent, spliced, res) = handle_connect (se_reply env) (se_show_tcp env) (se_copy env) x
                 in \<lparr>sd_replies = sent, sd_spliced = spliced, sd_out = [], sd_result = Some res, sd_client = cl\<rparr>))
      | UDPAssociate \<Rightarrow>
          let (sent, outs, res, cl') =
            handle_udp_associate cd (se_reply env) (se_show_udp env) (se_bind env) (se_relay env) (se_events env) cl
          in Ret \<lparr>sd_replies = sent, sd_spliced = None, sd_out = outs, sd_result = res, sd_client = cl'\<rparr>
      | TCPBind \<Rightarrow>
          let (sent, ok) = reply_with (se_reply env) CommandNotSupported
          in Ret \<lparr>sd_replies = sent, sd_spliced = None, sd_out = [],
                  sd_result = Some (and_then ok (\<lambda>_. Inl [''SOCKS5 BIND is not supported''])), sd_client = cl\<rparr>)"

definition handle_socks :: "socks_codec \<Rightarrow> socks_env \<Rightarrow> client \<Rightarrow> socks_done exec" where
  "handle_socks cd env cl =
     (case and_then (checked_call ''connection local address'' (se_local env)) (\<lambda>_.
           and_then (checked_call ''SOCKS5 handshake'' (se_accept env)) (\<lambda>_.
           map_sum (\<lambda>e. [''read SOCKS5 command'', e]) id (se_command env))) of
        Inl e \<Rightarrow> Ret (socks_failed e cl)
      | Inr (cmd, target) \<Rightarrow> dispatch cd env cl cmd target)"

section \<open>The pinned client\<close>

text \<open>
  The first sender at the relay socket, what its requests ask for, and how a datagram of the
  session is framed for it.
\<close>

fun first_sender :: "assoc_event list \<Rightarrow> socket_addr option" where
  "first_sender (AtRelay (Inr (_, peer)) # _) = Some peer"
| "first_sender (_ # evs) = first_sender evs"
| "first_sender [] = None"

fun requested :: "socks_codec \<Rightarrow> socket_addr \<Rightarrow> assoc_event list \<Rightarrow> (bytes \<times> string) list" where
  "requested cd p [] = []"
| "requested cd p (AtRelay (Inr (packet, peer)) # evs) =
     (case parse_udp_request cd packet of
        Some (frag, target, d) \<Rightarrow> if peer = p \<and> frag = 0 then [(d, target)] else []
      | None \<Rightarrow> []) @ requested cd p evs"
| "requested cd p (_ # evs) = requested cd p evs"

fun relayed :: "assoc_out list \<Rightarrow> (bytes \<times> string) list" where
  "relayed [] = []"
| "relayed (SessionSend d target # os) = (d, target) # relayed os"
| "relayed (_ # os) = relayed os"

fun is_answer :: "assoc_out \<Rightarrow> bool" where
  "is_answer (SendTo _ _) = True"
| "is_answer (SessionSend _ _) = False"

lemma relayed_append [simp]: "relayed (a @ b) = relayed a @ relayed b"
  by (induction a rule: relayed.induct) auto

definition framed :: "socks_codec \<Rightarrow> socket_addr \<Rightarrow> assoc_event list \<Rightarrow> assoc_out set" where
  "framed cd p evs = {SendTo (h @ d) p |h d a peer sent. AtSession (Inr (d, peer)) sent \<in> set evs \<and>
     parse_socket_addr cd peer = Some a \<and> new_udp_header cd a = Some h}"

lemma assoc_event_cases:
  obtains
    (relay_failed) x where "e = AtRelay (Inl x)"
  | (relay) packet peer where "e = AtRelay (Inr (packet, peer))"
  | (session_failed) x sent where "e = AtSession (Inl x) sent"
  | (session) d peer sent where "e = AtSession (Inr (d, peer)) sent"
  | (control) goes_on where "e = AtControl goes_on"
  by (cases e) (metis old.sum.exhaust surj_pair)+

lemma framed_later: "x \<in> framed cd p evs \<Longrightarrow> x \<in> framed cd p (e # evs)"
  by (fastforce simp: framed_def)

lemma at_session_framed:
  "set (at_session cd d peer (Some p)) \<subseteq> framed cd p (AtSession (Inr (d, peer)) sent # evs)"
proof
  fix x assume "x \<in> set (at_session cd d peer (Some p))"
  then obtain a h where "parse_socket_addr cd peer = Some a" "new_udp_header cd a = Some h" "x = SendTo (h @ d) p"
    by (fastforce simp: at_session_def dest: sym split: option.splits)
  then show "x \<in> framed cd p (AtSession (Inr (d, peer)) sent # evs)"
    unfolding framed_def by (intro CollectI exI [of _ h] exI [of _ d] exI [of _ a] exI [of _ peer] exI [of _ sent]) simp
qed

lemma at_session_relayed:
  "relayed (at_session cd d peer (Some p)) = []" "at_session cd d peer None = []"
  by (auto simp: at_session_def split: option.splits)

text \<open>Once a client is pinned: its requests are relayed in order, and only it is answered.\<close>

lemma assoc_pinned:
  assumes "assoc_loop cd evs (Some p) = (outs, r)"
  shows "(\<exists>rest. requested cd p evs = relayed outs @ rest \<and> (r = None \<longrightarrow> rest = [])) \<and>
    set (filter is_answer outs) \<subseteq> framed cd p evs"
  using assms
proof (induction evs arbitrary: outs)
  case (Cons e evs)
  obtain outs' r' where rest: "assoc_loop cd evs (Some p) = (outs', r')" by fastforce
  note IH = Cons(1) [of outs']
  show ?case
  proof (cases e rule: assoc_event_cases)
    case (relay packet peer)
    with IH Cons(2) rest show ?thesis
      by (fastforce simp: at_relay_def split: if_splits option.splits intro: framed_later)
  next
    case (session d peer sent)
    let ?o = "at_session cd d peer (Some p)"
    show ?thesis
    proof (cases "?o \<noteq> [] \<and> sent \<noteq> None")
      case True
      then show ?thesis using Cons(2) by (auto simp: session Let_def split: list.splits)
    next
      case False
      then have "outs = ?o @ outs'" "r = r'"
        using Cons(2) rest by (auto simp: session Let_def split: list.splits option.splits)
      with IH rest show ?thesis
        using at_session_framed [of cd d peer p sent evs] at_session_relayed(1) [of cd d peer p]
        by (auto simp: session intro: framed_later)
    qed
  next
    case (control goes_on)
    with IH Cons(2) rest show ?thesis by (auto split: if_splits intro: framed_later)
  qed (use Cons(2) in auto)
qed auto

lemma assoc_unpinned:
  assumes "assoc_loop cd evs None = (outs, r)"
  shows "case first_sender evs of
      None \<Rightarrow> outs = []
    | Some p \<Rightarrow> (\<exists>rest. requested cd p evs = relayed outs @ rest \<and> (r = None \<longrightarrow> rest = [])) \<and>
        set (filter is_answer outs) \<subseteq> framed cd p evs"
  using assms
proof (induction evs arbitrary: outs)
  case (Cons e evs)
  show ?case
  proof (cases e rule: assoc_event_cases)
    case (relay packet peer)
    have "assoc_loop cd (e # evs) (Some peer) = (outs, r)"
      using Cons(2) by (simp add: relay at_relay_def)
    from assoc_pinned [OF this] show ?thesis by (simp add: relay)
  next
    case (session d peer sent)
    with Cons show ?thesis
      by (fastforce simp: at_session_relayed(2) split: option.splits intro: framed_later)
  qed (use Cons in \<open>fastforce split: if_splits option.splits intro: framed_later\<close>)+
qed simp

section \<open>From a command line to a client\<close>

lemma connect_keeps:
  assumes "connect env c0 = Ret (Inr (cl, info), closed)"
  shows "cl_fast_open cl = config_fast_open c0"
    "rustls_trust (quic_tls (cl_transport cl)) = (case ca (config_tls c0) of Some x \<Rightarrow> TrustCa x | None \<Rightarrow> TrustPlatform)"
    "info_server_addr info = (to_canonical (fst (server_addr c0)), snd (server_addr c0))"
proof -
  obtain c tc ep where c: "c = canonical_server (filled_config c0)"
    "build_quic_client_config (ce_tls env) (ce_idle env) c = Inr tc" "establish env c tc ep = (Inr (cl, info), closed)"
    using assms by (cases rule: connect_cases [of env c0]) auto
  note est = establish_ok [OF c(3)] and tls = quic_config_ok [OF c(2)]
  have same: "config_fast_open c = config_fast_open c0" "config_tls c = config_tls c0"
    "server_addr c = (to_canonical (fst (server_addr c0)), snd (server_addr c0))"
    unfolding c(1) by (simp_all add: filled_config_def canonical_server_def Let_def)
  show "cl_fast_open cl = config_fast_open c0" using est same(1) by simp
  show "rustls_trust (quic_tls (cl_transport cl)) = (case ca (config_tls c0) of Some x \<Rightarrow> TrustCa x | None \<Rightarrow> TrustPlatform)"
    using est tls same(2) by simp
  show "info_server_addr info = (to_canonical (fst (server_addr c0)), snd (server_addr c0))" using est same(3) by simp
qed

lemma from_profile_keeps:
  "from_profile resolve p = Inr c \<Longrightarrow> config_fast_open c = fast_open p \<and> ca (config_tls c) = None"
  by (auto simp: from_profile_def and_then_eq_Inr Let_def config_new_def split: prod.splits)

lemma with_ctx_Inr [simp]: "with_ctx m r = Inr x \<longleftrightarrow> r = Inr x"
  by (cases r) auto

lemma map_sum_Inr [simp]: "map_sum f id r = Inr x \<longleftrightarrow> r = Inr x"
  by (cases r) auto

lemma build_config_Inr:
  "build_config u resolve url = Inr c \<longleftrightarrow> (\<exists>p. parse_uri u url = Some p \<and> from_profile resolve p = Inr c)"
  by (auto simp: build_config_def ok_or_else_def and_then_eq_Inr split: option.splits)

lemma client_connect_Inr:
  "client_connect env c = Ret (Inr x) \<longleftrightarrow> (\<exists>closed. connect env c = Ret (Inr x, closed))"
  by (cases "connect env c") (auto simp: client_connect_def split: prod.splits)

lemma into_parts_Inr:
  assumes "into_parts u resolve read_file from_pem cli = Inr (listen, c)"
  obtains p c0 where "listen = socks5 cli" "parse_uri u (cli_url cli) = Some p" "from_profile resolve p = Inr c0"
    "case cli_ca cli of
       None \<Rightarrow> c = c0
     | Some path \<Rightarrow> \<exists>pem cert. read_file path = Inr pem \<and> from_pem pem = Inr cert \<and>
         c = c0\<lparr>config_tls := (config_tls c0)\<lparr>ca := Some cert\<rparr>\<rparr>"
proof -
  obtain c0 where c0: "build_config u resolve (cli_url cli) = Inr c0" "listen = socks5 cli"
    "(case cli_ca cli of
       None \<Rightarrow> c = c0
     | Some path \<Rightarrow> \<exists>pem cert. read_file path = Inr pem \<and> from_pem pem = Inr cert \<and>
         c = c0\<lparr>config_tls := (config_tls c0)\<lparr>ca := Some cert\<rparr>\<rparr>)"
    using assms
    by (cases "cli_ca cli"; cases "read_file (the (cli_ca cli))"; cases "from_pem (projr (read_file (the (cli_ca cli))))")
      (auto simp: into_parts_def and_then_eq_Inr)
  with that show thesis by (auto simp: build_config_Inr)
qed

text \<open>The TUN front end does not hang in \<^verbatim>\<open>join\<close>: after Ctrl-C the counters are returned.\<close>

lemma shutdown_stays: "tn_shutdown t \<Longrightarrow> tn_shutdown (fold (tunnel_step create send show_addr) es t)"
proof (induction es arbitrary: t)
  case (Cons e es)
  have "tn_shutdown (tunnel_step create send show_addr e t)"
    using Cons(2) by (cases e) (auto simp: Let_def trigger_shutdown_def split: prod.splits)
  from Cons(1) [OF this] show ?case by simp
qed simp

lemma signalled_stops:
  "tn_shutdown t \<Longrightarrow> handle_join (tunnel_step create send show_addr (LoopEvent ShutdownChanged) t) \<noteq> None"
  by (auto simp: handle_join_def enabled_def dp_step.simps dp_stop_def Let_def)

lemma tun_run_joins:
  assumes "tun_run u resolve send show_addr env cli = Ret (Inr x)"
  shows "x \<noteq> None"
proof -
  obtain t where "x = handle_join (fold (tunnel_step client_create send show_addr)
      (Trigger # te_after env @ [LoopEvent ShutdownChanged]) t)"
  proof (cases "build_config u resolve (tun_url cli)")
    case (Inr c)
    then show thesis using assms that
      by (cases "client_connect (te_connect env) c") (auto simp: tun_run_def and_then_eq_Inr Let_def)
  qed (use assms in \<open>simp add: tun_run_def\<close>)
  then show ?thesis
    using signalled_stops [OF shutdown_stays [of "trigger_shutdown t" client_create send show_addr "te_after env"]]
    by (simp add: trigger_shutdown_def)
qed

text \<open>
  A command is answered at most once; only a dial that succeeded is answered with success and spliced,
  and one that failed with an error.
\<close>

lemma dispatch_replies:
  assumes "dispatch cd env cl cmd target = Ret d"
  shows "length (sd_replies d) \<le> 1"
    "sd_spliced d \<noteq> None \<Longrightarrow> cmd = TCPConnect \<and> sd_replies d = [ReplySuccess (V4 0, 0)]"
    "cmd = TCPConnect \<Longrightarrow> sd_replies d = [HostUnreachable] \<Longrightarrow> \<exists>e. sd_result d = Some (Inl e)"
proof -
  show "length (sd_replies d) \<le> 1"
    using assms
    by (cases cmd; cases "client_tcp_open (se_stream env) (se_write env) (se_rng env) (cl_fast_open cl) target (se_answers env)")
      (auto simp: dispatch_def handle_connect_def handle_udp_associate_def reply_with_def Let_def
        split: option.splits sum.splits prod.splits)
  show "sd_spliced d \<noteq> None \<Longrightarrow> cmd = TCPConnect \<and> sd_replies d = [ReplySuccess (V4 0, 0)]"
    using assms
    by (cases cmd; cases "client_tcp_open (se_stream env) (se_write env) (se_rng env) (cl_fast_open cl) target (se_answers env)")
      (auto simp: dispatch_def handle_connect_def handle_udp_associate_def reply_with_def Let_def
        split: option.splits sum.splits prod.splits)
  show "\<exists>e. sd_result d = Some (Inl e)" if "cmd = TCPConnect" "sd_replies d = [HostUnreachable]"
    using assms that
    by (cases "client_tcp_open (se_stream env) (se_write env) (se_rng env) (cl_fast_open cl) target (se_answers env)")
      (auto simp: dispatch_def handle_connect_def reply_with_def Let_def split: option.splits sum.splits)
qed

text \<open>Concrete instances, for the witnesses.\<close>

definition sample_socks :: socks_codec where
  "sample_socks = \<lparr>parse_udp_request = (\<lambda>b. Some (0, ''h:1'', b)), new_udp_header = (\<lambda>_. Some [9]),
     parse_socket_addr = (\<lambda>_. Some (V4 3, 1))\<rparr>"

definition sample_assoc :: "assoc_event list" where
  "sample_assoc = [AtRelay (Inr ([5], (V4 1, 2))), AtRelay (Inr ([6], (V4 1, 3))), AtSession (Inr ([8], ''x'')) None]"

lemma fresh_connects:
  "\<exists>cl info. connect (sample_env None 233) (config_new a au t) = Ret (Inr (cl, info), None)"
proof -
  let ?c = "config_new a au t"
  let ?f = "canonical_server (filled_config ?c)"
  have "config_ok (filled_config ?c)"
    by (simp add: config_ok_def quic_ok_def filled_config_def filled_quic_def config_new_def
        quic_config_default_def config_consts or_default_def)
  then have v: "verify_and_fill ?c = Inr (filled_config ?c)" using verify_and_fill_iff by blast
  have "\<exists>tc. build_quic_client_config (ce_tls (sample_env None 233)) (\<lambda>_. None) ?f = Inr tc"
    by (simp add: build_quic_client_config_def quic_crypto_def build_rustls_client_config_def tls_err_def sample_env_def
        to_varint_def canonical_server_def filled_config_def filled_quic_def config_new_def quic_config_default_def
        config_consts or_default_def split: option.splits)
  then obtain tc where tc: "build_quic_client_config (ce_tls (sample_env None 233)) (\<lambda>_. None) ?f = Inr tc" ..
  have "\<exists>ep. build_endpoint rng (ce_bind (sample_env None 233)) b ?f = Ret (Inr ep)" for rng b
    by (simp add: build_endpoint_def sample_env_def check_err_def canonical_server_def
        hop_addrs_def filled_config_def config_new_def)
  then obtain ep where ep: "build_endpoint (\<lambda>k n. 0) (ce_bind (sample_env None 233)) (bind_addr (server_addr ?f)) ?f
    = Ret (Inr ep)" by blast
  have "connect (sample_env None 233) ?c = Ret (establish (sample_env None 233) ?f tc ep)"
    using tc ep by (simp add: connect_def v Let_def sample_env_def)
  then show ?thesis
    by (auto simp: establish_def sample_env_def authenticate_def h3_check_def Let_def STATUS_AUTH_OK_def
        auth_response_from_header_def header_map_get_def sample_ops_def split: prod.splits)
qed

section \<open>Properties\<close>

text \<open>
  C26. The UDP relay of a SOCKS5 association serves one client: the first that sends to it. What goes
  into the tunnel are that client's unfragmented requests, all of them in order until the
  association ends; everything sent to a SOCKS5 client goes to that one and is a datagram of the
  session behind the header of its sender; before the first request nothing is sent at all, and
  nothing unless the client was told the relay's address.
\<close>

theorem socks_udp_pinned:
  assumes "handle_udp_associate cd out show_err bound relay_addr evs cl = (replied, outs, r, cl')"
  shows "(case first_sender evs of
      None \<Rightarrow> outs = []
    | Some p \<Rightarrow>
        (\<exists>rest. requested cd p evs = relayed outs @ rest \<and> (r = None \<longrightarrow> rest = [])) \<and>
        set (filter is_answer outs) \<subseteq> framed cd p evs) \<and>
    (outs \<noteq> [] \<longrightarrow> (\<exists>a. relay_addr = Inr a \<and> replied = [ReplySuccess a]))"
proof (cases "\<exists>a k. checked_call ''bind UDP relay'' bound = Inr () \<and> relay_addr = Inr a \<and> client_udp cl = (Inr k, cl') \<and>
    out (ReplySuccess a) = None")
  case True
  then have "assoc_loop cd evs None = (outs, r)" "\<exists>a. relay_addr = Inr a \<and> replied = [ReplySuccess a]"
    using assms by (auto simp: handle_udp_associate_def reply_with_def split: prod.splits)
  with assoc_unpinned [of cd evs outs r] show ?thesis by blast
next
  case False
  then have "outs = [] \<and> r \<noteq> None"
    using assms by (auto simp: handle_udp_associate_def reply_with_def Let_def
        split: sum.splits prod.splits option.splits)
  then show ?thesis by (auto split: option.splits)
qed

theorem socks_udp_pinned_witness:
  "\<exists>replied outs r cl'. handle_udp_associate sample_socks (\<lambda>_. None) (\<lambda>_. ''e'') None (Inr (V4 1, 7)) sample_assoc sample_client =
       (replied, outs, r, cl') \<and> first_sender sample_assoc = Some (V4 1, 2) \<and>
     relayed outs = requested sample_socks (V4 1, 2) sample_assoc \<and> relayed outs = [([5], ''h:1'')]"
proof -
  obtain replied outs r cl' where h: "handle_udp_associate sample_socks (\<lambda>_. None) (\<lambda>_. ''e'') None (Inr (V4 1, 7))
      sample_assoc sample_client = (replied, outs, r, cl')"
    by (metis prod_cases4)
  have first: "first_sender sample_assoc = Some (V4 1, 2)" by (simp add: sample_assoc_def)
  have run: "r = None" "requested sample_socks (V4 1, 2) sample_assoc = [([5], ''h:1'')]"
    using h by (auto simp: sample_assoc_def sample_socks_def sample_client_def handle_udp_associate_def
        checked_call_def client_udp_def reply_with_def at_relay_def at_session_def new_udp_def manager_new_def Let_def
        split: prod.splits if_splits)
  from socks_udp_pinned [OF h] first run have "relayed outs = [([5], ''h:1'')]" by auto
  with h first run show ?thesis by auto
qed

text \<open>
  C23. A SOCKS5 front end that comes up trusts what its command line says: its client has connected to
  the address the link resolves to, with the certificate of the given file as the only
  root when there is one and the platform's trust store otherwise, in the link's fast-open mode,
  and it listens on the given address.
\<close>

theorem socks_run_trust:
  assumes "socks_run u resolve read_file from_pem env bound local_addr cli = Ret (Inr (listen, cl))"
  shows "listen = socks5 cli \<and>
    (\<exists>p c. parse_uri u (cli_url cli) = Some p \<and> from_profile resolve p = Inr c \<and> cl_fast_open cl = fast_open p \<and>
      (case cli_ca cli of
         None \<Rightarrow> rustls_trust (quic_tls (cl_transport cl)) = TrustPlatform
       | Some path \<Rightarrow> \<exists>pem cert. read_file path = Inr pem \<and> from_pem pem = Inr cert \<and>
           rustls_trust (quic_tls (cl_transport cl)) = TrustCa cert))"
proof -
  obtain l c where lc: "into_parts u resolve read_file from_pem cli = Inr (l, c)"
    using assms by (auto simp: socks_run_def split: sum.splits)
  then have parts: "into_parts u resolve read_file from_pem cli = Inr (listen, c)"
    and "\<exists>info. client_connect env c = Ret (Inr (cl, info))"
    using assms by (cases "client_connect env c"; auto simp: socks_run_def and_then_eq_Inr)+
  then obtain info closed where conn: "connect env c = Ret (Inr (cl, info), closed)"
    by (auto simp: client_connect_Inr)
  obtain p c0 where p: "listen = socks5 cli" "parse_uri u (cli_url cli) = Some p" "from_profile resolve p = Inr c0"
    "case cli_ca cli of
       None \<Rightarrow> c = c0
     | Some path \<Rightarrow> \<exists>pem cert. read_file path = Inr pem \<and> from_pem pem = Inr cert \<and>
         c = c0\<lparr>config_tls := (config_tls c0)\<lparr>ca := Some cert\<rparr>\<rparr>"
    using into_parts_Inr [OF parts] .
  show ?thesis using p connect_keeps [OF conn] from_profile_keeps [OF p(3)]
    by (auto split: option.splits)
qed

theorem socks_run_trust_witness:
  "\<exists>cl. socks_run sample_codec (\<lambda>h p. Inr [(V4 1, p)]) (\<lambda>_. Inr [1]) (\<lambda>_. Inr [2]) (sample_env None 233) (\<lambda>_. None) None
       \<lparr>socks5 = (V4 7, 1080), cli_url = ''hy2://h:1'', cli_ca = Some ''ca.pem''\<rparr> = Ret (Inr ((V4 7, 1080), cl)) \<and>
     rustls_trust (quic_tls (cl_transport cl)) = TrustCa [2]"
proof -
  let ?cli = "\<lparr>socks5 = (V4 7, 1080), cli_url = ''hy2://h:1'', cli_ca = Some ''ca.pem''\<rparr>"
  let ?t = "\<lparr>server_name = ''h'', ca = Some [2]\<rparr>"
  have parsed: "parse_uri sample_codec ''hy2://h:1'' = Some (profile_default\<lparr>server := ''h:1''\<rparr>)" by code_simp
  have hp: "split_host_port ''h:1'' = (''h'', ''1'')"
    by (simp add: split_host_port_def rsplit_once_def split_once_def)
  have pp: "primary_port ''1'' = Inr 1"
    by (simp add: primary_port_def parse_u16_def parse_uint_def digit_val_def of_char_def)
  have "build_config sample_codec (\<lambda>h p. Inr [(V4 1, p)]) ''hy2://h:1'' =
      Inr (config_new (V4 1, 1) [] \<lparr>server_name = ''h'', ca = None\<rparr>)"
    by (simp add: build_config_def ok_or_else_def parsed from_profile_def hp pp profile_default_def config_new_def)
  then have "into_parts sample_codec (\<lambda>h p. Inr [(V4 1, p)]) (\<lambda>_. Inr [1]) (\<lambda>_. Inr [2]) ?cli =
      Inr ((V4 7, 1080), config_new (V4 1, 1) [] ?t)"
    by (simp add: into_parts_def config_new_def)
  moreover obtain cl info where "connect (sample_env None 233) (config_new (V4 1, 1) [] ?t) = Ret (Inr (cl, info), None)"
    using fresh_connects by blast
  ultimately have run: "socks_run sample_codec (\<lambda>h p. Inr [(V4 1, p)]) (\<lambda>_. Inr [1]) (\<lambda>_. Inr [2]) (sample_env None 233)
      (\<lambda>_. None) None ?cli = Ret (Inr ((V4 7, 1080), cl))"
    by (simp add: socks_run_def client_connect_def checked_call_def)
  from socks_run_trust [OF this] run show ?thesis by auto
qed

end
