(* ===== verification/Relay.thy ===== *)
theory Relay
  imports Tunnel
begin

text \<open>
  One TCP flow through the dataplane: the counting wrapper around a tunnel (\<^verbatim>\<open>crates/dataplane/src/count.rs\<close>), and
  \<^verbatim>\<open>relay_tcp\<close> (\<^verbatim>\<open>crates/dataplane/src/lib.rs\<close>). \<^verbatim>\<open>tokio::io::copy_bidirectional\<close> is any schedule of the
  reads and writes it is documented to do: what was read from one side is written to the other, in
  order.
\<close>

section \<open>Counting\<close>

text \<open>\<^verbatim>\<open>Counting\<close> forwards to the stream and adds what moved to the shared counters.\<close>

record counting =
  ct_inner :: tcp_tunnel
  ct_stats :: dp_stats

definition counting_new :: "tcp_tunnel \<Rightarrow> dp_stats \<Rightarrow> counting" where
  "counting_new t k = \<lparr>ct_inner = t, ct_stats = k\<rparr>"

definition counting_poll_read :: "nat \<Rightarrow> counting \<Rightarrow> (counting \<times> read_poll) exec" where
  "counting_poll_read n c =
     exec_bind (tcp_poll_read n (ct_inner c)) (\<lambda>(t, r).
     Ret (\<lparr>ct_inner = t, ct_stats = counting_read r (ct_stats c)\<rparr>, r))"

definition counting_poll_write :: "write_poll \<Rightarrow> bytes \<Rightarrow> counting \<Rightarrow> counting \<times> write_poll" where
  "counting_poll_write w buf c =
     (let (t, r) = tcp_poll_write w buf (ct_inner c)
      in (\<lparr>ct_inner = t, ct_stats = counting_write r (ct_stats c)\<rparr>, r))"

definition counting_poll_shutdown :: "counting \<Rightarrow> counting" where
  "counting_poll_shutdown c = c\<lparr>ct_inner := tcp_poll_shutdown (ct_inner c)\<rparr>"

section \<open>The relay\<close>

datatype relay_error = RelayRead tcp_error | RelayWrite string

text \<open>
  The state of a relay: the tunnel, what was read from the app and not yet written to the tunnel,
  what was read from the tunnel and not yet written to the app, what the app was given, and the
  first error.
\<close>

record relay =
  rl_tunnel :: counting
  rl_up :: bytes
  rl_down :: bytes
  rl_app :: bytes
  rl_error :: "relay_error option"

definition relay_start :: "counting \<Rightarrow> relay" where
  "relay_start t = \<lparr>rl_tunnel = t, rl_up = [], rl_down = [], rl_app = [], rl_error = None\<rparr>"

text \<open>
  The moves of \<^verbatim>\<open>copy_bidirectional\<close>: a read of the app, a write to the tunnel with what it answers, a
  read of the tunnel into \<open>n\<close> bytes, a write to the app that takes \<open>n\<close> bytes, and shutting the
  tunnel down once the app has ended and nothing is left to write.
\<close>

datatype relay_event =
    AppGives bytes
  | TunnelTakes write_poll
  | TunnelGives nat
  | AppTakes nat
  | AppEnds

fun relay_step :: "relay_event \<Rightarrow> relay \<Rightarrow> relay exec" where
  "relay_step (AppGives b) s = Ret (s\<lparr>rl_up := rl_up s @ b\<rparr>)"
| "relay_step (TunnelTakes w) s =
     (let (t, r) = counting_poll_write w (rl_up s) (rl_tunnel s)
      in case r of
           Wrote n \<Rightarrow> Ret (s\<lparr>rl_tunnel := t, rl_up := drop n (rl_up s)\<rparr>)
         | WritePending \<Rightarrow> Ret (s\<lparr>rl_tunnel := t\<rparr>)
         | WriteFailed e \<Rightarrow> Ret (s\<lparr>rl_tunnel := t, rl_error := Some (RelayWrite e)\<rparr>))"
| "relay_step (TunnelGives n) s =
     exec_bind (counting_poll_read n (rl_tunnel s)) (\<lambda>(t, r).
     case r of
       ReadBytes b \<Rightarrow> Ret (s\<lparr>rl_tunnel := t, rl_down := rl_down s @ b\<rparr>)
     | ReadPending \<Rightarrow> Ret (s\<lparr>rl_tunnel := t\<rparr>)
     | ReadFailed e \<Rightarrow> Ret (s\<lparr>rl_tunnel := t, rl_error := Some (RelayRead e)\<rparr>))"
| "relay_step (AppTakes n) s =
     Ret (s\<lparr>rl_app := rl_app s @ take n (rl_down s), rl_down := drop n (rl_down s)\<rparr>)"
| "relay_step AppEnds s =
     Ret (if rl_up s = [] then s\<lparr>rl_tunnel := counting_poll_shutdown (rl_tunnel s)\<rparr> else s)"

text \<open>An error ends the copying.\<close>

fun relay_run :: "relay_event list \<Rightarrow> relay \<Rightarrow> relay exec" where
  "relay_run [] s = Ret s"
| "relay_run (e # es) s = (if rl_error s \<noteq> None then Ret s else exec_bind (relay_step e s) (relay_run es))"

text \<open>
  \<^verbatim>\<open>relay_tcp\<close>: opening the tunnel to the flow's destination, then copying. \<^verbatim>\<open>None\<close> is a dial that still
  waits. The counters are returned, since they are shared.
\<close>

record relay_env =
  re_opened :: "string option"
  re_wrote :: "bytes \<Rightarrow> string option"
  re_rng :: rng
  re_answers :: "read_event list"
  re_copying :: "relay_event list"
  re_show_open :: "tcp_open_error \<Rightarrow> string"
  re_show_copy :: "relay_error \<Rightarrow> string"

definition relay_tcp ::
  "(socket_addr \<Rightarrow> string) \<Rightarrow> relay_env \<Rightarrow> bool \<Rightarrow> socket_addr \<Rightarrow> dp_stats \<Rightarrow>
   ((anyhow + relay) option \<times> dp_stats) exec" where
  "relay_tcp show_addr env fast dst k =
     exec_bind (client_tcp_open (re_opened env) (re_wrote env) (re_rng env) fast (show_addr dst) (re_answers env)) (\<lambda>r.
     case r of
       None \<Rightarrow> Ret (None, k)
     | Some (Inl e) \<Rightarrow> Ret (Some (Inl [''open tunnel'', re_show_open env e]), k)
     | Some (Inr t) \<Rightarrow>
         exec_bind (relay_run (re_copying env) (relay_start (counting_new t k))) (\<lambda>s.
         Ret (Some (case rl_error s of
                      Some e \<Rightarrow> Inl [''relay TCP'', re_show_copy env e]
                    | None \<Rightarrow> Inr s),
              ct_stats (rl_tunnel s))))"

section \<open>What a relay moves\<close>

text \<open>A connection whose reads yield the bytes after the response, opened either way.\<close>

definition readable :: "tcp_conn \<Rightarrow> bool" where
  "readable c \<longleftrightarrow> is_ready c \<or>
     (\<exists>evs msg l evs'. c = \<lparr>tcp_recv = AwaitingResponse [], tcp_stream = evs\<rparr> \<and>
        response_loop [] evs = RespDone (True, msg) l evs' \<and> no_empty_chunk evs')"

lemma poll_read_readable:
  assumes "readable c"
  obtains c' r where "poll_read n c = Ret (c', r)" "readable c'" "read_data r @ conn_bytes c' = conn_bytes c"
proof (cases "is_ready c")
  case True
  from poll_read_ready [OF this, of n] that show thesis unfolding readable_def by metis
next
  case False
  with assms obtain evs msg l evs' where c: "c = \<lparr>tcp_recv = AwaitingResponse [], tcp_stream = evs\<rparr>"
    "response_loop [] evs = RespDone (True, msg) l evs'" "no_empty_chunk evs'"
    unfolding readable_def by blast
  let ?ready = "\<lparr>tcp_recv = ReadyState l 0, tcp_stream = evs'\<rparr>"
  have "is_ready ?ready" "conn_bytes c = conn_bytes ?ready" "poll_read n c = poll_read n ?ready"
    using c by (simp_all add: is_ready_def conn_bytes_def poll_read_def)
  with poll_read_ready [of ?ready n] that show thesis unfolding readable_def by metis
qed

lemma opened_readable:
  assumes "rng_ok rng" "length a < 2 ^ 62" "tcp_response_ok (0, msg, padding)" "no_empty_chunk evs"
    and "stream_bytes evs = tcp_response_wire (0, msg, padding) @ rest"
  obtains request conn where "write_tcp_request rng a = Ret request"
    "client_tcp rng fast a evs = Ret (request, Some (Inr conn))" "readable conn" "conn_bytes conn = rest"
proof -
  obtain request where request: "write_tcp_request rng a = Ret request"
    using write_request_total [OF assms(1,2)] by blast
  obtain l evs' where loop: "response_loop [] evs = RespDone (True, msg) l evs'"
    and l: "l @ stream_bytes evs' = rest" and ne: "no_empty_chunk evs'"
    using response_loop_reads [OF assms(3), of "[]" evs rest] assms(4,5) by auto
  show thesis
  proof (cases fast)
    case True
    let ?c = "\<lparr>tcp_recv = AwaitingResponse [], tcp_stream = evs\<rparr>"
    have "readable ?c" "conn_bytes ?c = rest" using loop l ne by (auto simp: readable_def conn_bytes_def)
    then show thesis using that [of request ?c] request True by (simp add: client_tcp_def)
  next
    case False
    let ?c = "\<lparr>tcp_recv = ReadyState l 0, tcp_stream = evs'\<rparr>"
    have "readable ?c" "conn_bytes ?c = rest" using l ne by (simp_all add: readable_def is_ready_def conn_bytes_def)
    then show thesis using that [of request ?c] request loop False by (simp add: client_tcp_def)
  qed
qed

text \<open>
  The state of a relay, given what the app has sent and what the tunnel has to deliver: nothing is
  lost, repeated or reordered on the way, and the counters count what crossed the tunnel.
\<close>

definition relay_inv :: "bytes \<Rightarrow> bytes \<Rightarrow> bytes \<Rightarrow> dp_stats \<Rightarrow> relay \<Rightarrow> bool" where
  "relay_inv request given rest k s \<longleftrightarrow>
     (let t = ct_inner (rl_tunnel s); k' = ct_stats (rl_tunnel s) in
      readable (tt_conn t) \<and>
      (\<exists>u. tt_sent t = request @ u \<and> u @ rl_up s = given \<and> stats_tx k' = stats_tx k + of_nat (length u)) \<and>
      rl_app s @ rl_down s @ conn_bytes (tt_conn t) = rest \<and>
      stats_rx k' = stats_rx k + of_nat (length (rl_app s @ rl_down s)))"

fun given_by :: "relay_event \<Rightarrow> bytes" where
  "given_by (AppGives b) = b"
| "given_by _ = []"

lemma len_u64_small: "n < 2 ^ 64 \<Longrightarrow> len_u64 n = of_nat n"
  by (simp add: len_u64_def)

lemma relay_step_inv:
  assumes inv: "relay_inv request given rest k s" and small: "length given < 2 ^ 64" "length rest < 2 ^ 64"
  obtains s' where "relay_step e s = Ret s'" "relay_inv request (given @ given_by e) rest k s'"
proof (cases e)
  case (TunnelTakes w)
  show thesis
  proof (cases w)
    case (Wrote n)
    have "min n (length (rl_up s)) < 2 ^ 64"
      using inv small(1) by (auto simp: relay_inv_def Let_def)
    with inv that show thesis
      by (auto simp: TunnelTakes Wrote relay_inv_def counting_poll_write_def tcp_poll_write_def counting_write_def
          Let_def len_u64_small min_def)
  qed (use inv that in \<open>auto simp: TunnelTakes relay_inv_def counting_poll_write_def tcp_poll_write_def counting_write_def Let_def\<close>)
next
  case (TunnelGives n)
  let ?t = "ct_inner (rl_tunnel s)"
  have "readable (tt_conn ?t)" using inv by (simp add: relay_inv_def Let_def)
  then obtain c r where r: "poll_read n (tt_conn ?t) = Ret (c, r)" "readable c"
    "read_data r @ conn_bytes c = conn_bytes (tt_conn ?t)"
    by (rule poll_read_readable)
  have rest: "rl_app s @ rl_down s @ read_data r @ conn_bytes c = rest"
    using inv r(3) by (simp add: relay_inv_def Let_def)
  then have "length (read_data r) < 2 ^ 64" using small(2) by (auto simp flip: rest)
  with inv r rest that show thesis
    by (cases r) (auto simp: TunnelGives relay_inv_def counting_poll_read_def tcp_poll_read_def counting_read_def
        Let_def len_u64_small)
next
  case (AppTakes n)
  with inv that show thesis by (auto simp: relay_inv_def Let_def simp del: length_append)
qed (use inv that in \<open>auto simp: relay_inv_def Let_def counting_poll_shutdown_def tcp_poll_shutdown_def\<close>)

lemma relay_run_inv:
  assumes "relay_inv request given rest k s" "length rest < 2 ^ 64"
    and "length (given @ concat (map given_by es)) < 2 ^ 64"
  shows "\<exists>s' given' v. relay_run es s = Ret s' \<and> relay_inv request given' rest k s' \<and>
    given' @ v = given @ concat (map given_by es) \<and> (rl_error s' = None \<longrightarrow> v = [])"
  using assms(1,3)
proof (induction es arbitrary: s given)
  case (Cons e es)
  show ?case
  proof (cases "rl_error s = None")
    case True
    have "length given < 2 ^ 64" using Cons(3) by simp
    then obtain s1 where s1: "relay_step e s = Ret s1" "relay_inv request (given @ given_by e) rest k s1"
      using relay_step_inv [OF Cons(2) _ assms(2)] by metis
    from Cons(1) [OF this(2)] Cons(3) True s1(1) show ?thesis by simp
  qed (use Cons(2) in auto)
qed auto

text \<open>A concrete flow, for the witness.\<close>

definition sample_relay :: relay_env where
  "sample_relay =
     \<lparr>re_opened = None, re_wrote = (\<lambda>_. None), re_rng = (\<lambda>k n. 0),
      re_answers = [Chunk [0, 0], Chunk [1, 7, 5], Chunk [6], Finished],
      re_copying = [AppGives [8, 9], TunnelTakes (Wrote 1), TunnelGives 9, AppTakes 1],
      re_show_open = (\<lambda>_. ''o''), re_show_copy = (\<lambda>_. ''c'')\<rparr>"

section \<open>Properties\<close>

text \<open>
  C5. A relayed flow is transparent in both directions: whatever the schedule of reads and writes, with
  or without fast open, the server gets the request for the flow's destination followed by exactly
  the app's bytes in order, as far as they were written, and the app exactly the bytes after the
  response; nothing is lost, repeated or reordered, and the shared counters grow by exactly what
  crossed the tunnel, also when the copying fails. Nothing panics.
\<close>

theorem relay_tcp_faithful:
  assumes "re_opened env = None" "re_wrote env = (\<lambda>_. None)" "rng_ok (re_rng env)" "length (show_addr dst) < 2 ^ 62"
    and "tcp_response_ok (0, msg, padding)" "no_empty_chunk (re_answers env)"
    and "stream_bytes (re_answers env) = tcp_response_wire (0, msg, padding) @ rest" "length rest < 2 ^ 64"
    and "length (concat (map given_by (re_copying env))) < 2 ^ 64"
  shows "\<exists>request s u v w. write_tcp_request (re_rng env) (show_addr dst) = Ret request \<and>
    relay_tcp show_addr env fast dst k =
      Ret (Some (case rl_error s of Some e \<Rightarrow> Inl [''relay TCP'', re_show_copy env e] | None \<Rightarrow> Inr s),
           ct_stats (rl_tunnel s)) \<and>
    tt_sent (ct_inner (rl_tunnel s)) = request @ u \<and>
    u @ rl_up s @ v = concat (map given_by (re_copying env)) \<and> (rl_error s = None \<longrightarrow> v = []) \<and>
    rl_app s @ rl_down s @ w = rest \<and>
    stats_tx (ct_stats (rl_tunnel s)) = stats_tx k + of_nat (length u) \<and>
    stats_rx (ct_stats (rl_tunnel s)) = stats_rx k + of_nat (length (rl_app s @ rl_down s))"
proof -
  obtain request conn where c: "write_tcp_request (re_rng env) (show_addr dst) = Ret request"
    "client_tcp (re_rng env) fast (show_addr dst) (re_answers env) = Ret (request, Some (Inr conn))"
    "readable conn" "conn_bytes conn = rest"
    by (rule opened_readable [OF assms(3-7)])
  let ?t = "\<lparr>tt_conn = conn, tt_sent = request, tt_finished = False\<rparr>"
  let ?s = "relay_start (counting_new ?t k)"
  have "relay_inv request [] rest k ?s"
    using c(3,4) by (simp add: relay_inv_def relay_start_def counting_new_def)
  from relay_run_inv [OF this assms(8), of "re_copying env"] assms(9)
  obtain s given v where s: "relay_run (re_copying env) ?s = Ret s" "relay_inv request given rest k s"
    "given @ v = concat (map given_by (re_copying env))" "rl_error s = None \<longrightarrow> v = []"
    by auto
  have "client_tcp_open (re_opened env) (re_wrote env) (re_rng env) fast (show_addr dst) (re_answers env) = Ret (Some (Inr ?t))"
    by (simp add: client_tcp_open_def assms(1,2) c(2))
  with s(1) have "relay_tcp show_addr env fast dst k =
      Ret (Some (case rl_error s of Some e \<Rightarrow> Inl [''relay TCP'', re_show_copy env e] | None \<Rightarrow> Inr s),
           ct_stats (rl_tunnel s))"
    by (simp add: relay_tcp_def)
  with c(1) s(2-4) show ?thesis unfolding relay_inv_def Let_def by (metis append_assoc)
qed

theorem relay_tcp_faithful_witness:
  "\<exists>s u v w. relay_tcp (\<lambda>_. ''h:80'') sample_relay True (V4 1, 80) counters_new =
      Ret (Some (case rl_error s of Some e \<Rightarrow> Inl [''relay TCP'', re_show_copy sample_relay e] | None \<Rightarrow> Inr s),
           ct_stats (rl_tunnel s)) \<and>
     u @ rl_up s @ v = concat (map given_by (re_copying sample_relay)) \<and> rl_app s @ rl_down s @ w = [5, 6] \<and>
     stats_tx (ct_stats (rl_tunnel s)) = stats_tx counters_new + of_nat (length u)"
proof -
  have z: "varint_wire 0 = [0]" "varint_wire 1 = [1]" by code_simp+
  have wire: "stream_bytes (re_answers sample_relay) = tcp_response_wire (0, [], [7]) @ [5, 6]"
    by (simp add: z as_bytes_def sample_relay_def)
  have ok: "tcp_response_ok (0, [], [7])"
    by (simp add: MAX_PADDING_LENGTH_def is_str_def as_bytes_def)
  have env: "re_opened sample_relay = None" "re_wrote sample_relay = (\<lambda>_. None)" "rng_ok (re_rng sample_relay)"
    "no_empty_chunk (re_answers sample_relay)" "length [5, 6 :: u8] < 2 ^ 64"
    "length (concat (map given_by (re_copying sample_relay))) < 2 ^ 64"
    by (simp_all add: sample_relay_def rng_ok_def no_empty_chunk_def)
  have "length ''h:80'' < 2 ^ 62" by simp
  from relay_tcp_faithful [where show_addr = "\<lambda>_. ''h:80''" and dst = "(V4 1, 80)" and fast = True and k = counters_new,
      OF env(1-3) this ok env(4) wire env(5,6)]
  show ?thesis by blast
qed

end
