(* ===== verification/Upstream.thy ===== *)
theory Upstream
  imports Tunnel
begin

text \<open>
  The UDP path from end to end: the Hysteria client as the dataplane's upstream (the implementation
  of \<^verbatim>\<open>Upstream\<close> for \<^verbatim>\<open>UdpConn\<close>, \<^verbatim>\<open>crates/dataplane/src/session.rs\<close>), the reply tasks its NAT table
  spawns, and both put under the tunnel. The state of a run is the tunnel with its reply tasks; its
  events are those of the tunnel, of the client's background task and of the reply tasks, in any
  order.
\<close>

section \<open>The client as the upstream\<close>

text \<open>
  What the sessions share: the client with its session manager, each session's scratch buffer, and
  the datagrams handed to the connection, with the session that sent them. A panic in a send
  unwinds the loop's task; \<open>link_panicked\<close> records it.
\<close>

record link =
  link_client :: client
  link_bufs :: "nat \<Rightarrow> bytes"
  link_wire :: "(nat \<times> bytes) list"
  link_calls :: nat
  link_panicked :: bool

definition link_new :: "client \<Rightarrow> link" where
  "link_new cl = \<lparr>link_client = cl, link_bufs = (\<lambda>_. []), link_wire = [], link_calls = 0, link_panicked = False\<rparr>"

text \<open>The connection and the random numbers as each call to \<^verbatim>\<open>send\<close> finds them, and the build profile.\<close>

record link_env =
  le_checked :: bool
  le_quic :: "nat \<Rightarrow> bytes \<Rightarrow> datagram_result"
  le_max :: "nat \<Rightarrow> nat option"
  le_rng :: "nat \<Rightarrow> rng"

text \<open>\<^verbatim>\<open>client.udp().ok()\<close>, with the buffer \<^verbatim>\<open>new_udp\<close> allocates.\<close>

definition upstream_create :: "link \<Rightarrow> nat option \<times> link" where
  "upstream_create l =
     (case client_create (link_client l) of
        (None, cl) \<Rightarrow> (None, l\<lparr>link_client := cl\<rparr>)
      | (Some k, cl) \<Rightarrow>
          (Some k, l\<lparr>link_client := cl, link_bufs := (link_bufs l)(k := replicate MAX_UDP_SIZE 0)\<rparr>))"

definition upstream_send :: "link_env \<Rightarrow> nat \<Rightarrow> bytes \<Rightarrow> string \<Rightarrow> link \<Rightarrow> bool \<times> link" where
  "upstream_send env k d a l =
     (case cl_udp (link_client l) of
        None \<Rightarrow> (False, l)
      | Some s \<Rightarrow>
          let n = link_calls l in
          (case conn_send (le_checked env) (le_quic env n) (le_max env n) (le_rng env n)
                  (conn_id (conns s ! k)) (link_bufs l k) d a of
             Panic \<Rightarrow> (False, l\<lparr>link_panicked := True\<rparr>)
           | Ret (buf, ds, r) \<Rightarrow>
               (r = Inr (),
                l\<lparr>link_bufs := (link_bufs l)(k := buf), link_wire := link_wire l @ map (Pair k) ds,
                  link_calls := n + 1\<rparr>)))"

text \<open>\<^verbatim>\<open>receive\<close>: \<^term>\<open>None\<close> is a call that waits, \<^term>\<open>Some None\<close> a session that is closed.\<close>

definition upstream_receive :: "bool \<Rightarrow> nat \<Rightarrow> link \<Rightarrow> (link \<times> (bytes \<times> string) option option) exec" where
  "upstream_receive checked k l =
     (case cl_udp (link_client l) of
        None \<Rightarrow> Ret (l, Some None)
      | Some s \<Rightarrow>
          exec_bind (receive checked k s) (\<lambda>(s', r).
          Ret (l\<lparr>link_client := (link_client l)\<lparr>cl_udp := Some s'\<rparr>\<rparr>,
               (case r of Got d a \<Rightarrow> Some (Some (d, a)) | WouldBlock \<Rightarrow> None | Eof \<Rightarrow> Some None))))"

text \<open>A step of the session manager under the link: its background task, or a session that is dropped.\<close>

definition link_update :: "(sessions \<Rightarrow> sessions) \<Rightarrow> link \<Rightarrow> link" where
  "link_update f l = l\<lparr>link_client := (link_client l)\<lparr>cl_udp := map_option f (cl_udp (link_client l))\<rparr>\<rparr>"

section \<open>The reply tasks\<close>

text \<open>A reply task: the app it answers, and the reply it is waiting to hand over.\<close>

record reply_task =
  rt_src :: socket_addr
  rt_pending :: "(socket_addr \<times> bytes) option"

text \<open>
  The tunnel with its reply tasks, by session. \<open>ul_opened\<close> is the history of the sessions opened
  and the apps they were opened for.
\<close>

record uplink =
  ul_tunnel :: "(link, nat) tunnel"
  ul_tasks :: "nat \<Rightarrow> reply_task option"
  ul_opened :: "(nat \<times> socket_addr) list"

definition uplink_new :: "(link, nat) tunnel \<Rightarrow> uplink" where
  "uplink_new t = \<lparr>ul_tunnel = t, ul_tasks = Map.empty, ul_opened = []\<rparr>"

definition ul_link :: "uplink \<Rightarrow> link" where
  "ul_link u = dp_client (tn_loop (ul_tunnel u))"

definition ul_set_link :: "link \<Rightarrow> uplink \<Rightarrow> uplink" where
  "ul_set_link l u = u\<lparr>ul_tunnel := (ul_tunnel u)\<lparr>tn_loop := (tn_loop (ul_tunnel u))\<lparr>dp_client := l\<rparr>\<rparr>\<rparr>"

definition ul_nat :: "uplink \<Rightarrow> (socket_addr \<times> nat nat_entry) list" where
  "ul_nat u = nat_map (dp_sessions (tn_loop (ul_tunnel u)))"

text \<open>
  The events: a step of the tunnel (where deliveries are those of the reply tasks), a datagram or an
  error from the connection, a reply task's call to \<^verbatim>\<open>receive\<close>, its delivery, and its end after it
  was aborted or saw the shutdown signal.
\<close>

datatype uplink_event =
    UlTunnel tunnel_event
  | UlServer "string + bytes"
  | UlReceive nat
  | UlDeliver nat
  | UlTaskEnds nat

text \<open>The sessions opened by a step, whose reply tasks it spawns.\<close>

definition fresh_sessions :: "(socket_addr \<times> nat nat_entry) list \<Rightarrow> (socket_addr \<times> nat nat_entry) list \<Rightarrow>
  (nat \<times> socket_addr) list" where
  "fresh_sessions old new =
     map (\<lambda>(src, e). (entry_conn e, src)) (filter (\<lambda>(src, e). src \<notin> set (map fst old)) new)"

fun spawn_tasks :: "(nat \<times> socket_addr) list \<Rightarrow> (nat \<Rightarrow> reply_task option) \<Rightarrow> nat \<Rightarrow> reply_task option" where
  "spawn_tasks [] ts = ts"
| "spawn_tasks ((k, src) # xs) ts = spawn_tasks xs (ts(k \<mapsto> \<lparr>rt_src = src, rt_pending = None\<rparr>))"

definition ul_tunnel_step :: "link_env \<Rightarrow> (socket_addr \<Rightarrow> string) \<Rightarrow> tunnel_event \<Rightarrow> uplink \<Rightarrow> uplink" where
  "ul_tunnel_step env show_addr e u =
     (let t = tunnel_step upstream_create (upstream_send env) show_addr e (ul_tunnel u);
          new = fresh_sessions (ul_nat u) (nat_map (dp_sessions (tn_loop t)))
      in u\<lparr>ul_tunnel := t, ul_tasks := spawn_tasks new (ul_tasks u), ul_opened := ul_opened u @ new\<rparr>)"

definition ul_receive :: "bool \<Rightarrow> (string \<Rightarrow> socket_addr option) \<Rightarrow> nat \<Rightarrow> uplink \<Rightarrow> uplink" where
  "ul_receive checked parse_addr k u =
     (case ul_tasks u k of
        None \<Rightarrow> u
      | Some r \<Rightarrow>
          if rt_pending r \<noteq> None then u
          else
            (case upstream_receive checked k (ul_link u) of
               Panic \<Rightarrow> u\<lparr>ul_tasks := (ul_tasks u)(k := None)\<rparr>
             | Ret (l, None) \<Rightarrow> ul_set_link l u
             | Ret (l, Some None) \<Rightarrow> (ul_set_link l u)\<lparr>ul_tasks := (ul_tasks u)(k := None)\<rparr>
             | Ret (l, Some (Some (d, peer))) \<Rightarrow>
                 (case parse_addr peer of
                    None \<Rightarrow> ul_set_link l u
                  | Some a \<Rightarrow>
                      (ul_set_link l u)\<lparr>ul_tasks := (ul_tasks u)(k \<mapsto> r\<lparr>rt_pending := Some (a, d)\<rparr>)\<rparr>)))"

definition ul_deliver :: "link_env \<Rightarrow> (socket_addr \<Rightarrow> string) \<Rightarrow> nat \<Rightarrow> uplink \<Rightarrow> uplink" where
  "ul_deliver env show_addr k u =
     (case ul_tasks u k of
        None \<Rightarrow> u
      | Some r \<Rightarrow>
          (case rt_pending r of
             None \<Rightarrow> u
           | Some (a, d) \<Rightarrow>
               let x = (rt_src r, a, d);
                   t = tunnel_step upstream_create (upstream_send env) show_addr (Deliver x) (ul_tunnel u)
               in (case fst (udp_send (deliver_reply x) (tn_writer (ul_tunnel u))) of
                     None \<Rightarrow> u
                   | Some True \<Rightarrow>
                       u\<lparr>ul_tunnel := t, ul_tasks := (ul_tasks u)(k \<mapsto> r\<lparr>rt_pending := None\<rparr>)\<rparr>
                   | Some False \<Rightarrow> u\<lparr>ul_tunnel := t, ul_tasks := (ul_tasks u)(k := None)\<rparr>)))"

text \<open>A session is held by its table entry and by its reply task; the last to go drops it.\<close>

definition held :: "uplink \<Rightarrow> nat \<Rightarrow> bool" where
  "held u k \<longleftrightarrow> ul_tasks u k \<noteq> None \<or> k \<in> set (map (\<lambda>(src, e). entry_conn e) (ul_nat u))"

definition session_total :: "link \<Rightarrow> nat" where
  "session_total l = (case cl_udp (link_client l) of None \<Rightarrow> 0 | Some s \<Rightarrow> length (conns s))"

definition release :: "uplink \<Rightarrow> uplink \<Rightarrow> uplink" where
  "release u u' =
     fold (\<lambda>k v. ul_set_link (link_update (drop_conn k) (ul_link v)) v)
       (filter (\<lambda>k. held u k \<and> \<not> held u' k) [0..<session_total (ul_link u)]) u'"

definition uplink_act :: "link_env \<Rightarrow> (string \<Rightarrow> socket_addr option) \<Rightarrow> (socket_addr \<Rightarrow> string) \<Rightarrow>
  uplink_event \<Rightarrow> uplink \<Rightarrow> uplink" where
  "uplink_act env parse_addr show_addr e u =
     (case e of
        UlTunnel (Deliver x) \<Rightarrow> u
      | UlTunnel te \<Rightarrow> ul_tunnel_step env show_addr te u
      | UlServer d \<Rightarrow> ul_set_link (link_update (\<lambda>s. if sess_closed s then s else run_pump [d] s) (ul_link u)) u
      | UlReceive k \<Rightarrow> ul_receive (le_checked env) parse_addr k u
      | UlDeliver k \<Rightarrow> ul_deliver env show_addr k u
      | UlTaskEnds k \<Rightarrow>
          if tn_shutdown (ul_tunnel u) \<or> k \<notin> set (map (\<lambda>(src, e). entry_conn e) (ul_nat u))
          then u\<lparr>ul_tasks := (ul_tasks u)(k := None)\<rparr> else u)"

definition uplink_step :: "link_env \<Rightarrow> (string \<Rightarrow> socket_addr option) \<Rightarrow> (socket_addr \<Rightarrow> string) \<Rightarrow>
  uplink_event \<Rightarrow> uplink \<Rightarrow> uplink" where
  "uplink_step env parse_addr show_addr e u = release u (uplink_act env parse_addr show_addr e u)"

section \<open>What a session sends\<close>

text \<open>A piece of a datagram of the app: a message of its session to its destination.\<close>

definition piece_of :: "u32 \<Rightarrow> bytes \<Rightarrow> string \<Rightarrow> udp_message \<Rightarrow> bool" where
  "piece_of i d a f \<longleftrightarrow> session_id f = i \<and> addr f = a \<and> (\<exists>x y. d = x @ data f @ y)"

lemma frag_loop_pieces:
  assumes "frag_loop checked m mps fcount off fid fs = Ret fs'" "piece_of i d a m"
    and "\<forall>f\<in>set fs. piece_of i d a f"
  shows "\<forall>f\<in>set fs'. piece_of i d a f"
  using assms
proof (induction checked m mps fcount off fid fs rule: frag_loop.induct)
  case (1 checked m mps fcount off fid fs)
  let ?n = "min (length (data m) - off) mps"
  let ?f = "m\<lparr>frag_id := fid, frag_count := fcount, data := take ?n (drop off (data m))\<rparr>"
  obtain x y where "d = x @ data m @ y" using 1(3) by (auto simp: piece_of_def)
  then have "d = (x @ take off (data m)) @ data ?f @ drop ?n (drop off (data m)) @ y"
    by (simp del: drop_drop)
  then have "\<exists>x y. d = x @ data ?f @ y" by blast
  then have f: "piece_of i d a ?f" using 1(3) by (simp add: piece_of_def)
  show ?case
  proof (cases "off < length (data m) \<and> 0 < mps")
    case True
    with 1(2) obtain fid' where "frag_loop checked m mps fcount (off + ?n) fid' (fs @ [?f]) = Ret fs'"
      "add_u8 checked fid 1 = Ret fid'"
      by (auto simp: frag_loop.simps [of checked m mps fcount off fid fs] exec_bind_eq_Ret Let_def)
    with 1(1) [OF True refl refl this(1)] 1(3,4) f show ?thesis by simp
  next
    case False
    with 1(2,4) show ?thesis by (auto simp: frag_loop.simps [of checked m mps fcount off fid fs])
  qed
qed

lemma frag_udp_message_pieces:
  assumes "frag_udp_message checked m mx = Ret fs" "piece_of i d a m"
  shows "\<forall>f\<in>set fs. piece_of i d a f"
  using assms frag_loop_pieces [of checked m _ _ 0 0 "[]" fs i d a]
  by (auto simp: frag_udp_message_def Let_def split: if_splits)

lemma send_message_wire:
  assumes "send_message q mx buf m = Ret (buf', sent, r)" "length (addr m) < 2 ^ 62"
  shows "sent = None \<or> sent = Some (udp_wire m)"
  using assms(1) length_udp_wire [OF assms(2)]
  by (auto simp: send_message_def serialize_wire [OF assms(2)] split: if_splits datagram_result.splits option.splits)

lemma send_frags_wire:
  assumes "send_frags q mx buf fs = Ret (buf', ds, r)" "\<forall>f\<in>set fs. length (addr f) < 2 ^ 62"
  shows "set ds \<subseteq> udp_wire ` set fs"
  using assms
proof (induction fs arbitrary: buf ds)
  case (Cons f fs)
  from Cons.prems(1) obtain b1 sent r1 where s: "send_message q mx buf f = Ret (b1, sent, r1)"
    by (auto simp: exec_bind_eq_Ret)
  show ?case
  proof (cases r1)
    case (Inr x)
    with Cons.prems(1) s obtain ds' where "send_frags q mx b1 fs = Ret (buf', ds', r)"
      "ds = (case sent of Some d \<Rightarrow> d # ds' | None \<Rightarrow> ds')"
      by (auto simp: exec_bind_eq_Ret)
    with Cons.IH [of b1 ds'] Cons.prems(2) send_message_wire [OF s] show ?thesis by auto
  qed (use Cons.prems(1) s in auto)
qed simp

lemma conn_send_pieces:
  assumes "conn_send checked q mx rng i buf d a = Ret (buf', ds, r)" "length a < 2 ^ 62"
  shows "\<forall>w\<in>set ds. \<exists>f. w = udp_wire f \<and> piece_of i d a f"
proof -
  let ?m = "whole_message i d a"
  have m: "piece_of i d a ?m" "length (addr ?m) < 2 ^ 62"
    using assms(2) by (auto simp: piece_of_def whole_message_def intro: exI [of _ "[]"])
  obtain b1 sent r1 where s: "send_message q mx buf ?m = Ret (b1, sent, r1)"
    using assms(1) by (auto simp: conn_send_def Let_def exec_bind_eq_Ret)
  show ?thesis
  proof (cases "\<exists>n. r1 = Inl (TooLarge n)")
    case True
    then obtain n where n: "r1 = Inl (TooLarge n)" by blast
    let ?mp = "?m\<lparr>packet_id := random_packet_id rng\<rparr>"
    from assms(1) s n obtain fs where fs: "frag_udp_message checked ?mp n = Ret fs"
      "send_frags q mx b1 fs = Ret (buf', ds, r)"
      by (auto simp: conn_send_def Let_def exec_bind_eq_Ret)
    have "piece_of i d a ?mp" using m(1) by (simp add: piece_of_def)
    from frag_udp_message_pieces [OF fs(1) this] have p: "\<forall>f\<in>set fs. piece_of i d a f" .
    with send_frags_wire [OF fs(2)] assms(2) show ?thesis by (fastforce simp: piece_of_def)
  next
    case False
    with assms(1) s have "ds = (case sent of Some x \<Rightarrow> [x] | None \<Rightarrow> [])"
      by (auto simp: conn_send_def Let_def split: sum.splits send_error.splits)
    with send_message_wire [OF s m(2)] m(1) show ?thesis by auto
  qed
qed

section \<open>What a session receives\<close>

text \<open>The messages of one session id, and a manager whose sessions hold only messages of \<open>M\<close>.\<close>

definition own :: "udp_message set \<Rightarrow> u32 \<Rightarrow> udp_message set" where
  "own M i = {m \<in> M. session_id m = i}"

definition session_no :: "nat \<Rightarrow> u32" where
  "session_no k = of_nat (Suc k)"

definition conn_from :: "udp_message set \<Rightarrow> conn \<Rightarrow> bool" where
  "conn_from M c \<longleftrightarrow> set (queue c) \<subseteq> own M (conn_id c) \<and> defrag_inv (conn_defragger c) (own M (conn_id c))"

definition sess_from :: "udp_message set \<Rightarrow> sessions \<Rightarrow> bool" where
  "sess_from M s \<longleftrightarrow> udp_inv s \<and> next_id s = session_no (length (conns s)) \<and>
     (\<forall>k<length (conns s). conn_id (conns s ! k) = session_no k \<and> conn_from M (conns s ! k))"

lemma defrag_inv_mono: "defrag_inv d M \<Longrightarrow> M \<subseteq> N \<Longrightarrow> defrag_inv d N"
  by (auto simp: defrag_inv_def holds_only_def)

lemma own_mono: "M \<subseteq> N \<Longrightarrow> own M i \<subseteq> own N i"
  by (auto simp: own_def)

lemma assembled_from_mono: "assembled_from M x \<Longrightarrow> M \<subseteq> N \<Longrightarrow> assembled_from N x"
  unfolding assembled_from_def by blast

lemma sess_from_mono: "sess_from M s \<Longrightarrow> M \<subseteq> N \<Longrightarrow> sess_from N s"
  unfolding sess_from_def conn_from_def using own_mono defrag_inv_mono by (metis subset_trans)

lemma sess_from_new: "sess_from M manager_new"
  using udp_inv_new by (simp add: sess_from_def session_no_def) (simp add: manager_new_def)

lemma defrag_default_any: "defrag_inv defragger_default M"
  using slots_ok_default by (simp add: defrag_inv_def holds_only_def defragger_default_def)

lemma conn_from_simps [simp]:
  "conn_from M (c\<lparr>receiver_alive := b\<rparr>) = conn_from M c"
  "conn_from M \<lparr>conn_id = i, queue = [], conn_defragger = defragger_default, receiver_alive = b\<rparr>"
  by (simp_all add: conn_from_def defrag_default_any)

lemma new_udp_from:
  assumes "sess_from M s" "new_udp s = (r, s')"
  shows "sess_from M s'"
    "case r of Inl e \<Rightarrow> s' = s | Inr k \<Rightarrow> k = length (conns s) \<and> length (conns s') = Suc k"
proof -
  have "udp_inv s'" using new_udp_inv [of s] assms by (simp add: sess_from_def)
  with assms show "sess_from M s'"
    by (auto simp: sess_from_def new_udp_def Let_def nth_append less_Suc_eq session_no_def split: if_splits)
  show "case r of Inl e \<Rightarrow> s' = s | Inr k \<Rightarrow> k = length (conns s) \<and> length (conns s') = Suc k"
    using assms(2) by (auto simp: new_udp_def Let_def split: if_splits)
qed

lemma conns_update_from:
  assumes "sess_from M s" "k < length (conns s)" "udp_inv (s\<lparr>conns := (conns s)[k := c]\<rparr>)" "conn_id c = conn_id (conns s ! k)" "conn_from M c"
  shows "sess_from M (s\<lparr>conns := (conns s)[k := c]\<rparr>)"
  using assms by (auto simp: sess_from_def nth_list_update)

lemma feed_session_from:
  assumes "sess_from M s" "m \<in> M"
  shows "sess_from M (feed_session m s) \<and> length (conns (feed_session m s)) = length (conns s)"
proof -
  have inv: "udp_inv (feed_session m s)" using feed_session_inv assms(1) by (simp add: sess_from_def)
  have "sess_from M (feed_session m s)" if k: "sess_map s (session_id m) = Some k"
    and r: "length (queue (conns s ! k)) < UDP_MESSAGE_CHAN_SIZE" "receiver_alive (conns s ! k)" for k
  proof -
    let ?c = "(conns s ! k)\<lparr>queue := queue (conns s ! k) @ [m]\<rparr>"
    have id: "k < length (conns s)" "conn_id (conns s ! k) = session_id m"
      using assms(1) k by (auto simp: sess_from_def udp_inv_def)
    have "conn_from M (conns s ! k)" using assms(1) id(1) by (simp add: sess_from_def)
    then have "conn_from M ?c" using assms(2) id(2) by (simp add: conn_from_def own_def)
    then have "sess_from M (s\<lparr>conns := (conns s)[k := ?c]\<rparr>)"
      using inv k r by (intro conns_update_from assms(1) id(1)) (simp_all add: feed_session_def Let_def)
    then show ?thesis using k r by (simp add: feed_session_def Let_def)
  qed
  with assms(1) show ?thesis by (auto simp: feed_session_def Let_def split: option.splits)
qed

text \<open>The message a datagram of the connection carries.\<close>

definition carried :: "string + bytes \<Rightarrow> udp_message set" where
  "carried x = {m. \<exists>d. x = Inr d \<and> parse_udp_message d = Inr m}"

lemma run_pump_from:
  assumes "sess_from M s" "carried x \<subseteq> M"
  shows "sess_from M (run_pump [x] s) \<and> length (conns (run_pump [x] s)) = length (conns s)"
proof (cases x)
  case (Inl e)
  have "udp_inv (close_cleanup s)" using assms(1) by (auto simp: sess_from_def udp_inv_def close_cleanup_def)
  with assms(1) Inl show ?thesis
    by (simp add: run_pump.simps sess_from_def) (simp add: close_cleanup_def)
next
  case (Inr d)
  show ?thesis
  proof (cases "parse_udp_message d")
    case (Inr m)
    with assms(2) \<open>x = Inr d\<close> have "m \<in> M" by (auto simp: carried_def)
    with feed_session_from [OF assms(1)] Inr \<open>x = Inr d\<close> show ?thesis
      by (simp add: run_pump.simps [of "_ # _"] run_pump.simps [of "[]"])
  qed (use assms(1) Inr in \<open>simp add: run_pump.simps\<close>)
qed

lemma drop_conn_from:
  assumes "sess_from M s" "k < length (conns s)"
  shows "sess_from M (drop_conn k s) \<and> length (conns (drop_conn k s)) = length (conns s)"
proof -
  let ?s = "close_session k s" and ?c = "(conns s ! k)\<lparr>receiver_alive := False\<rparr>"
  have c: "conn_from M ?c" "udp_inv s" using assms by (simp_all add: sess_from_def)
  have "sess_from M ?s" using assms(1) close_session_inv [OF c(2), of k] by (simp add: sess_from_def close_session_def)
  moreover have "drop_conn k s = ?s\<lparr>conns := (conns ?s)[k := ?c]\<rparr>" by (simp add: drop_conn_def close_session_def)
  ultimately show ?thesis
    using conns_update_from [of M ?s k ?c] c assms(2) drop_conn_inv [OF c(2) assms(2)] by (simp add: close_session_def)
qed

lemma receive_loop_from:
  assumes "receive_loop checked al d ms = Ret (d', q, r)" "defrag_inv d M" "set ms \<subseteq> M"
  shows "defrag_inv d' M \<and> (\<forall>b a. r = Got b a \<longrightarrow> (\<exists>x. assembled_from M x \<and> b = data x \<and> a = addr x))"
  using assms
proof (induction ms arbitrary: d)
  case (Cons m ms)
  then obtain d1 x where f: "feed checked d m = Ret (d1, x)" by (auto simp: exec_bind_eq_Ret)
  have "m \<in> M" using Cons.prems(3) by simp
  from feed_inv [OF Cons.prems(2) this f] f Cons show ?case by (cases x) auto
qed (auto split: if_splits)

lemma receive_from:
  assumes "sess_from M s" "k < length (conns s)" "receive checked k s = Ret (s', r)"
  shows "sess_from M s'" "length (conns s') = length (conns s)"
    "r = Got b a \<Longrightarrow> \<exists>x. assembled_from (own M (session_no k)) x \<and> b = data x \<and> a = addr x"
proof -
  let ?c = "conns s ! k"
  obtain d q where l: "receive_loop checked (sender_alive k s) (conn_defragger ?c) (queue ?c) = Ret (d, q, r)"
    and s': "s' = s\<lparr>conns := (conns s)[k := ?c\<lparr>conn_defragger := d, queue := q\<rparr>]\<rparr>"
    using assms(3) by (auto simp: receive_def exec_bind_eq_Ret Let_def)
  have c: "conn_from M ?c" "conn_id ?c = session_no k" "udp_inv s" using assms(1,2) by (simp_all add: sess_from_def)
  then have d: "defrag_inv d (own M (session_no k)) \<and>
      (\<forall>b a. r = Got b a \<longrightarrow> (\<exists>x. assembled_from (own M (session_no k)) x \<and> b = data x \<and> a = addr x))"
    using receive_loop_from [OF l] by (simp add: conn_from_def)
  obtain pre where "queue ?c = pre @ q" using receive_loop_suffix [OF l] by blast
  with c d have "conn_from M (?c\<lparr>conn_defragger := d, queue := q\<rparr>)" by (simp add: conn_from_def)
  moreover have "udp_inv s'" by (rule receive_inv [OF c(3) assms(2,3)])
  ultimately show "sess_from M s'" unfolding s' by (intro conns_update_from assms(1,2)) simp_all
  show "length (conns s') = length (conns s)" by (simp add: s')
  show "r = Got b a \<Longrightarrow> \<exists>x. assembled_from (own M (session_no k)) x \<and> b = data x \<and> a = addr x"
    using d by blast
qed

end
