(* ===== verification/Uplink.thy ===== *)
theory Uplink
  imports Upstream
begin

text \<open>
  What holds of the UDP path as a whole: the invariant that ties every datagram on the wire, every
  queued message and every reply to the app its session was opened for, that no session outlives what
  holds it, and one exchange from the app to the server and back.
\<close>

section \<open>The invariant of the path\<close>

text \<open>
  A datagram on the wire is a piece of an app's datagram, under the number of a session opened for
  that app; a reply was put together from messages of a session opened for its app.
\<close>

definition sent_ok :: "(socket_addr \<Rightarrow> string) \<Rightarrow> (bytes \<times> socket_addr \<times> socket_addr) set \<Rightarrow>
  (nat \<times> socket_addr) set \<Rightarrow> nat \<times> bytes \<Rightarrow> bool" where
  "sent_ok show_addr I H p \<longleftrightarrow>
     (\<exists>d src dst f. (d, src, dst) \<in> I \<and> (fst p, src) \<in> H \<and> snd p = udp_wire f \<and>
        piece_of (session_no (fst p)) d (show_addr dst) f)"

definition reply_ok :: "(string \<Rightarrow> socket_addr option) \<Rightarrow> udp_message set \<Rightarrow> (nat \<times> socket_addr) set \<Rightarrow> reply \<Rightarrow> bool" where
  "reply_ok parse_addr M H r \<longleftrightarrow>
     (\<exists>k x. (k, snd (snd r)) \<in> H \<and> assembled_from (own M (session_no k)) x \<and> fst r = data x \<and>
        parse_addr (addr x) = Some (fst (snd r)))"

definition link_inv :: "(socket_addr \<Rightarrow> string) \<Rightarrow> udp_message set \<Rightarrow> (bytes \<times> socket_addr \<times> socket_addr) set \<Rightarrow>
  (nat \<times> socket_addr) list \<Rightarrow> link \<Rightarrow> bool" where
  "link_inv show_addr M I H l \<longleftrightarrow>
     (\<exists>s. cl_udp (link_client l) = Some s \<and> sess_from M s \<and> map fst H = [0..<length (conns s)]) \<and>
     (\<forall>p\<in>set (link_wire l). sent_ok show_addr I (set H) p)"

definition nat_owned :: "(nat \<times> socket_addr) set \<Rightarrow> (socket_addr \<times> nat nat_entry) list \<Rightarrow> bool" where
  "nat_owned H al \<longleftrightarrow> (\<forall>(src, e)\<in>set al. (entry_conn e, src) \<in> H)"

lemma sent_ok_mono: "sent_ok show_addr I H p \<Longrightarrow> I \<subseteq> J \<Longrightarrow> H \<subseteq> Q \<Longrightarrow> sent_ok show_addr J Q p"
  unfolding sent_ok_def by blast

lemma reply_ok_mono:
  assumes "reply_ok parse_addr M H r" "M \<subseteq> N" "H \<subseteq> Q"
  shows "reply_ok parse_addr N Q r"
  using assms assembled_from_mono [OF _ own_mono [OF assms(2)]] unfolding reply_ok_def by blast

lemma link_inv_mono: "link_inv show_addr M I H l \<Longrightarrow> M \<subseteq> N \<Longrightarrow> I \<subseteq> J \<Longrightarrow> link_inv show_addr N J H l"
  unfolding link_inv_def using sess_from_mono sent_ok_mono by (metis subset_refl)

lemma opened_index:
  assumes "map fst H = [0..<n]" "(k, src) \<in> set H"
  shows "k < n"
proof -
  have "k \<in> set (map fst H)" using assms(2) by force
  then show ?thesis by (simp add: assms(1))
qed

lemma upstream_send_inv:
  assumes "link_inv show_addr M I H l" "(k, src) \<in> set H" "(d, src, dst) \<in> I" "length (show_addr dst) < 2 ^ 62"
  shows "link_inv show_addr M I H (snd (upstream_send env k d (show_addr dst) l))"
proof -
  obtain s where s: "cl_udp (link_client l) = Some s" "sess_from M s" "map fst H = [0..<length (conns s)]"
    using assms(1) by (auto simp: link_inv_def)
  have id: "conn_id (conns s ! k) = session_no k"
    using opened_index [OF s(3) assms(2)] s(2) by (simp add: sess_from_def)
  let ?n = "link_calls l"
  show ?thesis
  proof (cases "conn_send (le_checked env) (le_quic env ?n) (le_max env ?n) (le_rng env ?n) (session_no k)
      (link_bufs l k) d (show_addr dst)")
    case (Ret out)
    obtain buf ds r where out: "out = (buf, ds, r)" by (cases out)
    have "\<forall>w\<in>set ds. \<exists>f. w = udp_wire f \<and> piece_of (session_no k) d (show_addr dst) f"
      using conn_send_pieces [OF _ assms(4)] Ret out by blast
    then have "\<forall>p\<in>set (map (Pair k) ds). sent_ok show_addr I (set H) p"
      using assms(2,3) unfolding sent_ok_def by fastforce
    with assms(1) s Ret out id show ?thesis by (auto simp: upstream_send_def link_inv_def Let_def)
  qed (use assms(1) s id in \<open>auto simp: upstream_send_def link_inv_def Let_def\<close>)
qed

lemma upstream_create_inv:
  assumes "link_inv show_addr M I H l" "upstream_create l = (r, l')"
  shows "case r of None \<Rightarrow> link_inv show_addr M I H l' | Some k \<Rightarrow> link_inv show_addr M I (H @ [(k, src)]) l'"
proof -
  obtain s where s: "cl_udp (link_client l) = Some s" "sess_from M s" "map fst H = [0..<length (conns s)]"
    using assms(1) by (auto simp: link_inv_def)
  obtain x s' where n: "new_udp s = (x, s')" by (cases "new_udp s")
  note n' = new_udp_from [OF s(2) n]
  have w: "\<forall>p\<in>set (link_wire l). sent_ok show_addr I (set Q) p" if "set H \<subseteq> set Q" for Q
    using assms(1) sent_ok_mono [OF _ subset_refl that] by (auto simp: link_inv_def)
  show ?thesis
  proof (cases x)
    case (Inl e)
    with assms n n' s w [of H] show ?thesis
      by (auto simp: upstream_create_def client_create_def client_udp_def link_inv_def)
  next
    case (Inr k)
    have "\<forall>p\<in>set (link_wire l). sent_ok show_addr I (set (H @ [(k, src)])) p" by (rule w) auto
    with Inr assms(2) n n' s show ?thesis
      by (auto simp: upstream_create_def client_create_def client_udp_def link_inv_def)
  qed
qed

lemma nat_owned_mono: "nat_owned H al \<Longrightarrow> set bl \<subseteq> set al \<Longrightarrow> H \<subseteq> Q \<Longrightarrow> nat_owned Q bl"
  unfolding nat_owned_def by blast

lemma set_update_sub: "set (AList.update k v al) \<subseteq> insert (k, v) (set al)"
  by (induction al) auto

text \<open>Forwarding a datagram keeps the invariant; a session it opens is the datagram's source's.\<close>

lemma forward_inv:
  assumes inv: "link_inv show_addr M I H l" "nat_owned (set H) (nat_map n)" "(d, src, dst) \<in> I"
    and len: "length (show_addr dst) < 2 ^ 62"
    and f: "forward upstream_create (upstream_send env) show_addr src dst d now l n = (o', l', n')"
  defines "new \<equiv> fresh_sessions (nat_map n) (nat_map n')"
  shows "link_inv show_addr M I (H @ new) l' \<and> nat_owned (set (H @ new)) (nat_map n')"
proof (cases "map_of (nat_map n) src")
  case (Some e)
  have "(src, e) \<in> set (nat_map n)" by (rule map_of_SomeD [OF Some])
  then have own: "(entry_conn e, src) \<in> set H" using inv(2) by (auto simp: nat_owned_def)
  have n': "nat_map n' = AList.update src (e\<lparr>last_activity := now\<rparr>) (nat_map n)"
    and l': "l' = snd (upstream_send env (entry_conn e) d (show_addr dst) l)"
    using f Some by (auto simp: forward_def get_or_create_def Let_def split: prod.splits)
  have sub: "set (nat_map n') \<subseteq> insert (src, e\<lparr>last_activity := now\<rparr>) (set (nat_map n))"
    unfolding n' by (rule set_update_sub)
  have "src \<in> fst ` set (nat_map n)" using Some by (force dest: map_of_SomeD)
  with sub have "fst ` set (nat_map n') \<subseteq> fst ` set (nat_map n)" by force
  then have "new = []" by (auto simp: new_def fresh_sessions_def filter_empty_conv split: prod.splits) force
  moreover have "nat_owned (set H) (nat_map n')" using sub inv(2) own by (fastforce simp: nat_owned_def)
  ultimately show ?thesis using upstream_send_inv [OF inv(1) own inv(3) len] l' by simp
next
  case None
  then have keys: "src \<notin> set (map fst (nat_map n))" by (simp add: map_of_eq_None_iff)
  obtain r l1 where c: "upstream_create l = (r, l1)" by (cases "upstream_create l")
  note c' = upstream_create_inv [OF inv(1) c, of src]
  have old: "fresh_sessions (nat_map n) (nat_map n) = []"
    by (auto simp: fresh_sessions_def filter_empty_conv) force
  show ?thesis
  proof (cases "nat_max n \<le> length (nat_map n) \<or> r = None")
    case True
    with f None c have "n' = n" "l' = (if nat_max n \<le> length (nat_map n) then l else l1)"
      by (auto simp: forward_def get_or_create_def Let_def split: if_splits)
    with c' True inv old show ?thesis by (auto simp: new_def split: option.splits)
  next
    case False
    then obtain k where r: "r = Some k" by auto
    have n': "nat_map n' = (src, \<lparr>entry_conn = k, last_activity = now\<rparr>) # nat_map n"
      and l': "l' = snd (upstream_send env k d (show_addr dst) l1)"
      using f None c False r by (auto simp: forward_def get_or_create_def Let_def split: prod.splits)
    have new: "new = [(k, src)]" using keys old by (simp add: new_def n' fresh_sessions_def)
    have "link_inv show_addr M I (H @ [(k, src)]) l1" using c' r by simp
    from upstream_send_inv [OF this _ inv(3) len, of k env] l' inv(2) show ?thesis
      by (auto simp: new n' nat_owned_def)
  qed
qed

definition task_ok :: "(string \<Rightarrow> socket_addr option) \<Rightarrow> udp_message set \<Rightarrow> (nat \<times> socket_addr) set \<Rightarrow> nat \<Rightarrow>
  reply_task \<Rightarrow> bool" where
  "task_ok parse_addr M H k r \<longleftrightarrow> (k, rt_src r) \<in> H \<and>
     (\<forall>p. rt_pending r = Some p \<longrightarrow> reply_ok parse_addr M H (snd p, fst p, rt_src r))"

lemma task_ok_mono: "task_ok parse_addr M H k r \<Longrightarrow> M \<subseteq> N \<Longrightarrow> H \<subseteq> Q \<Longrightarrow> task_ok parse_addr N Q k r"
  unfolding task_ok_def using reply_ok_mono by blast

definition uplink_inv :: "limits \<Rightarrow> (string \<Rightarrow> socket_addr option) \<Rightarrow> (socket_addr \<Rightarrow> string) \<Rightarrow> udp_message set \<Rightarrow>
  (bytes \<times> socket_addr \<times> socket_addr) set \<Rightarrow> uplink \<Rightarrow> bool" where
  "uplink_inv lm parse_addr show_addr M I u \<longleftrightarrow>
     tunnel_inv lm (ul_tunnel u) \<and>
     link_inv show_addr M I (ul_opened u) (ul_link u) \<and>
     nat_owned (set (ul_opened u)) (ul_nat u) \<and>
     (\<forall>k r. ul_tasks u k = Some r \<longrightarrow> task_ok parse_addr M (set (ul_opened u)) k r) \<and>
     (\<forall>x\<in>set (waiting (tn_writer (ul_tunnel u))) \<union> set (emitted (tn_writer (ul_tunnel u))).
        reply_ok parse_addr M (set (ul_opened u)) x)"

text \<open>What the events bring from outside.\<close>

fun carried_by :: "uplink_event \<Rightarrow> udp_message set" where
  "carried_by (UlServer x) = carried x"
| "carried_by _ = {}"

fun inbound_of :: "uplink_event \<Rightarrow> (bytes \<times> socket_addr \<times> socket_addr) set" where
  "inbound_of (UlTunnel (LoopEvent (Inbound (Some x) now))) = {x}"
| "inbound_of _ = {}"

lemma carried_by_iff: "m \<in> carried_by e \<longleftrightarrow> (\<exists>b. e = UlServer (Inr b) \<and> parse_udp_message b = Inr m)"
  by (cases e) (auto simp: carried_def)

lemma inbound_of_iff: "p \<in> inbound_of e \<longleftrightarrow> (\<exists>now. e = UlTunnel (LoopEvent (Inbound (Some p) now)))"
  by (cases e rule: inbound_of.cases) auto

lemma uplink_inv_mono:
  assumes "uplink_inv lm parse_addr show_addr M I u" "M \<subseteq> N" "I \<subseteq> J"
  shows "uplink_inv lm parse_addr show_addr N J u"
  using assms(1) link_inv_mono [OF _ assms(2,3)] reply_ok_mono [OF _ assms(2) subset_refl]
    task_ok_mono [OF _ assms(2) subset_refl]
  unfolding uplink_inv_def by meson

lemma dp_step_other:
  assumes "dp_inv lm s" "\<And>x now. e \<noteq> Inbound (Some x) now"
  shows "dp_client (dp_step create send show_addr e s) = dp_client s \<and>
    set (nat_map (dp_sessions (dp_step create send show_addr e s))) \<subseteq> set (nat_map (dp_sessions s))"
proof (cases e)
  case (Inbound x now)
  then have "x = None" using assms(2) by (cases x) blast+
  with Inbound show ?thesis by (simp add: dp_step.simps dp_stop_def)
qed (use assms(1) in \<open>auto simp: dp_step.simps dp_stop_def accept_flow_def relay_ends_def Let_def reap_filter dp_inv_def nat_inv_def
      split: option.splits\<close>)

lemma tunnel_step_loop:
  "tn_loop (tunnel_step create send show_addr (LoopEvent x) t) =
     (if enabled x t then dp_step create send show_addr x (tn_loop t) else tn_loop t)"
  by (simp add: Let_def)

lemma tunnel_step_writer:
  assumes "\<And>x. e \<noteq> Deliver x" "w = tn_writer (tunnel_step create send show_addr e t)"
  shows "set (waiting w) \<union> set (emitted w) \<subseteq> set (waiting (tn_writer t)) \<union> set (emitted (tn_writer t))"
  using assms(1) unfolding assms(2)
  by (cases e) (auto simp: Let_def trigger_shutdown_def writer_abort_def writer_turn_def split: prod.splits list.splits if_splits)

lemma fresh_sub: "set new \<subseteq> set old \<Longrightarrow> fresh_sessions old new = []"
  by (force simp: fresh_sessions_def filter_empty_conv)

lemma spawn_tasks_cases:
  "spawn_tasks new ts k = Some r \<Longrightarrow> ts k = Some r \<or> ((k, rt_src r) \<in> set new \<and> rt_pending r = None)"
  by (induction new ts rule: spawn_tasks.induct) (auto split: if_splits)

lemma tunnel_step_link:
  assumes inv: "tunnel_inv lm t" "link_inv show_addr M I H (dp_client (tn_loop t))"
      "nat_owned (set H) (nat_map (dp_sessions (tn_loop t)))"
    and e: "\<And>x. e \<noteq> Deliver x" and len: "\<And>a. length (show_addr a) < 2 ^ 62"
    and t': "t' = tunnel_step upstream_create (upstream_send env) show_addr e t"
    and new: "new = fresh_sessions (nat_map (dp_sessions (tn_loop t))) (nat_map (dp_sessions (tn_loop t')))"
  shows "link_inv show_addr M (I \<union> inbound_of (UlTunnel e)) (H @ new) (dp_client (tn_loop t')) \<and>
    nat_owned (set (H @ new)) (nat_map (dp_sessions (tn_loop t')))"
proof -
  let ?step = "dp_step upstream_create (upstream_send env) show_addr"
  have other: ?thesis if "dp_client (tn_loop t') = dp_client (tn_loop t)"
    "set (nat_map (dp_sessions (tn_loop t'))) \<subseteq> set (nat_map (dp_sessions (tn_loop t)))"
  proof -
    have "new = []" unfolding new by (rule fresh_sub [OF that(2)])
    with link_inv_mono [OF inv(2) subset_refl Un_upper1] nat_owned_mono [OF inv(3) that(2) subset_refl] that(1)
    show ?thesis by simp
  qed
  have same: ?thesis if "tn_loop t' = tn_loop t" by (rule other) (simp_all add: that)
  show ?thesis
  proof (cases "\<exists>d src dst now. e = LoopEvent (Inbound (Some (d, src, dst)) now) \<and> enabled (Inbound (Some (d, src, dst)) now) t \<and>
      running (tn_loop t)")
    case True
    then obtain d src dst now where x: "e = LoopEvent (Inbound (Some (d, src, dst)) now)"
      "enabled (Inbound (Some (d, src, dst)) now) t" "running (tn_loop t)" by blast
    obtain o' l' n' where f: "forward upstream_create (upstream_send env) show_addr src dst d now
        (dp_client (tn_loop t)) (dp_sessions (tn_loop t)) = (o', l', n')"
      by (metis prod_cases3)
    have "tn_loop t' = ?step (Inbound (Some (d, src, dst)) now) (tn_loop t)"
      using x by (simp add: t' Let_def)
    then have r: "dp_client (tn_loop t') = l'" "dp_sessions (tn_loop t') = n'"
      using x(3) f by (simp_all add: dp_step.simps udp_inbound_def)
    have "link_inv show_addr M (I \<union> {(d, src, dst)}) H (dp_client (tn_loop t))"
      using inv(2) by (auto intro: link_inv_mono)
    from forward_inv [OF this inv(3) _ len f] show ?thesis by (simp add: new r x(1))
  next
    case False
    show ?thesis
    proof (cases e)
      case (LoopEvent x)
      show ?thesis
      proof (cases "\<exists>y now. x = Inbound (Some y) now")
        case True
        with False LoopEvent have "\<not> enabled x t \<or> \<not> running (tn_loop t)" by auto
        then have "tn_loop t' = tn_loop t" unfolding t' LoopEvent tunnel_step_loop by (auto simp: dp_stopped)
        then show ?thesis by (rule same)
      next
        case no: False
        have "dp_inv lm (tn_loop t)" using inv(1) by (simp add: tunnel_inv_def)
        from dp_step_other [OF this, of x upstream_create "upstream_send env" show_addr] no
        have "dp_client (tn_loop t') = dp_client (tn_loop t) \<and>
          set (nat_map (dp_sessions (tn_loop t'))) \<subseteq> set (nat_map (dp_sessions (tn_loop t)))"
          unfolding t' LoopEvent tunnel_step_loop by auto
        then show ?thesis by (intro other) simp_all
      qed
    next
      case (Deliver x)
      then show ?thesis using e by blast
    qed (rule same, simp add: t' trigger_shutdown_def Let_def)+
  qed
qed

lemma ul_tunnel_step_inv:
  assumes "uplink_inv lm parse_addr show_addr M I u" "\<And>x. e \<noteq> Deliver x" "\<And>a. length (show_addr a) < 2 ^ 62"
  shows "uplink_inv lm parse_addr show_addr M (I \<union> inbound_of (UlTunnel e)) (ul_tunnel_step env show_addr e u)"
proof -
  let ?t = "tunnel_step upstream_create (upstream_send env) show_addr e (ul_tunnel u)"
  let ?new = "fresh_sessions (ul_nat u) (nat_map (dp_sessions (tn_loop ?t)))"
  let ?H = "set (ul_opened u)" and ?H' = "set (ul_opened u @ ?new)"
  note inv = assms(1) [unfolded uplink_inv_def]
  have t: "tunnel_inv lm ?t" using inv tunnel_step_inv by blast
  have l: "link_inv show_addr M (I \<union> inbound_of (UlTunnel e)) (ul_opened u @ ?new) (dp_client (tn_loop ?t)) \<and>
    nat_owned ?H' (nat_map (dp_sessions (tn_loop ?t)))"
    using inv by (intro tunnel_step_link [OF _ _ _ assms(2,3) refl, of lm]) (simp_all add: ul_link_def ul_nat_def)
  have mono: "reply_ok parse_addr M ?H x \<Longrightarrow> reply_ok parse_addr M ?H' x" for x
    by (erule reply_ok_mono) auto
  have w: "\<forall>x\<in>set (waiting (tn_writer ?t)) \<union> set (emitted (tn_writer ?t)). reply_ok parse_addr M ?H' x"
    using tunnel_step_writer [OF assms(2) refl, of upstream_create "upstream_send env" show_addr "ul_tunnel u"] inv mono
    by blast
  have tasks: "task_ok parse_addr M ?H' k r" if "spawn_tasks ?new (ul_tasks u) k = Some r" for k r
    using spawn_tasks_cases [OF that]
  proof
    assume "ul_tasks u k = Some r"
    then have "task_ok parse_addr M ?H k r" using inv by blast
    then show ?thesis by (rule task_ok_mono) auto
  qed (simp add: task_ok_def)
  show ?thesis
    using t l w tasks by (simp add: uplink_inv_def ul_tunnel_step_def Let_def ul_link_def ul_nat_def)
qed

lemma tunnel_inv_client: "tunnel_inv lm (t\<lparr>tn_loop := (tn_loop t)\<lparr>dp_client := l\<rparr>\<rparr>) = tunnel_inv lm t"
  by (simp add: tunnel_inv_def dp_inv_def)

lemma uplink_set_link:
  assumes "uplink_inv lm parse_addr show_addr M I u" "link_inv show_addr M I (ul_opened u) l"
  shows "uplink_inv lm parse_addr show_addr M I (ul_set_link l u)"
  using assms by (simp add: uplink_inv_def ul_set_link_def ul_link_def ul_nat_def tunnel_inv_client)

lemma uplink_set_task:
  assumes "uplink_inv lm parse_addr show_addr M I u"
    and "\<And>r. x = Some r \<Longrightarrow> task_ok parse_addr M (set (ul_opened u)) k r"
  shows "uplink_inv lm parse_addr show_addr M I (u\<lparr>ul_tasks := (ul_tasks u)(k := x)\<rparr>)"
  using assms by (simp add: uplink_inv_def ul_link_def ul_nat_def)

lemma ul_set_link_simps [simp]:
  "ul_opened (ul_set_link l u) = ul_opened u" "ul_tasks (ul_set_link l u) = ul_tasks u" "ul_link (ul_set_link l u) = l"
  by (simp_all add: ul_set_link_def ul_link_def)

lemma link_update_inv:
  assumes "link_inv show_addr M I H l"
    and "\<And>s. cl_udp (link_client l) = Some s \<Longrightarrow> sess_from M s \<Longrightarrow> map fst H = [0..<length (conns s)] \<Longrightarrow>
      sess_from M (f s) \<and> length (conns (f s)) = length (conns s)"
  shows "link_inv show_addr M I H (link_update f l)"
  using assms by (auto simp: link_inv_def link_update_def)

lemma upstream_receive_inv:
  assumes "link_inv show_addr M I H l" "(k, src) \<in> set H" "upstream_receive checked k l = Ret (l', r)"
  shows "link_inv show_addr M I H l'"
    "r = Some (Some (d, a)) \<Longrightarrow> \<exists>x. assembled_from (own M (session_no k)) x \<and> d = data x \<and> a = addr x"
proof -
  obtain s where s: "cl_udp (link_client l) = Some s" "sess_from M s" "map fst H = [0..<length (conns s)]"
    using assms(1) by (auto simp: link_inv_def)
  have k: "k < length (conns s)" by (rule opened_index [OF s(3) assms(2)])
  obtain s' rr where c: "receive checked k s = Ret (s', rr)"
    "l' = l\<lparr>link_client := (link_client l)\<lparr>cl_udp := Some s'\<rparr>\<rparr>"
    "r = (case rr of Got d a \<Rightarrow> Some (Some (d, a)) | WouldBlock \<Rightarrow> None | Eof \<Rightarrow> Some None)"
    using assms(3) s(1) by (auto simp: upstream_receive_def exec_bind_eq_Ret)
  note rf = receive_from [OF s(2) k c(1)]
  show "link_inv show_addr M I H l'" using assms(1) s(3) rf(1,2) by (auto simp: link_inv_def c(2))
  show "\<exists>x. assembled_from (own M (session_no k)) x \<and> d = data x \<and> a = addr x" if "r = Some (Some (d, a))"
  proof -
    have "rr = Got d a" using that c(3) by (cases rr) auto
    then show ?thesis by (rule rf(3))
  qed
qed

lemma ul_receive_inv:
  assumes inv: "uplink_inv lm parse_addr show_addr M I u"
  shows "uplink_inv lm parse_addr show_addr M I (ul_receive checked parse_addr k u)"
proof (cases "\<exists>r. ul_tasks u k = Some r \<and> rt_pending r = None")
  case True
  then obtain r where r: "ul_tasks u k = Some r" "rt_pending r = None" by blast
  have own: "(k, rt_src r) \<in> set (ul_opened u)" and l: "link_inv show_addr M I (ul_opened u) (ul_link u)"
    using inv r(1) by (auto simp: uplink_inv_def task_ok_def)
  show ?thesis
  proof (cases "upstream_receive checked k (ul_link u)")
    case Panic
    with r uplink_set_task [OF inv, of None k] show ?thesis by (simp add: ul_receive_def)
  next
    case (Ret out)
    obtain l' x where out: "out = (l', x)" by (cases out)
    note rc = upstream_receive_inv [OF l own Ret [unfolded out]]
    note set = uplink_set_link [OF inv rc(1)]
    have task: "task_ok parse_addr M (set (ul_opened u)) k (r\<lparr>rt_pending := Some (a, d)\<rparr>)"
      if "x = Some (Some (d, peer))" "parse_addr peer = Some a" for d peer a
      using rc(2) [OF that(1)] own that(2) unfolding task_ok_def reply_ok_def by auto
    have upd: "uplink_inv lm parse_addr show_addr M I (ul_set_link l' u\<lparr>ul_tasks := (ul_tasks u)(k := y)\<rparr>)"
      if "y = None \<or> (\<exists>d peer a. x = Some (Some (d, peer)) \<and> parse_addr peer = Some a \<and>
        y = Some (r\<lparr>rt_pending := Some (a, d)\<rparr>))" for y
      using uplink_set_task [OF set, of y k] task that by auto
    show ?thesis
      using r Ret out set upd by (auto simp: ul_receive_def split: option.splits)
  qed
qed (use inv in \<open>auto simp: ul_receive_def split: option.splits\<close>)

lemma ul_deliver_inv:
  assumes inv: "uplink_inv lm parse_addr show_addr M I u"
  shows "uplink_inv lm parse_addr show_addr M I (ul_deliver env show_addr k u)"
proof (cases "\<exists>r a d. ul_tasks u k = Some r \<and> rt_pending r = Some (a, d)")
  case True
  then obtain r a d where r: "ul_tasks u k = Some r" "rt_pending r = Some (a, d)" by blast
  let ?x = "(rt_src r, a, d)"
  let ?t = "tunnel_step upstream_create (upstream_send env) show_addr (Deliver ?x) (ul_tunnel u)"
  have t: "task_ok parse_addr M (set (ul_opened u)) k r" using inv r(1) by (simp add: uplink_inv_def)
  then have ok: "reply_ok parse_addr M (set (ul_opened u)) (deliver_reply ?x)" using r(2) by (simp add: task_ok_def)
  have "tunnel_inv lm ?t" using inv tunnel_step_inv unfolding uplink_inv_def by blast
  then have u': "uplink_inv lm parse_addr show_addr M I (u\<lparr>ul_tunnel := ?t\<rparr>)"
    using inv ok
    by (auto simp: uplink_inv_def ul_link_def ul_nat_def udp_send_def replied_keeps dp_step.simps)
  show ?thesis
    using r u' inv uplink_set_task [OF u', of "Some (r\<lparr>rt_pending := None\<rparr>)" k] uplink_set_task [OF u', of None k] t
    by (auto simp: ul_deliver_def Let_def task_ok_def split: option.splits bool.splits)
qed (use inv in \<open>auto simp: ul_deliver_def split: option.splits\<close>)

text \<open>No step forgets a session that was opened.\<close>

lemma ul_receive_opened: "ul_opened (ul_receive checked parse_addr k u) = ul_opened u"
  by (auto simp: ul_receive_def split: option.splits exec.splits prod.splits)

lemma ul_deliver_opened: "ul_opened (ul_deliver env show_addr k u) = ul_opened u"
  by (auto simp: ul_deliver_def Let_def split: option.splits bool.splits)

lemma uplink_act_opened: "\<exists>new. ul_opened (uplink_act env parse_addr show_addr e u) = ul_opened u @ new"
  by (auto simp: uplink_act_def ul_tunnel_step_def Let_def ul_receive_opened ul_deliver_opened
      split: uplink_event.splits tunnel_event.splits)

lemma uplink_act_inv:
  assumes inv: "uplink_inv lm parse_addr show_addr M I u" and len: "\<And>a. length (show_addr a) < 2 ^ 62"
    and e: "carried_by e \<subseteq> M" "inbound_of e \<subseteq> I"
  shows "uplink_inv lm parse_addr show_addr M I (uplink_act env parse_addr show_addr e u)"
proof (cases e)
  case (UlTunnel te)
  have "I \<union> inbound_of (UlTunnel te) = I" using e(2) UlTunnel by blast
  with ul_tunnel_step_inv [OF inv _ len, of te env] inv UlTunnel show ?thesis
    by (cases te) (simp_all add: uplink_act_def)
next
  case (UlServer x)
  have "link_inv show_addr M I (ul_opened u)
      (link_update (\<lambda>s. if sess_closed s then s else run_pump [x] s) (ul_link u))"
    using inv e(1) run_pump_from [of M _ x] UlServer
    by (intro link_update_inv) (auto simp: uplink_inv_def)
  with uplink_set_link [OF inv] show ?thesis by (simp add: uplink_act_def UlServer)
next
  case (UlTaskEnds k)
  with inv uplink_set_task [OF inv, of None k] show ?thesis by (simp add: uplink_act_def)
qed (simp_all add: uplink_act_def ul_receive_inv [OF inv] ul_deliver_inv [OF inv])

lemma release_fold_inv:
  assumes "uplink_inv lm parse_addr show_addr M I u" "\<forall>k\<in>set ks. k < length (ul_opened u)"
  shows "uplink_inv lm parse_addr show_addr M I (fold (\<lambda>k v. ul_set_link (link_update (drop_conn k) (ul_link v)) v) ks u)"
  using assms
proof (induction ks arbitrary: u)
  case (Cons k ks)
  have "link_inv show_addr M I (ul_opened u) (link_update (drop_conn k) (ul_link u))"
  proof (rule link_update_inv)
    fix s
    assume s: "sess_from M s" "map fst (ul_opened u) = [0..<length (conns s)]"
    from arg_cong [OF s(2), of length] have "k < length (conns s)" using Cons.prems(2) by simp
    with s(1) show "sess_from M (drop_conn k s) \<and> length (conns (drop_conn k s)) = length (conns s)"
      by (rule drop_conn_from)
  qed (use Cons.prems(1) in \<open>simp add: uplink_inv_def\<close>)
  from Cons.IH [OF uplink_set_link [OF Cons.prems(1) this]] Cons.prems(2) show ?case by simp
qed simp

lemma uplink_step_inv:
  assumes "uplink_inv lm parse_addr show_addr M I u" "\<And>a. length (show_addr a) < 2 ^ 62"
    and "carried_by e \<subseteq> M" "inbound_of e \<subseteq> I"
  shows "uplink_inv lm parse_addr show_addr M I (uplink_step env parse_addr show_addr e u)"
proof -
  let ?u = "uplink_act env parse_addr show_addr e u"
  obtain s where s: "cl_udp (link_client (ul_link u)) = Some s" "map fst (ul_opened u) = [0..<length (conns s)]"
    using assms(1) by (auto simp: uplink_inv_def link_inv_def)
  from arg_cong [OF s(2), of length] have "session_total (ul_link u) \<le> length (ul_opened ?u)"
    using uplink_act_opened [of env parse_addr show_addr e u] by (auto simp: session_total_def s(1))
  then show ?thesis unfolding uplink_step_def release_def
    by (intro release_fold_inv uplink_act_inv [OF assms]) auto
qed

lemma uplink_run_inv:
  assumes "uplink_inv lm parse_addr show_addr M I u" "\<And>a. length (show_addr a) < 2 ^ 62"
    and "\<forall>e\<in>set es. carried_by e \<subseteq> M \<and> inbound_of e \<subseteq> I"
  shows "uplink_inv lm parse_addr show_addr M I (fold (uplink_step env parse_addr show_addr) es u)"
  using assms(1,3)
proof (induction es arbitrary: u)
  case (Cons e es)
  from Cons.IH [OF uplink_step_inv [OF Cons.prems(1) assms(2)], of e env] Cons.prems(2) show ?case by simp
qed simp

lemma uplink_new_inv:
  assumes "spawn stack_builder (link_new cl) c = Inr t" "cl_udp cl = Some manager_new"
  shows "uplink_inv (dp_limits c) parse_addr show_addr M I (uplink_new t)"
proof -
  have "dp_client (tn_loop t) = link_new cl" "nat_map (dp_sessions (tn_loop t)) = []"
    using assms(1) by (auto simp: spawn_def and_then_eq_Inr dp_start_def sessions_new_def)
  then show ?thesis
    using spawn_inv [OF assms(1)] sess_from_new assms(2)
    by (simp add: uplink_inv_def uplink_new_def ul_link_def ul_nat_def link_inv_def link_new_def nat_owned_def
        writer_new_def) (simp add: manager_new_def)
qed

lemma session_no_inj:
  assumes "map fst H = [0..<n]" "length H < 2 ^ 32"
  shows "distinct (map (session_no \<circ> fst) H)"
proof -
  have n: "n < 2 ^ 32" using arg_cong [OF assms(1), of length] assms(2) by simp
  have "inj_on session_no {0..<n}"
  proof (rule inj_onI)
    fix i j assume ij: "i \<in> {0..<n}" "j \<in> {0..<n}" "session_no i = session_no j"
    then have "of_nat i = (of_nat j :: u32)" by (simp add: session_no_def)
    then have "unat (of_nat i :: u32) = unat (of_nat j :: u32)" by simp
    with ij n show "i = j" by (simp add: unat_of_nat)
  qed
  then have "distinct (map session_no [0..<n])" by (simp add: distinct_map)
  then show ?thesis unfolding assms(1) [symmetric] by simp
qed

section \<open>No session is leaked\<close>

text \<open>The session manager under the link, and that all it routes to is still held.\<close>

definition ul_sessions :: "uplink \<Rightarrow> sessions option" where
  "ul_sessions u = cl_udp (link_client (ul_link u))"

definition routed :: "uplink \<Rightarrow> nat \<Rightarrow> bool" where
  "routed u k \<longleftrightarrow> (\<exists>s i. ul_sessions u = Some s \<and> sess_map s i = Some k)"

definition leak_free :: "uplink \<Rightarrow> bool" where
  "leak_free u \<longleftrightarrow> (\<forall>k. routed u k \<longrightarrow> held u k)"

lemma held_set_link [simp]: "held (ul_set_link l u) = held u" "ul_nat (ul_set_link l u) = ul_nat u"
  by (simp_all add: fun_eq_iff held_def ul_nat_def ul_set_link_def)

lemma routed_set_link: "routed (ul_set_link l u) k \<longleftrightarrow> (\<exists>s i. cl_udp (link_client l) = Some s \<and> sess_map s i = Some k)"
  by (simp add: routed_def ul_sessions_def)

text \<open>What a step of the manager does to its table.\<close>

lemma run_pump_map: "sess_map (run_pump [x] s) i = Some k \<Longrightarrow> sess_map s i = Some k"
  by (cases x; cases "parse_udp_message (projr x)")
    (auto simp: run_pump.simps close_cleanup_def feed_session_def Let_def split: option.splits if_splits)

lemma receive_map: "receive checked k s = Ret (s', r) \<Longrightarrow> sess_map s' = sess_map s"
  by (auto simp: receive_def exec_bind_eq_Ret Let_def)

lemma upstream_send_client: "link_client (snd (upstream_send env k d a l)) = link_client l"
  by (simp add: upstream_send_def Let_def split: option.splits exec.splits prod.splits)

lemma upstream_create_map:
  assumes "upstream_create l = (r, l')" "cl_udp (link_client l') = Some s'" "sess_map s' i = Some k"
  shows "r = Some k \<or> (\<exists>s j. cl_udp (link_client l) = Some s \<and> sess_map s j = Some k)"
  using assms
  by (auto simp: upstream_create_def client_create_def client_udp_def new_udp_def Let_def split: option.splits prod.splits if_splits)

lemma held_spawned: "ul_tasks u k \<noteq> None \<Longrightarrow> spawn_tasks new (ul_tasks u) k \<noteq> None"
proof -
  have "ts k \<noteq> None \<Longrightarrow> spawn_tasks new ts k \<noteq> None" for ts :: "nat \<Rightarrow> reply_task option"
    by (induction new ts rule: spawn_tasks.induct) auto
  then show "ul_tasks u k \<noteq> None \<Longrightarrow> spawn_tasks new (ul_tasks u) k \<noteq> None" .
qed

text \<open>After a step of the parts, what is routed to was held before or is held now.\<close>

lemma forward_routed:
  assumes f: "forward upstream_create (upstream_send env) show_addr src dst d now l n = (o', l', n')"
    and "cl_udp (link_client l') = Some s'" "sess_map s' i = Some k"
  shows "(\<exists>s j. cl_udp (link_client l) = Some s \<and> sess_map s j = Some k) \<or> k \<in> (entry_conn \<circ> snd) ` set (nat_map n')"
proof (cases "map_of (nat_map n) src")
  case (Some e)
  then have "link_client l' = link_client l"
    using f upstream_send_client [of env "entry_conn e" d "show_addr dst" l]
    by (auto simp: forward_def get_or_create_def Let_def split: prod.splits)
  with assms(2,3) show ?thesis by auto
next
  case None
  obtain r l1 where c: "upstream_create l = (r, l1)" by force
  show ?thesis
  proof (cases "nat_max n \<le> length (nat_map n)")
    case True
    with f None have "l' = l" by (simp add: forward_def get_or_create_def)
    with assms(2,3) show ?thesis by auto
  next
    case False
    show ?thesis
    proof (cases r)
      case None
      with f \<open>map_of (nat_map n) src = None\<close> c False have "l' = l1" by (simp add: forward_def get_or_create_def)
      with upstream_create_map [OF c] assms(2,3) None show ?thesis by auto
    next
      case (Some j)
      with f None c False have "link_client l' = link_client l1"
        and n': "nat_map n' = (src, \<lparr>entry_conn = j, last_activity = now\<rparr>) # nat_map n"
        using upstream_send_client [of env j d "show_addr dst" l1]
        by (auto simp: forward_def get_or_create_def Let_def split: prod.splits)
      with upstream_create_map [OF c, of s' i k] assms(2,3) Some show ?thesis by auto
    qed
  qed
qed

lemma ul_tunnel_routed:
  assumes inv: "tunnel_inv lm (ul_tunnel u)" and e: "\<And>x. e \<noteq> Deliver x"
    and r: "routed (ul_tunnel_step env show_addr e u) k"
  shows "routed u k \<or> held (ul_tunnel_step env show_addr e u) k"
proof -
  let ?t = "ul_tunnel u"
  let ?t' = "tunnel_step upstream_create (upstream_send env) show_addr e ?t"
  let ?u = "ul_tunnel_step env show_addr e u"
  have link: "ul_link ?u = dp_client (tn_loop ?t')" and nat: "ul_nat ?u = nat_map (dp_sessions (tn_loop ?t'))"
    by (simp_all add: ul_tunnel_step_def ul_link_def ul_nat_def Let_def)
  have same: ?thesis if "dp_client (tn_loop ?t') = dp_client (tn_loop ?t)"
    using r that link by (simp add: routed_def ul_sessions_def ul_link_def)
  show ?thesis
  proof (cases "\<exists>x. e = LoopEvent x \<and> enabled x ?t")
    case False
    have "tn_loop ?t' = tn_loop ?t"
    proof (cases e)
      case (Deliver x)
      with e show ?thesis by blast
    qed (use False in \<open>auto simp: trigger_shutdown_def Let_def\<close>)
    then show ?thesis by (intro same) simp
  next
    case True
    then obtain x where x: "e = LoopEvent x" "enabled x ?t" by blast
    have loop: "tn_loop ?t' = dp_step upstream_create (upstream_send env) show_addr x (tn_loop ?t)"
      unfolding x(1) tunnel_step_loop using x(2) by simp
    show ?thesis
    proof (cases "\<exists>d src dst now. x = Inbound (Some (d, src, dst)) now \<and> running (tn_loop ?t)")
      case True
      then obtain d src dst now where i: "x = Inbound (Some (d, src, dst)) now" "running (tn_loop ?t)" by blast
      obtain o' l' n' where f: "forward upstream_create (upstream_send env) show_addr src dst d now
          (dp_client (tn_loop ?t)) (dp_sessions (tn_loop ?t)) = (o', l', n')"
        by (metis prod_cases3)
      have l': "dp_client (tn_loop ?t') = l'" "dp_sessions (tn_loop ?t') = n'"
        using loop i f by (simp_all add: dp_step.simps udp_inbound_def)
      from r obtain s i where "cl_udp (link_client l') = Some s" "sess_map s i = Some k"
        by (auto simp: routed_def ul_sessions_def link l'(1))
      from forward_routed [OF f this] show ?thesis
        by (force simp: routed_def ul_sessions_def ul_link_def held_def nat l'(2))
    next
      case False
      have dp: "dp_inv lm (tn_loop ?t)" using inv by (simp add: tunnel_inv_def)
      show ?thesis
      proof (cases "\<exists>y now. x = Inbound (Some y) now")
        case True
        with False have "\<not> running (tn_loop ?t)" by auto
        then show ?thesis by (intro same) (simp add: loop dp_stopped)
      next
        case False
        then show ?thesis using dp_step_other [OF dp, of x upstream_create "upstream_send env" show_addr] loop
          by (intro same) auto
      qed
    qed
  qed
qed

lemma uplink_act_routed:
  assumes "tunnel_inv lm (ul_tunnel u)" "routed (uplink_act env parse_addr show_addr e u) k"
  shows "routed u k \<or> held (uplink_act env parse_addr show_addr e u) k"
proof (cases e)
  case (UlTunnel te)
  with assms ul_tunnel_routed [OF assms(1), of te env show_addr k] show ?thesis
    by (cases te) (auto simp: uplink_act_def)
next
  case (UlServer x)
  with assms(2) show ?thesis
    by (auto simp: uplink_act_def routed_set_link link_update_def dest!: run_pump_map split: if_splits)
      (auto simp: routed_def ul_sessions_def)
next
  case (UlReceive j)
  with assms(2) show ?thesis
    by (auto simp: uplink_act_def ul_receive_def upstream_receive_def routed_def ul_sessions_def ul_set_link_def ul_link_def
        exec_bind_eq_Ret dest!: receive_map split: option.splits exec.splits prod.splits if_splits)
next
  case (UlDeliver j)
  with assms(2) show ?thesis
    by (auto simp: uplink_act_def ul_deliver_def routed_def ul_sessions_def ul_link_def Let_def dp_step.simps
        split: option.splits bool.splits prod.splits if_splits)
next
  case (UlTaskEnds j)
  with assms(2) show ?thesis by (auto simp: uplink_act_def routed_def ul_sessions_def ul_link_def split: if_splits)
qed

lemma release_fold_routed:
  assumes "uplink_inv lm parse_addr show_addr M I u" "\<forall>k\<in>set ks. k < length (ul_opened u)"
    and "routed (fold (\<lambda>k v. ul_set_link (link_update (drop_conn k) (ul_link v)) v) ks u) k"
  shows "routed u k \<and> k \<notin> set ks"
  using assms
proof (induction ks arbitrary: u)
  case (Cons j ks)
  let ?u = "ul_set_link (link_update (drop_conn j) (ul_link u)) u"
  have "uplink_inv lm parse_addr show_addr M I ?u" using release_fold_inv [OF Cons.prems(1), of "[j]"] Cons.prems(2) by simp
  from Cons.IH [OF this] Cons.prems(2,3) have r: "routed ?u k" "k \<notin> set ks" by simp_all
  obtain s where s: "cl_udp (link_client (ul_link u)) = Some s" "udp_inv s"
    using Cons.prems(1) by (auto simp: uplink_inv_def link_inv_def sess_from_def)
  from r(1) s(1) obtain i where i: "sess_map (drop_conn j s) i = Some k"
    by (auto simp: routed_set_link link_update_def)
  then have m: "sess_map s i = Some k" "i \<noteq> conn_id (conns s ! j)"
    by (auto simp: drop_conn_def close_session_def Let_def split: if_splits)
  from m(1) s(2) have "conn_id (conns s ! k) = i" by (simp add: udp_inv_def)
  with m r(2) s(1) show ?case by (auto simp: routed_def ul_sessions_def)
qed simp

lemma release_fold_held: "held (fold (\<lambda>k v. ul_set_link (link_update (drop_conn k) (ul_link v)) v) ks u) = held u"
  by (induction ks arbitrary: u) auto

lemma uplink_step_leak_free:
  assumes inv: "uplink_inv lm parse_addr show_addr M I u" and free: "leak_free u"
    and "\<And>a. length (show_addr a) < 2 ^ 62" "carried_by e \<subseteq> M" "inbound_of e \<subseteq> I"
  shows "leak_free (uplink_step env parse_addr show_addr e u)"
  unfolding leak_free_def
proof (intro allI impI)
  fix k
  assume k: "routed (uplink_step env parse_addr show_addr e u) k"
  let ?u = "uplink_act env parse_addr show_addr e u"
  let ?ks = "filter (\<lambda>k. held u k \<and> \<not> held ?u k) [0..<session_total (ul_link u)]"
  obtain s where s: "cl_udp (link_client (ul_link u)) = Some s" "map fst (ul_opened u) = [0..<length (conns s)]" "udp_inv s"
    using inv by (auto simp: uplink_inv_def link_inv_def sess_from_def)
  have total: "session_total (ul_link u) = length (conns s)" by (simp add: session_total_def s(1))
  from arg_cong [OF s(2), of length] have "\<forall>k\<in>set ?ks. k < length (ul_opened ?u)"
    using uplink_act_opened [of env parse_addr show_addr e u] by (auto simp: total)
  from release_fold_routed [OF uplink_act_inv [OF inv assms(3-5)] this k [unfolded uplink_step_def release_def]]
  have r: "routed ?u k" "k \<notin> set ?ks" by blast+
  have "tunnel_inv lm (ul_tunnel u)" using inv by (simp add: uplink_inv_def)
  from uplink_act_routed [OF this r(1)] have "held ?u k"
  proof
    assume ru: "routed u k"
    then have "k < length (conns s)" using s(1,3) by (auto simp: routed_def ul_sessions_def udp_inv_def)
    moreover have "held u k" using free ru by (simp add: leak_free_def)
    ultimately show ?thesis using r(2) by (auto simp: total)
  qed
  then show "held (uplink_step env parse_addr show_addr e u) k"
    by (simp add: uplink_step_def release_def release_fold_held)
qed

lemma uplink_run_leak_free:
  assumes "uplink_inv lm parse_addr show_addr M I u" "leak_free u" "\<And>a. length (show_addr a) < 2 ^ 62"
    and "\<forall>e\<in>set es. carried_by e \<subseteq> M \<and> inbound_of e \<subseteq> I"
  shows "leak_free (fold (uplink_step env parse_addr show_addr) es u)"
  using assms(1,2,4)
proof (induction es arbitrary: u)
  case (Cons e es)
  have e: "carried_by e \<subseteq> M" "inbound_of e \<subseteq> I" using Cons.prems(3) by auto
  from Cons.IH [OF uplink_step_inv [OF Cons.prems(1) assms(3) e] uplink_step_leak_free [OF Cons.prems(1,2) assms(3) e]]
    Cons.prems(3) show ?case by simp
qed simp

section \<open>One exchange\<close>

lemma uplink_step_quiet:
  assumes "uplink_act env parse_addr show_addr e u = u'" "\<And>k. held u k \<Longrightarrow> held u' k"
  shows "uplink_step env parse_addr show_addr e u = u'"
  using assms by (simp add: uplink_step_def release_def)

text \<open>A reply in one datagram, from the connection to the stack.\<close>

lemma reply_delivered:
  assumes u: "ul_tasks u k = Some r" "rt_pending r = None" "cl_udp (link_client (ul_link u)) = Some s"
      "tn_writer (ul_tunnel u) = w" "running (tn_loop (ul_tunnel u))"
    and s: "\<not> sess_closed s" "k < length (conns s)" "sess_map s (session_id m) = Some k" "queue (conns s ! k) = []"
      "receiver_alive (conns s ! k)"
    and m: "udp_ok m" "frag_count m \<le> 1" "parse_addr (addr m) = Some a" "is_ipv4 (fst a) = is_ipv4 (fst (rt_src r))"
    and w: "alive w" "waiting w = []"
    and u': "u' = fold (uplink_step env parse_addr show_addr)
      [UlServer (Inr (udp_wire m)), UlReceive k, UlDeliver k, UlTunnel (WriterRuns True)] u"
  shows "emitted (tn_writer (ul_tunnel u')) = emitted w @ [(data m, a, rt_src r)] \<and>
    link_wire (ul_link u') = link_wire (ul_link u) \<and>
    dp_counters (tn_loop (ul_tunnel u')) = deliver_count (data m) (dp_counters (tn_loop (ul_tunnel u)))"
proof -
  let ?l = "ul_link u" and ?c = "conns s ! k" and ?step = "uplink_step env parse_addr show_addr"
  let ?sess = "\<lambda>q. s\<lparr>conns := (conns s)[k := ?c\<lparr>queue := q\<rparr>]\<rparr>"
  let ?link = "\<lambda>q. ?l\<lparr>link_client := (link_client ?l)\<lparr>cl_udp := Some (?sess q)\<rparr>\<rparr>"
  have p: "run_pump [Inr (udp_wire m)] s = ?sess [m]"
    using s by (simp add: run_pump.simps [of "_ # _"] run_pump.simps [of "[]"] parse_udp_wire [OF m(1)] feed_session_def
        UDP_MESSAGE_CHAN_SIZE_def Let_def)
  have "uplink_act env parse_addr show_addr (UlServer (Inr (udp_wire m))) u = ul_set_link (?link [m]) u"
    using s(1) u(3) p by (simp add: uplink_act_def link_update_def)
  then have u1: "?step (UlServer (Inr (udp_wire m))) u = ul_set_link (?link [m]) u"
    by (rule uplink_step_quiet) simp
  have rc: "receive (le_checked env) k (?sess [m]) = Ret (?sess [], Got (data m) (addr m))"
    using s(2) m(2) by (simp add: receive_def feed_def Let_def)
  let ?r = "r\<lparr>rt_pending := Some (a, data m)\<rparr>"
  let ?u2 = "(ul_set_link (?link []) u)\<lparr>ul_tasks := (ul_tasks u)(k \<mapsto> ?r)\<rparr>"
  have "uplink_act env parse_addr show_addr (UlReceive k) (ul_set_link (?link [m]) u) = ?u2"
    using u(1-3) rc m(3) by (simp add: uplink_act_def ul_receive_def upstream_receive_def ul_set_link_def ul_link_def)
  moreover have "held (ul_set_link (?link [m]) u) j \<Longrightarrow> held ?u2 j" for j
    using u(1) by (auto simp: held_def ul_nat_def ul_set_link_def)
  ultimately have u2: "?step (UlReceive k) (ul_set_link (?link [m]) u) = ?u2"
    by (rule uplink_step_quiet)
  let ?x = "(rt_src r, a, data m)"
  let ?w3 = "w\<lparr>waiting := [deliver_reply ?x]\<rparr>"
  have send: "udp_send (deliver_reply ?x) w = (Some True, ?w3)" using w by (simp add: udp_send_def REPLY_CHANNEL_def)
  define t2 where "t2 = ul_tunnel ?u2"
  have t2: "tn_writer t2 = w" "running (tn_loop t2)" "dp_counters (tn_loop t2) = dp_counters (tn_loop (ul_tunnel u))"
    "dp_client (tn_loop t2) = ?link []" "dp_sessions (tn_loop t2) = dp_sessions (tn_loop (ul_tunnel u))"
    using u(4,5) by (simp_all add: t2_def ul_set_link_def)
  define t3 where "t3 = t2\<lparr>tn_loop := (tn_loop t2)\<lparr>dp_counters := deliver_count (data m) (dp_counters (tn_loop t2))\<rparr>,
      tn_writer := ?w3\<rparr>"
  let ?u3 = "?u2\<lparr>ul_tunnel := t3, ul_tasks := (ul_tasks u)(k \<mapsto> r\<lparr>rt_pending := None\<rparr>)\<rparr>"
  have "tunnel_step upstream_create (upstream_send env) show_addr (Deliver ?x) t2 = t3"
    using send t2 by (simp add: t3_def dp_step.simps)
  then have "uplink_act env parse_addr show_addr (UlDeliver k) ?u2 = ?u3"
    using send t2(1) u(2) by (simp add: uplink_act_def ul_deliver_def Let_def t2_def [symmetric])
  moreover have "held ?u2 j \<Longrightarrow> held ?u3 j" for j
    using t2(5) by (auto simp: held_def ul_nat_def t3_def t2_def [symmetric])
  ultimately have u3: "?step (UlDeliver k) ?u2 = ?u3" by (rule uplink_step_quiet)
  let ?t4 = "t3\<lparr>tn_writer := ?w3\<lparr>waiting := [], emitted := emitted w @ [deliver_reply ?x]\<rparr>\<rparr>"
  have "tunnel_step upstream_create (upstream_send env) show_addr (WriterRuns True) t3 = ?t4"
    using w m(4) by (simp add: t3_def writer_turn_def same_family_def)
  then have "uplink_act env parse_addr show_addr (UlTunnel (WriterRuns True)) ?u3 = ?u3\<lparr>ul_tunnel := ?t4\<rparr>"
    by (simp add: uplink_act_def ul_tunnel_step_def fresh_sub ul_nat_def)
  moreover have "held ?u3 j \<Longrightarrow> held (?u3\<lparr>ul_tunnel := ?t4\<rparr>) j" for j
    by (simp add: held_def ul_nat_def)
  ultimately have "?step (UlTunnel (WriterRuns True)) ?u3 = ?u3\<lparr>ul_tunnel := ?t4\<rparr>"
    by (rule uplink_step_quiet)
  then have "u' = ?u3\<lparr>ul_tunnel := ?t4\<rparr>" by (simp add: u' u1 u2 u3)
  then show ?thesis using t2(3,4) by (simp add: t3_def ul_link_def)
qed

text \<open>A connection that takes datagrams of up to 14 bytes, for the witnesses.\<close>

definition sample_link :: link_env where
  "sample_link = \<lparr>le_checked = True, le_quic = (\<lambda>_. quic_limit 14), le_max = (\<lambda>_. Some 14), le_rng = (\<lambda>_ k n. 0)\<rparr>"

text \<open>The first datagram of a tunnel.\<close>

definition first_session :: sessions where
  "first_session = snd (new_udp manager_new)"

lemma first_datagram:
  assumes "spawn stack_builder (link_new cl) c = Inr t0" "cl_udp cl = Some manager_new" "0 < max_udp_sessions (dp_limits c)"
    and send: "conn_send (le_checked env) (le_quic env 0) (le_max env 0) (le_rng env 0) 1 (replicate MAX_UDP_SIZE 0) d
      (show_addr dst) = Ret (buf, ds, Inr ())"
    and u1: "u1 = uplink_step env parse_addr show_addr (UlTunnel (LoopEvent (Inbound (Some (d, src, dst)) now))) (uplink_new t0)"
  shows "ul_tasks u1 0 = Some \<lparr>rt_src = src, rt_pending = None\<rparr>" "cl_udp (link_client (ul_link u1)) = Some first_session"
    "tn_writer (ul_tunnel u1) = writer_new" "running (tn_loop (ul_tunnel u1))"
    "link_wire (ul_link u1) = map (Pair 0) ds"
    "dp_counters (tn_loop (ul_tunnel u1)) = counters_new\<lparr>stats_tx := len_u64 (length d), udp_sessions := 1\<rparr>"
proof -
  let ?l1 = "(link_new cl)\<lparr>link_client := cl\<lparr>cl_udp := Some first_session\<rparr>, link_bufs := (\<lambda>_. [])(0 := replicate MAX_UDP_SIZE 0)\<rparr>"
  let ?l2 = "?l1\<lparr>link_bufs := (link_bufs ?l1)(0 := buf), link_wire := map (Pair 0) ds, link_calls := 1\<rparr>"
  have create: "upstream_create (link_new cl) = (Some 0, ?l1)"
    using assms(2) by (simp add: upstream_create_def link_new_def client_create_def client_udp_def first_session_def
        new_udp_def manager_new_def Let_def)
  have first: "conns first_session ! 0 = \<lparr>conn_id = 1, queue = [], conn_defragger = defragger_default, receiver_alive = True\<rparr>"
    by (simp add: first_session_def new_udp_def manager_new_def)
  have sent: "upstream_send env 0 d (show_addr dst) ?l1 = (True, ?l2)"
    using send first by (simp add: upstream_send_def link_new_def)
  have t0: "tn_loop t0 = dp_start (dp_limits c) (link_new cl)" "tn_writer t0 = writer_new" "tn_shutdown t0 = False"
    using assms(1) by (auto simp: spawn_def and_then_eq_Inr)
  let ?n = "\<lparr>nat_map = [(src, \<lparr>entry_conn = 0, last_activity = now\<rparr>)], nat_max = max_udp_sessions (dp_limits c)\<rparr>"
  let ?k = "counters_new\<lparr>stats_tx := len_u64 (length d), udp_sessions := 1\<rparr>"
  let ?s = "(dp_start (dp_limits c) (link_new cl))\<lparr>dp_counters := ?k, dp_sessions := ?n, dp_client := ?l2\<rparr>"
  have "forward upstream_create (upstream_send env) show_addr src dst d now (link_new cl) (sessions_new (max_udp_sessions (dp_limits c))) =
      (Sent True, ?l2, ?n)"
    using create sent assms(3) by (simp add: forward_def get_or_create_def sessions_new_def)
  then have "dp_step upstream_create (upstream_send env) show_addr (Inbound (Some (d, src, dst)) now) (tn_loop t0) = ?s"
    by (simp add: t0(1) dp_step.simps dp_start_def udp_inbound_def count_outcome_def counters_new_def)
  then have "tunnel_step upstream_create (upstream_send env) show_addr (LoopEvent (Inbound (Some (d, src, dst)) now)) t0 =
      t0\<lparr>tn_loop := ?s\<rparr>"
    by (simp add: enabled_def dp_start_def)
  then have "uplink_act env parse_addr show_addr (UlTunnel (LoopEvent (Inbound (Some (d, src, dst)) now))) (uplink_new t0) =
      \<lparr>ul_tunnel = t0\<lparr>tn_loop := ?s\<rparr>, ul_tasks = [0 \<mapsto> \<lparr>rt_src = src, rt_pending = None\<rparr>], ul_opened = [(0, src)]\<rparr>"
    by (simp add: uplink_act_def ul_tunnel_step_def uplink_new_def ul_nat_def t0(1) dp_start_def sessions_new_def fresh_sessions_def)
  moreover have "\<not> held (uplink_new t0) j" for j
    by (simp add: held_def uplink_new_def ul_nat_def t0(1) dp_start_def sessions_new_def)
  ultimately have "u1 = \<lparr>ul_tunnel = t0\<lparr>tn_loop := ?s\<rparr>, ul_tasks = [0 \<mapsto> \<lparr>rt_src = src, rt_pending = None\<rparr>], ul_opened = [(0, src)]\<rparr>"
    unfolding u1 by (blast intro: uplink_step_quiet)
  then show "ul_tasks u1 0 = Some \<lparr>rt_src = src, rt_pending = None\<rparr>" "cl_udp (link_client (ul_link u1)) = Some first_session"
    "tn_writer (ul_tunnel u1) = writer_new" "running (tn_loop (ul_tunnel u1))"
    "link_wire (ul_link u1) = map (Pair 0) ds" "dp_counters (tn_loop (ul_tunnel u1)) = ?k"
    using t0(2) by (simp_all add: ul_link_def dp_start_def)
qed

section \<open>Properties\<close>

text \<open>
  C4. The UDP flows of different apps stay apart from end to end, under any interleaving of the
  tunnel, the connection and the reply tasks and however the connection answers: each session is
  opened for one app; a datagram that leaves is a piece of a datagram some app sent, to the address
  it was sent to and under the number of a session opened for that app; a reply the stack is given
  for an app was put together from datagrams the server sent under the number of a session opened
  for that app, and comes from the address they name; and as long as fewer than 2^32 sessions were
  opened no two of them have the same number.
\<close>

theorem udp_flows_isolated:
  assumes "spawn stack_builder (link_new cl) c = Inr t0" "cl_udp cl = Some manager_new"
    and "\<And>a. length (show_addr a) < 2 ^ 62"
    and "u = fold (uplink_step env parse_addr show_addr) es (uplink_new t0)"
  shows "map fst (ul_opened u) = [0..<session_total (ul_link u)] \<and>
    (\<forall>(k, w)\<in>set (link_wire (ul_link u)). \<exists>d src dst now f x y.
       UlTunnel (LoopEvent (Inbound (Some (d, src, dst)) now)) \<in> set es \<and> (k, src) \<in> set (ul_opened u) \<and>
       w = udp_wire f \<and> session_id f = session_no k \<and> addr f = show_addr dst \<and> d = x @ data f @ y) \<and>
    (\<forall>(d, a, src)\<in>set (emitted (tn_writer (ul_tunnel u))). \<exists>k x.
       (k, src) \<in> set (ul_opened u) \<and> d = data x \<and> parse_addr (addr x) = Some a \<and>
       assembled_from {m. session_id m = session_no k \<and>
         (\<exists>b. UlServer (Inr b) \<in> set es \<and> parse_udp_message b = Inr m)} x) \<and>
    (length (ul_opened u) < 2 ^ 32 \<longrightarrow> distinct (map (session_no \<circ> fst) (ul_opened u)))"
proof -
  let ?M = "\<Union>(carried_by ` set es)" and ?I = "\<Union>(inbound_of ` set es)"
  have "uplink_inv (dp_limits c) parse_addr show_addr ?M ?I u"
    unfolding assms(4) by (intro uplink_run_inv uplink_new_inv [OF assms(1,2)] assms(3)) auto
  then have l: "link_inv show_addr ?M ?I (ul_opened u) (ul_link u)"
    and w: "\<forall>x\<in>set (emitted (tn_writer (ul_tunnel u))). reply_ok parse_addr ?M (set (ul_opened u)) x"
    by (auto simp: uplink_inv_def)
  have idx: "map fst (ul_opened u) = [0..<session_total (ul_link u)]"
    using l by (auto simp: link_inv_def session_total_def)
  have I: "\<exists>now. UlTunnel (LoopEvent (Inbound (Some p) now)) \<in> set es" if "p \<in> ?I" for p
    using that by (auto simp: inbound_of_iff)
  have M: "own ?M i = {m. session_id m = i \<and> (\<exists>b. UlServer (Inr b) \<in> set es \<and> parse_udp_message b = Inr m)}" for i
    by (auto simp: own_def carried_by_iff)
  have sent: "\<exists>d src dst now f x y.
       UlTunnel (LoopEvent (Inbound (Some (d, src, dst)) now)) \<in> set es \<and> (k, src) \<in> set (ul_opened u) \<and>
       b = udp_wire f \<and> session_id f = session_no k \<and> addr f = show_addr dst \<and> d = x @ data f @ y"
    if "(k, b) \<in> set (link_wire (ul_link u))" for k b
  proof -
    have "sent_ok show_addr ?I (set (ul_opened u)) (k, b)" using l that by (auto simp: link_inv_def)
    then obtain d src dst f x y where f: "(d, src, dst) \<in> ?I" "(k, src) \<in> set (ul_opened u)" "b = udp_wire f"
      "session_id f = session_no k" "addr f = show_addr dst" "d = x @ data f @ y"
      unfolding sent_ok_def piece_of_def fst_conv snd_conv by blast
    from I [OF f(1)] obtain now where "UlTunnel (LoopEvent (Inbound (Some (d, src, dst)) now)) \<in> set es" ..
    with f(2-) show ?thesis by (intro exI conjI)
  qed
  have got: "\<exists>k x. (k, src) \<in> set (ul_opened u) \<and> d = data x \<and> parse_addr (addr x) = Some a \<and>
       assembled_from {m. session_id m = session_no k \<and>
         (\<exists>b. UlServer (Inr b) \<in> set es \<and> parse_udp_message b = Inr m)} x"
    if "(d, a, src) \<in> set (emitted (tn_writer (ul_tunnel u)))" for d a src
  proof -
    have "reply_ok parse_addr ?M (set (ul_opened u)) (d, a, src)" using w that by blast
    then show ?thesis unfolding reply_ok_def fst_conv snd_conv M by blast
  qed
  show ?thesis by (intro conjI idx impI session_no_inj [OF idx]) (blast intro: sent, blast intro: got)
qed

theorem udp_flows_isolated_witness:
  "\<exists>t0 u. spawn sample_stack (link_new sample_client) (dp_config_new 1500) = Inr t0 \<and>
     u = fold (uplink_step sample_link (\<lambda>_. Some (V4 3, 4)) (\<lambda>_. ''h:4''))
       [UlTunnel (LoopEvent (Inbound (Some ([5, 6], (V4 1, 2), (V4 3, 4))) 0))] (uplink_new t0) \<and>
     map fst (ul_opened u) = [0..<session_total (ul_link u)]"
proof -
  obtain t0 :: "(link, nat) tunnel" where t0: "spawn sample_stack (link_new sample_client) (dp_config_new 1500) = Inr t0"
    by (auto simp: spawn_def build_def sample_stack_def ok_or_else_def)
  have cl: "cl_udp sample_client = Some manager_new" by (simp add: sample_client_def)
  have "length ''h:4'' < 2 ^ 62" by simp
  from udp_flows_isolated [OF t0 cl this refl] t0 show ?thesis by blast
qed

text \<open>
  C9. An exchange works: the first datagram of an app through a new tunnel opens a session and leaves
  in datagrams no longer than the connection takes, which a server puts together to exactly the
  payload and its destination; the server's answer on that session reaches the app's stack as
  it is, sourced at the address it names and destined for the app; and the counters show one
  session and the bytes of the two payloads.
\<close>

theorem udp_exchange:
  assumes "spawn stack_builder (link_new cl) c = Inr t0" "cl_udp cl = Some manager_new" "0 < max_udp_sessions (dp_limits c)"
    and "le_quic env 0 = quic_limit mx" "le_max env 0 = Some mx" "rng_ok (le_rng env 0)"
    and "m = whole_message 1 d (show_addr dst)" "udp_ok m" "udp_size m \<le> MAX_UDP_SIZE" "header_size m < mx"
    and "div_ceil (length d) (mx - header_size m) < 256"
    and "udp_ok reply" "session_id reply = 1" "frag_count reply \<le> 1" "parse_addr (addr reply) = Some a"
    and "is_ipv4 (fst a) = is_ipv4 (fst src)"
    and "u = fold (uplink_step env parse_addr show_addr)
      [UlTunnel (LoopEvent (Inbound (Some (d, src, dst)) now)), UlServer (Inr (udp_wire reply)), UlReceive 0, UlDeliver 0,
       UlTunnel (WriterRuns True)] (uplink_new t0)"
  shows "\<exists>fs df. map parse_udp_message (map snd (link_wire (ul_link u))) = map Inr fs \<and>
    (\<forall>w\<in>set (map snd (link_wire (ul_link u))). length w \<le> mx) \<and>
    receive_loop (le_checked env) True defragger_default fs = Ret (df, [], Got d (show_addr dst)) \<and>
    emitted (tn_writer (ul_tunnel u)) = [(data reply, a, src)] \<and>
    handle_stats (ul_tunnel u) =
      counters_new\<lparr>stats_tx := len_u64 (length d), stats_rx := len_u64 (length (data reply)), udp_sessions := 1\<rparr>"
proof -
  have fits: "udp_size m \<le> length (replicate MAX_UDP_SIZE (0 :: u8))" using assms(9) by simp
  obtain buf fs where
    send: "conn_send (le_checked env) (quic_limit mx) (Some mx) (le_rng env 0) 1 (replicate MAX_UDP_SIZE 0) d (show_addr dst) =
      Ret (buf, map udp_wire fs, Inr ())"
    and fs: "\<forall>f\<in>set fs. udp_ok f \<and> udp_size f \<le> mx"
    and how: "if udp_size m \<le> mx then fs = [m]
      else frag_udp_message (le_checked env) (m\<lparr>packet_id := random_packet_id (le_rng env 0)\<rparr>) mx = Ret fs"
    using conn_send_cases [OF assms(8) fits assms(10,7,11), of "le_checked env" "le_rng env 0"] by blast
  let ?step = "uplink_step env parse_addr show_addr"
  define u1 where "u1 = ?step (UlTunnel (LoopEvent (Inbound (Some (d, src, dst)) now))) (uplink_new t0)"
  note first = first_datagram [where env = env and d = d and show_addr = show_addr and dst = dst, OF assms(1-3) _ u1_def,
      unfolded assms(4,5), OF send]
  have s: "\<not> sess_closed first_session" "0 < length (conns first_session)" "sess_map first_session (session_id reply) = Some 0"
    "queue (conns first_session ! 0) = []" "receiver_alive (conns first_session ! 0)"
    using assms(13) by (simp_all add: first_session_def new_udp_def manager_new_def)
  have u: "u = fold ?step [UlServer (Inr (udp_wire reply)), UlReceive 0, UlDeliver 0, UlTunnel (WriterRuns True)] u1"
    by (simp add: assms(17) u1_def)
  have "alive writer_new" "waiting writer_new = []" "emitted writer_new = []" by (simp_all add: writer_new_def)
  with reply_delivered [OF first(1) _ first(2-4) s assms(12,14,15) _ _ _ u] first(5,6) assms(16)
  have r: "emitted (tn_writer (ul_tunnel u)) = [(data reply, a, src)]" "link_wire (ul_link u) = map (Pair 0) (map udp_wire fs)"
    "handle_stats (ul_tunnel u) =
      counters_new\<lparr>stats_tx := len_u64 (length d), stats_rx := len_u64 (length (data reply)), udp_sessions := 1\<rparr>"
    by (simp_all add: handle_stats_def deliver_count_def counters_new_def)
  have wire: "map snd (link_wire (ul_link u)) = map udp_wire fs" by (simp add: r(2))
  have "\<forall>w\<in>set (map udp_wire fs). length w \<le> mx" using fs length_udp_wire by (auto simp: udp_ok_def)
  moreover have "map parse_udp_message (map udp_wire fs) = map Inr fs" using fs parse_udp_wire by simp
  ultimately show ?thesis
    using sent_received [OF assms(7,6,10,11) how, of True] r(1,3) unfolding wire by blast
qed

theorem udp_exchange_witness:
  "\<exists>t0 u fs df. spawn sample_stack (link_new sample_client) (dp_config_new 1500) = Inr t0 \<and>
     u = fold (uplink_step sample_link (\<lambda>_. Some (V4 3, 53)) (\<lambda>_. ''h:53''))
       [UlTunnel (LoopEvent (Inbound (Some ([1, 2, 3], (V4 1, 2), (V4 3, 53))) 0)),
        UlServer (Inr (udp_wire (whole_message 1 [9] ''h:53''))), UlReceive 0, UlDeliver 0, UlTunnel (WriterRuns True)]
       (uplink_new t0) \<and>
     map parse_udp_message (map snd (link_wire (ul_link u))) = map Inr fs \<and>
     receive_loop True True defragger_default fs = Ret (df, [], Got [1, 2, 3] ''h:53'') \<and>
     emitted (tn_writer (ul_tunnel u)) = [([9], (V4 3, 53), (V4 1, 2))]"
proof -
  obtain t0 :: "(link, nat) tunnel" where t0: "spawn sample_stack (link_new sample_client) (dp_config_new 1500) = Inr t0"
    by (auto simp: spawn_def build_def sample_stack_def ok_or_else_def)
  let ?m = "whole_message 1 [1, 2, 3] ''h:53''" and ?reply = "whole_message 1 [9] ''h:53''"
  have h: "header_size ?m = 13" "udp_size ?m = 16"
    by (simp_all add: header_size_def udp_size_def varint_len_def MAX_VAR_INT1_def whole_message_def)
  have ok: "udp_ok ?m" "udp_ok ?reply" "session_id ?reply = 1" "frag_count ?reply \<le> 1" "data ?reply = [9]"
    by (simp_all add: udp_ok_def is_str_def as_bytes_def whole_message_def)
  have env: "le_quic sample_link 0 = quic_limit 14" "le_max sample_link 0 = Some 14" "rng_ok (le_rng sample_link 0)"
    "le_checked sample_link"
    by (simp_all add: sample_link_def rng_ok_def)
  have cl: "cl_udp sample_client = Some manager_new" "0 < max_udp_sessions (dp_limits (dp_config_new 1500))"
    by (simp_all add: sample_client_def dp_config_new_def limits_default_def)
  have sz: "udp_size ?m \<le> MAX_UDP_SIZE" "header_size ?m < 14" "div_ceil (length [1, 2, 3 :: u8]) (14 - header_size ?m) < 256"
    by (simp_all add: h div_ceil_def)
  have a: "(\<lambda>_. Some (V4 3, 53)) (addr ?reply) = Some (V4 3, 53 :: u16)" "is_ipv4 (fst (V4 3, 53 :: u16)) = is_ipv4 (fst (V4 1, 2 :: u16))"
    by simp_all
  from udp_exchange [where show_addr = "\<lambda>_. ''h:53''" and dst = "(V4 3, 53)" and now = 0,
      OF t0 cl env(1-3) refl ok(1) sz ok(2-4) a refl, unfolded ok(5) eqTrueI [OF env(4)]] t0
  show ?thesis by blast
qed



end
