(* ===== verification/SendLock.thy ===== *)
theory SendLock
  imports Upstream
begin

text \<open>
  Concurrent calls of \<^verbatim>\<open>UdpConn::send\<close> on one session, at the granularity at which they can
  interfere. All callers share the scratch buffer of \<^verbatim>\<open>crates/hysteria/src/client/udp.rs\<close>, into
  which \<^verbatim>\<open>QuinnUdpIo::send_message\<close> serializes a message before it hands the filled bytes to the
  connection; between the two another caller may run. The calls, their lock, the buffer and the
  datagrams that left are the state of a step relation whose steps are the acquisition of the
  mutex, one \<^verbatim>\<open>serialize\<close>, one \<^verbatim>\<open>send_datagram\<close>, one turn of the fragment loop and the drop of the
  guard. The theorems are that every interleaving is one of atomic calls, in the order in which
  the mutex was taken, and that every schedule ends with all calls answered.
\<close>

section \<open>The step relation\<close>

text \<open>A call: its arguments, and what the connection and the random source answer it.\<close>

record send_call =
  call_data :: bytes
  call_addr :: string
  call_quic :: "bytes \<Rightarrow> datagram_result"
  call_max :: "nat option"
  call_rng :: rng

text \<open>
  Where a call stands. The work tells which \<^verbatim>\<open>send_message\<close> of the body is running: the one on
  the whole message, or one of the loop, with the fragments after it. A call leaves with a result
  or by unwinding; either way its guard is dropped.
\<close>

datatype work = Whole | Fragments "udp_message list"

datatype sender =
    Waiting
  | Sending work udp_message
  | Filled work nat
  | Looping "udp_message list"
  | Leaving "(send_error + unit) exec"
  | Done "(send_error + unit) exec"

record send_state =
  send_lock :: "nat option"
  send_buf :: bytes
  wire :: "bytes list"
  senders :: "sender list"

definition call_message :: "u32 \<Rightarrow> send_call \<Rightarrow> udp_message" where
  "call_message i c = whole_message i (call_data c) (call_addr c)"

text \<open>\<^verbatim>\<open>send_datagram\<close> and the match on its answer.\<close>

definition hand_over ::
  "(bytes \<Rightarrow> datagram_result) \<Rightarrow> nat option \<Rightarrow> bytes \<Rightarrow> bytes option \<times> (send_error + unit)" where
  "hand_over q max_size x =
     (case q x of
        DatagramOk \<Rightarrow> (Some x, Inr ())
      | DatagramTooLarge \<Rightarrow>
          (case max_size of
             Some mx \<Rightarrow> (None, Inl (TooLarge mx))
           | None \<Rightarrow>
               (None, Inl (SendIo (OtherIo ''datagram too large but max datagram size is unknown''))))
      | DatagramErr e \<Rightarrow> (None, Inl (SendIo (OtherIo e))))"

text \<open>What the body of \<^verbatim>\<open>send\<close> does with the result of a \<^verbatim>\<open>send_message\<close>.\<close>

fun on_result :: "bool \<Rightarrow> u32 \<Rightarrow> send_call \<Rightarrow> work \<Rightarrow> send_error + unit \<Rightarrow> sender" where
  "on_result checked i c Whole (Inl (TooLarge mx)) =
     (case frag_udp_message checked ((call_message i c)\<lparr>packet_id := random_packet_id (call_rng c)\<rparr>) mx of
        Panic \<Rightarrow> Leaving Panic
      | Ret fs \<Rightarrow> Looping fs)"
| "on_result checked i c Whole r = Leaving (Ret r)"
| "on_result checked i c (Fragments fs) (Inl e) = Leaving (Ret (Inl e))"
| "on_result checked i c (Fragments fs) (Inr u) = Looping fs"

definition sent_list :: "bytes option \<Rightarrow> bytes list" where
  "sent_list sent = (case sent of Some x \<Rightarrow> [x] | None \<Rightarrow> [])"

definition set_sender :: "nat \<Rightarrow> sender \<Rightarrow> send_state \<Rightarrow> send_state" where
  "set_sender t p s = s\<lparr>senders := (senders s)[t := p]\<rparr>"

inductive send_step :: "bool \<Rightarrow> u32 \<Rightarrow> send_call list \<Rightarrow> send_state \<Rightarrow> send_state \<Rightarrow> bool"
  for checked :: bool and i :: u32 and cs :: "send_call list" where
  acquire:
    "\<lbrakk>t < length (senders s); senders s ! t = Waiting; send_lock s = None\<rbrakk> \<Longrightarrow>
     send_step checked i cs s
       (set_sender t (Sending Whole (call_message i (cs ! t))) (s\<lparr>send_lock := Some t\<rparr>))"
| serialized:
    "\<lbrakk>t < length (senders s); senders s ! t = Sending w m; serialize m (send_buf s) = Ret (buf, Some n)\<rbrakk> \<Longrightarrow>
     send_step checked i cs s (set_sender t (Filled w n) (s\<lparr>send_buf := buf\<rparr>))"
| declined:
    "\<lbrakk>t < length (senders s); senders s ! t = Sending w m; serialize m (send_buf s) = Ret (buf, None)\<rbrakk> \<Longrightarrow>
     send_step checked i cs s
       (set_sender t (on_result checked i (cs ! t) w (Inr ())) (s\<lparr>send_buf := buf\<rparr>))"
| unwound:
    "\<lbrakk>t < length (senders s); senders s ! t = Sending w m; serialize m (send_buf s) = Panic\<rbrakk> \<Longrightarrow>
     send_step checked i cs s (set_sender t (Leaving Panic) s)"
| handed:
    "\<lbrakk>t < length (senders s); senders s ! t = Filled w n;
      hand_over (call_quic (cs ! t)) (call_max (cs ! t)) (take n (send_buf s)) = (sent, r)\<rbrakk> \<Longrightarrow>
     send_step checked i cs s
       (set_sender t (on_result checked i (cs ! t) w r) (s\<lparr>wire := wire s @ sent_list sent\<rparr>))"
| next_frag:
    "\<lbrakk>t < length (senders s); senders s ! t = Looping (f # fs)\<rbrakk> \<Longrightarrow>
     send_step checked i cs s (set_sender t (Sending (Fragments fs) f) s)"
| all_sent:
    "\<lbrakk>t < length (senders s); senders s ! t = Looping []\<rbrakk> \<Longrightarrow>
     send_step checked i cs s (set_sender t (Leaving (Ret (Inr ()))) s)"
| release:
    "\<lbrakk>t < length (senders s); senders s ! t = Leaving r\<rbrakk> \<Longrightarrow>
     send_step checked i cs s (set_sender t (Done r) (s\<lparr>send_lock := None\<rparr>))"


inductive_cases send_stepE
    [consumes 1, case_names acquire serialized declined unwound handed next_frag all_sent release]:
  "send_step checked i cs s s'"

text \<open>The session as \<^verbatim>\<open>new_udp\<close> makes it, with the calls about to take the lock.\<close>

definition sends_start :: "send_call list \<Rightarrow> send_state" where
  "sends_start cs =
     \<lparr>send_lock = None, send_buf = replicate MAX_UDP_SIZE 0, wire = [], senders = map (\<lambda>_. Waiting) cs\<rparr>"

text \<open>One call on its own, on the fresh buffer: the datagrams that leave and how it returns.\<close>

definition alone :: "bool \<Rightarrow> u32 \<Rightarrow> send_call \<Rightarrow> bytes list \<times> (send_error + unit) exec" where
  "alone checked i c =
     (case conn_send checked (call_quic c) (call_max c) (call_rng c) i (replicate MAX_UDP_SIZE 0)
             (call_data c) (call_addr c) of
        Panic \<Rightarrow> ([], Panic)
      | Ret (_, ds, r) \<Rightarrow> (ds, Ret r))"

section \<open>The scratch buffer does not show\<close>

text \<open>What a call of the sending code lets the outside see: everything but the buffer.\<close>

definition seen :: "(bytes \<times> bytes list \<times> (send_error + unit)) exec \<Rightarrow> bytes list \<times> (send_error + unit) exec" where
  "seen e = (case e of Panic \<Rightarrow> ([], Panic) | Ret (_, ds, r) \<Rightarrow> (ds, Ret r))"

lemma seen_simps [simp]: "seen Panic = ([], Panic)" "seen (Ret (buf, ds, r)) = (ds, Ret r)"
  by (simp_all add: seen_def)

lemma sent_list_simps [simp]: "sent_list None = []" "sent_list (Some x) = [x]"
  by (simp_all add: sent_list_def)

text \<open>The whole of a \<^verbatim>\<open>send_message\<close> in closed form.\<close>

lemma send_message_closed:
  assumes "length (addr m) < 2 ^ 62"
  shows "send_message q mx buf m =
    (if length buf < udp_size m then Ret (buf, None, Inr ())
     else Ret (udp_wire m @ drop (udp_size m) buf, hand_over q mx (udp_wire m)))"
  using length_udp_wire [OF assms]
  by (simp add: send_message_def serialize_wire [OF assms] hand_over_def split: datagram_result.split option.split)

lemma hand_over_sends_or_fails: "hand_over q mx x = (sent, r) \<Longrightarrow> sent = None \<or> r = Inr ()"
  by (auto simp: hand_over_def split: datagram_result.splits option.splits)

definition short_addrs :: "udp_message list \<Rightarrow> bool" where
  "short_addrs fs \<longleftrightarrow> (\<forall>f\<in>set fs. length (addr f) < 2 ^ 62)"

lemma short_addrs_simps [simp]:
  "short_addrs []" "short_addrs (f # fs) \<longleftrightarrow> length (addr f) < 2 ^ 62 \<and> short_addrs fs"
  by (auto simp: short_addrs_def)

lemma send_frags_returns:
  "short_addrs fs \<Longrightarrow> \<exists>buf' ds r. send_frags q mx buf fs = Ret (buf', ds, r)"
proof (induction fs arbitrary: buf)
  case (Cons f fs)
  let ?b = "udp_wire f @ drop (udp_size f) buf"
  obtain sent r where h: "hand_over q mx (udp_wire f) = (sent, r)" by fastforce
  from Cons.prems Cons.IH [of buf] Cons.IH [of ?b] show ?case
    by (auto simp: send_message_closed h split: sum.split)
qed simp

lemma send_frags_buffer:
  "short_addrs fs \<Longrightarrow> length buf = length buf' \<Longrightarrow>
   seen (send_frags q mx buf fs) = seen (send_frags q mx buf' fs)"
proof (induction fs arbitrary: buf buf')
  case (Cons f fs)
  have f: "length (addr f) < 2 ^ 62" and fs: "short_addrs fs" using Cons.prems by simp_all
  define b where "b = (if length buf < udp_size f then buf else udp_wire f @ drop (udp_size f) buf)"
  define b' where "b' = (if length buf' < udp_size f then buf' else udp_wire f @ drop (udp_size f) buf')"
  have len: "length b = length b'" using Cons.prems(2) by (simp add: b_def b'_def)
  obtain sent r where h: "(if length buf < udp_size f then (None, Inr ()) else hand_over q mx (udp_wire f)) = (sent, r)"
    by fastforce
  have m: "send_message q mx buf f = Ret (b, sent, r)" "send_message q mx buf' f = Ret (b', sent, r)"
    using h Cons.prems(2) by (auto simp: send_message_closed [OF f] b_def b'_def split: if_splits)
  obtain c ds u c' ds' u' where
    s: "send_frags q mx b fs = Ret (c, ds, u)" "send_frags q mx b' fs = Ret (c', ds', u')"
    using send_frags_returns [OF fs] by metis
  from Cons.IH [OF fs len] show ?case by (simp add: m s split: sum.split option.split)
qed simp

lemma frags_short:
  assumes "frag_udp_message checked ((call_message i c)\<lparr>packet_id := p\<rparr>) mx = Ret fs" "length (call_addr c) < 2 ^ 62"
  shows "short_addrs fs"
proof -
  have "piece_of i (call_data c) (call_addr c) ((call_message i c)\<lparr>packet_id := p\<rparr>)"
    by (auto simp: piece_of_def call_message_def whole_message_def intro: exI [of _ "[]"])
  from frag_udp_message_pieces [OF assms(1) this] assms(2) show ?thesis
    by (auto simp: short_addrs_def piece_of_def)
qed

section \<open>What a call still has to do\<close>

text \<open>
  The rest of a call, run without interruption from where it stands: the datagrams it will still
  hand over and how it will leave. A call past its \<^verbatim>\<open>send_message\<close> is at the loop or leaving.
\<close>

fun finish :: "send_call \<Rightarrow> bytes \<Rightarrow> sender \<Rightarrow> bytes list \<times> (send_error + unit) exec" where
  "finish c buf (Looping fs) = seen (send_frags (call_quic c) (call_max c) buf fs)"
| "finish c buf (Leaving r) = ([], r)"
| "finish c buf p = ([], Panic)"

definition emit :: "bytes list \<Rightarrow> bytes list \<times> 'r \<Rightarrow> bytes list \<times> 'r" where
  "emit ds x = (ds @ fst x, snd x)"

fun resume :: "bool \<Rightarrow> u32 \<Rightarrow> send_call \<Rightarrow> bytes \<Rightarrow> sender \<Rightarrow> bytes list \<times> (send_error + unit) exec" where
  "resume checked i c buf (Sending w m) =
     (case send_message (call_quic c) (call_max c) buf m of
        Panic \<Rightarrow> ([], Panic)
      | Ret (buf, sent, r) \<Rightarrow> emit (sent_list sent) (finish c buf (on_result checked i c w r)))"
| "resume checked i c buf (Filled w n) =
     (case hand_over (call_quic c) (call_max c) (take n buf) of
        (sent, r) \<Rightarrow> emit (sent_list sent) (finish c buf (on_result checked i c w r)))"
| "resume checked i c buf p = finish c buf p"

lemma emit_simps [simp]: "emit [] x = x" "emit ds (emit ds' x) = emit (ds @ ds') x" "emit ds (ds', r) = (ds @ ds', r)"
  by (simp_all add: emit_def)

fun short_sender :: "sender \<Rightarrow> bool" where
  "short_sender (Sending w m) \<longleftrightarrow> length (addr m) < 2 ^ 62 \<and> (\<forall>fs. w = Fragments fs \<longrightarrow> short_addrs fs)"
| "short_sender (Filled w n) \<longleftrightarrow> (\<forall>fs. w = Fragments fs \<longrightarrow> short_addrs fs)"
| "short_sender (Looping fs) \<longleftrightarrow> short_addrs fs"
| "short_sender p \<longleftrightarrow> True"

lemma short_on_result:
  assumes "\<forall>fs. w = Fragments fs \<longrightarrow> short_addrs fs" "length (call_addr c) < 2 ^ 62"
  shows "short_sender (on_result checked i c w r)"
  using assms frags_short [OF _ assms(2)]
  by (cases "(checked, i, c, w, r)" rule: on_result.cases) (auto split: exec.split)

text \<open>After a \<^verbatim>\<open>send_message\<close> a call is at the loop or leaving, and what is left shows no buffer.\<close>

lemma on_result_cases:
  obtains fs where "on_result checked i c w r = Looping fs" | x where "on_result checked i c w r = Leaving x"
proof (cases "(checked, i, c, w, r)" rule: on_result.cases)
  case (1 checked i c mx)
  then show ?thesis
    using that by (cases "frag_udp_message checked ((call_message i c)\<lparr>packet_id := random_packet_id (call_rng c)\<rparr>) mx") simp_all
qed (use that in simp_all)

lemma resume_on_result [simp]:
  "resume checked i c buf (on_result checked' i' c' w r) = finish c buf (on_result checked' i' c' w r)"
  by (rule on_result_cases [of checked' i' c' w r]) simp_all

lemma finish_buffer:
  assumes "short_sender p" "length buf = length buf'"
  shows "finish c buf p = finish c buf' p"
proof (cases p)
  case (Looping fs)
  with assms send_frags_buffer [of fs buf buf'] show ?thesis by simp
qed simp_all

text \<open>A call that has the lock starts as \<^verbatim>\<open>send\<close> on the buffer it finds, which acts as on a fresh one.\<close>

lemma resume_send:
  assumes "length (call_addr c) < 2 ^ 62"
  shows "seen (conn_send checked (call_quic c) (call_max c) (call_rng c) i buf (call_data c) (call_addr c)) =
    resume checked i c buf (Sending Whole (call_message i c))"
proof -
  let ?m = "call_message i c" and ?q = "call_quic c" and ?mx = "call_max c"
  have a: "length (addr ?m) < 2 ^ 62" using assms by (simp add: call_message_def whole_message_def)
  obtain b sent r where s: "send_message ?q ?mx buf ?m = Ret (b, sent, r)"
    using send_message_closed [OF a, of ?q ?mx buf] by (metis prod.exhaust_sel)
  have silent: "sent = None" if "r = Inl e" for e
    using s that hand_over_sends_or_fails [of ?q ?mx "udp_wire ?m" sent r]
    by (auto simp: send_message_closed [OF a] split: if_splits)
  note unfolded = conn_send_def Let_def call_message_def [symmetric] s
  show ?thesis
  proof (cases r)
    case (Inl e)
    with silent have "sent = None" by simp
    with Inl show ?thesis
      by (cases e) (simp_all add: unfolded seen_def split: exec.split)
  next
    case (Inr u)
    then show ?thesis by (simp add: unfolded sent_list_def)
  qed
qed

lemma resume_whole:
  assumes "length (call_addr c) < 2 ^ 62" "length buf = MAX_UDP_SIZE"
  shows "resume checked i c buf (Sending Whole (call_message i c)) = alone checked i c"
proof -
  let ?m = "call_message i c"
  have a: "length (addr ?m) < 2 ^ 62" using assms(1) by (simp add: call_message_def whole_message_def)
  have "finish c b (on_result checked i c Whole r) = finish c b' (on_result checked i c Whole r)"
    if "length b = length b'" for b b' r
    using finish_buffer [OF _ that] assms(1) by (simp add: short_on_result)
  note swap = this
  have "resume checked i c buf (Sending Whole ?m) = resume checked i c (replicate MAX_UDP_SIZE 0) (Sending Whole ?m)"
    (is "?l = resume _ _ _ ?z _")
  proof -
    let ?b = "udp_wire ?m @ drop (udp_size ?m) buf" and ?b' = "udp_wire ?m @ drop (udp_size ?m) ?z"
    have "length buf = length ?z" "length ?b = length ?b'" using assms(2) by simp_all
    then show ?thesis
      using swap [of buf ?z] swap [of ?b ?b'] by (simp add: send_message_closed [OF a] split: prod.split)
  qed
  also have "\<dots> = alone checked i c"
    unfolding alone_def seen_def [symmetric] resume_send [OF assms(1), symmetric] ..
  finally show ?thesis .
qed

section \<open>Every interleaving is sequential\<close>

text \<open>
  The calls answered so far, in the order in which they held the lock, account for everything on
  the wire, up to what the present holder has sent; and the holder, run on from where it stands,
  completes what it would have done alone.
\<close>

fun idle :: "sender \<Rightarrow> bool" where
  "idle Waiting \<longleftrightarrow> True"
| "idle (Done r) \<longleftrightarrow> True"
| "idle p \<longleftrightarrow> False"

fun answered :: "sender \<Rightarrow> bool" where
  "answered (Done r) \<longleftrightarrow> True"
| "answered p \<longleftrightarrow> False"

definition in_order :: "bool \<Rightarrow> u32 \<Rightarrow> send_call list \<Rightarrow> nat list \<Rightarrow> bytes list" where
  "in_order checked i cs ts = concat (map (\<lambda>t. fst (alone checked i (cs ! t))) ts)"

definition excluded :: "send_call list \<Rightarrow> send_state \<Rightarrow> bool" where
  "excluded cs s \<longleftrightarrow> length (senders s) = length cs \<and> length (send_buf s) = MAX_UDP_SIZE \<and>
     (case send_lock s of
        None \<Rightarrow> \<forall>t<length cs. idle (senders s ! t)
      | Some h \<Rightarrow> h < length cs \<and> \<not> idle (senders s ! h) \<and> short_sender (senders s ! h) \<and>
          (\<forall>t<length cs. t \<noteq> h \<longrightarrow> idle (senders s ! t)))"

definition as_alone :: "bool \<Rightarrow> u32 \<Rightarrow> send_call list \<Rightarrow> sender list \<Rightarrow> nat list \<Rightarrow> bool" where
  "as_alone checked i cs ps ts \<longleftrightarrow> (\<forall>t\<in>set ts. ps ! t = Done (snd (alone checked i (cs ! t))))"

definition linear :: "bool \<Rightarrow> u32 \<Rightarrow> send_call list \<Rightarrow> nat list \<Rightarrow> bytes list \<Rightarrow> send_state \<Rightarrow> bool" where
  "linear checked i cs ts ds s \<longleftrightarrow>
     distinct ts \<and> set ts = {t. t < length cs \<and> answered (senders s ! t)} \<and>
     as_alone checked i cs (senders s) ts \<and>
     wire s = in_order checked i cs ts @ ds \<and>
     (case send_lock s of
        None \<Rightarrow> ds = []
      | Some t \<Rightarrow> emit ds (resume checked i (cs ! t) (send_buf s) (senders s ! t)) = alone checked i (cs ! t))"

lemma set_sender_simps [simp]:
  "send_lock (set_sender t p s) = send_lock s" "send_buf (set_sender t p s) = send_buf s"
  "wire (set_sender t p s) = wire s" "senders (set_sender t p s) = (senders s)[t := p]"
  by (simp_all add: set_sender_def)

lemma answered_idle: "answered p \<Longrightarrow> idle p"
  by (cases p) simp_all

lemma on_result_runs [simp]: "\<not> idle (on_result checked i c w r)" "\<not> answered (on_result checked i c w r)"
  by (rule on_result_cases [of checked i c w r], simp_all)+

lemma linear_answered: "linear checked i cs ts ds s \<Longrightarrow> \<not> answered (senders s ! t) \<Longrightarrow> t \<notin> set ts"
  unfolding linear_def by blast

lemma as_alone_elsewhere: "t \<notin> set ts \<Longrightarrow> as_alone checked i cs (ps[t := p]) ts = as_alone checked i cs ps ts"
  unfolding as_alone_def by (metis nth_list_update_neq)

lemma as_alone_append:
  "as_alone checked i cs ps (ts @ [t]) \<longleftrightarrow>
   as_alone checked i cs ps ts \<and> ps ! t = Done (snd (alone checked i (cs ! t)))"
  by (auto simp: as_alone_def)

text \<open>A step of the holder: it sends \<open>out\<close> and its remaining work shrinks by just that.\<close>

lemma holder_moves:
  assumes "excluded cs s" "linear checked i cs ts ds s" "send_lock s = Some t"
    and "\<not> idle p" "short_sender p" "length buf = length (send_buf s)"
    and "resume checked i (cs ! t) (send_buf s) (senders s ! t) = emit out (resume checked i (cs ! t) buf p)"
    and s': "s' = set_sender t p (s\<lparr>send_buf := buf, wire := wire s @ out\<rparr>)"
  shows "excluded cs s' \<and> linear checked i cs ts (ds @ out) s'"
proof
  have t: "t < length cs" "length (senders s) = length cs" and busy: "\<not> idle (senders s ! t)"
    using assms(1,3) by (auto simp: excluded_def)
  show "excluded cs s'"
    using assms(1,3-6) t by (auto simp: excluded_def s' nth_list_update)
  have "\<not> answered p" "\<not> answered (senders s ! t)" using assms(4) busy answered_idle by blast+
  then have same: "answered ((senders s)[t := p] ! u) = answered (senders s ! u)" for u
    using t by (cases "u = t") simp_all
  have out: "t \<notin> set ts" using assms(2) \<open>\<not> answered (senders s ! t)\<close> by (rule linear_answered)
  then have others: "as_alone checked i cs ((senders s)[t := p]) ts = as_alone checked i cs (senders s) ts"
    by (rule as_alone_elsewhere)
  show "linear checked i cs ts (ds @ out) s'"
    using assms(2,3,7) t by (simp add: linear_def s' same others)
qed

text \<open>Taking the free lock, and dropping the guard: the two steps that move the sequence.\<close>

lemma lock_taken:
  assumes "excluded cs s" "linear checked i cs ts ds s" "send_lock s = None"
    and "t < length cs" "senders s ! t = Waiting" "length (call_addr (cs ! t)) < 2 ^ 62"
    and s': "s' = set_sender t (Sending Whole (call_message i (cs ! t))) (s\<lparr>send_lock := Some t\<rparr>)"
  shows "excluded cs s' \<and> linear checked i cs ts [] s'"
proof
  have len: "length (senders s) = length cs" "length (send_buf s) = MAX_UDP_SIZE" using assms(1) by (simp_all add: excluded_def)
  have "length (addr (call_message i (cs ! t))) < 2 ^ 62"
    using assms(6) by (simp add: call_message_def whole_message_def)
  then show "excluded cs s'" using assms(1,3,4,5) by (auto simp: excluded_def s' nth_list_update)
  have same: "answered ((senders s)[t := Sending w m] ! u) = answered (senders s ! u)" for u w m
    using assms(4,5) len by (cases "u = t") simp_all
  have "t \<notin> set ts" using linear_answered [OF assms(2)] assms(5) by simp
  then have others: "as_alone checked i cs ((senders s)[t := p]) ts = as_alone checked i cs (senders s) ts" for p
    by (rule as_alone_elsewhere)
  show "linear checked i cs ts [] s'"
    using assms(2,3,4) len resume_whole [OF assms(6) len(2), of checked i]
    by (simp add: linear_def s' same others del: resume.simps)
qed

lemma guard_dropped:
  assumes "excluded cs s" "linear checked i cs ts ds s" "send_lock s = Some t" "senders s ! t = Leaving r"
    and s': "s' = set_sender t (Done r) (s\<lparr>send_lock := None\<rparr>)"
  shows "excluded cs s' \<and> linear checked i cs (ts @ [t]) [] s'"
proof
  have t: "t < length cs" "length (senders s) = length cs" using assms(1,3) by (auto simp: excluded_def)
  have "idle (senders s ! u)" if "u < length cs" "u \<noteq> t" for u using assms(1,3) that by (auto simp: excluded_def)
  then show "excluded cs s'" using assms(1) t by (simp add: excluded_def s' nth_list_update)
  have out: "t \<notin> set ts" using linear_answered [OF assms(2)] assms(4) by simp
  then have others: "as_alone checked i cs ((senders s)[t := p]) ts = as_alone checked i cs (senders s) ts" for p
    by (rule as_alone_elsewhere)
  have set: "{u. u < length cs \<and> answered ((senders s)[t := Done r] ! u)} = insert t {u. u < length cs \<and> answered (senders s ! u)}"
    using t by (auto simp: nth_list_update)
  have "alone checked i (cs ! t) = (ds, r)" using assms(2-4) by (simp add: linear_def emit_def)
  then show "linear checked i cs (ts @ [t]) [] s'"
    using assms(2-4) t out by (simp add: linear_def s' set others in_order_def as_alone_append)
qed

text \<open>Only the holder runs.\<close>

lemma runner_holds:
  assumes "excluded cs s" "t < length (senders s)" "\<not> idle (senders s ! t)"
  shows "send_lock s = Some t" "t < length cs" "short_sender (senders s ! t)" "length (send_buf s) = MAX_UDP_SIZE"
  using assms by (auto simp: excluded_def split: option.splits)

lemma serialize_length: "serialize m buf = Ret (buf', r) \<Longrightarrow> length (addr m) < 2 ^ 62 \<Longrightarrow> length buf' = length buf"
  using length_udp_wire [of m] by (auto simp: serialize_wire split: if_splits)

lemma resume_serialized:
  assumes "serialize m buf = Ret (buf', Some n)"
  shows "resume checked i c buf (Sending w m) = resume checked i c buf' (Filled w n)"
  using assms by (simp add: send_message_def hand_over_def split: datagram_result.split option.split)

lemma resume_declined:
  assumes "serialize m buf = Ret (buf', None)"
  shows "resume checked i c buf (Sending w m) = finish c buf' (on_result checked i c w (Inr ()))"
  using assms by (simp add: send_message_def)

text \<open>A turn of the fragment loop: a failed fragment has put nothing on the wire.\<close>

lemma resume_next:
  assumes "length (addr f) < 2 ^ 62" "short_addrs fs"
  shows "finish c buf (Looping (f # fs)) = resume checked i c buf (Sending (Fragments fs) f)"
proof -
  let ?q = "call_quic c" and ?mx = "call_max c"
  obtain b sent r where s: "send_message ?q ?mx buf f = Ret (b, sent, r)"
    using send_message_closed [OF assms(1), of ?q ?mx buf] by (metis prod.exhaust_sel)
  have silent: "sent = None" if "r = Inl e" for e
    using s that hand_over_sends_or_fails [of ?q ?mx "udp_wire f" sent r]
    by (auto simp: send_message_closed [OF assms(1)] split: if_splits)
  obtain b' ds u where fs: "send_frags ?q ?mx b fs = Ret (b', ds, u)" using send_frags_returns [OF assms(2)] by blast
  show ?thesis using silent by (cases r; cases sent) (simp_all add: s fs)
qed

lemma step_linear:
  assumes "send_step checked i cs s s'" "excluded cs s" "linear checked i cs ts ds s"
    and short: "\<forall>c\<in>set cs. length (call_addr c) < 2 ^ 62"
  shows "\<exists>ts' ds'. excluded cs s' \<and> linear checked i cs ts' ds' s'"
  using assms(1)
proof (cases rule: send_stepE)
  case (acquire t)
  then have "t < length cs" using assms(2) by (simp add: excluded_def)
  with lock_taken [OF assms(2,3) acquire(4) this acquire(3) _ acquire(1)] short show ?thesis by auto
next
  case (serialized t w m buf n)
  note h = runner_holds [OF assms(2) serialized(2)]
  have *: "excluded cs s' \<and> linear checked i cs ts (ds @ []) s'"
  proof (rule holder_moves [OF assms(2,3) h(1)])
    show "resume checked i (cs ! t) (send_buf s) (senders s ! t) = emit [] (resume checked i (cs ! t) buf (Filled w n))"
      unfolding serialized(3) using resume_serialized [OF serialized(4)] by simp
  qed (use serialized h serialize_length [OF serialized(4)] in simp_all)
  then show ?thesis by blast
next
  case (declined t w m buf)
  note h = runner_holds [OF assms(2) declined(2)]
  have "excluded cs s' \<and> linear checked i cs ts (ds @ []) s'"
  proof (rule holder_moves [OF assms(2,3) h(1)])
    show "short_sender (on_result checked i (cs ! t) w (Inr ()))"
      using short_on_result [of w "cs ! t"] h short declined(3) by simp
    show "resume checked i (cs ! t) (send_buf s) (senders s ! t) =
        emit [] (resume checked i (cs ! t) buf (on_result checked i (cs ! t) w (Inr ())))"
      unfolding declined(3) using resume_declined [OF declined(4)] by simp
  qed (use declined h serialize_length [OF declined(4)] in simp_all)
  then show ?thesis by blast
next
  case (unwound t w m)
  with runner_holds [OF assms(2) unwound(2)] serialize_wire [of m "send_buf s"] show ?thesis by (simp split: if_splits)
next
  case (handed t w n sent r)
  note h = runner_holds [OF assms(2) handed(2)]
  have "excluded cs s' \<and> linear checked i cs ts (ds @ sent_list sent) s'"
  proof (rule holder_moves [OF assms(2,3) h(1)])
    show "short_sender (on_result checked i (cs ! t) w r)"
      using short_on_result [of w "cs ! t"] h short handed(3) by simp
    show "s' = set_sender t (on_result checked i (cs ! t) w r) (s\<lparr>send_buf := send_buf s, wire := wire s @ sent_list sent\<rparr>)"
      unfolding handed(1) set_sender_def by simp
  qed (use handed h in simp_all)
  then show ?thesis by blast
next
  case (next_frag t f fs)
  note h = runner_holds [OF assms(2) next_frag(2)]
  have "excluded cs s' \<and> linear checked i cs ts (ds @ []) s'"
  proof (rule holder_moves [OF assms(2,3) h(1)])
    show "resume checked i (cs ! t) (send_buf s) (senders s ! t) =
        emit [] (resume checked i (cs ! t) (send_buf s) (Sending (Fragments fs) f))"
      unfolding next_frag(3) using resume_next [of f fs] h next_frag(3) by simp
  qed (use next_frag h in simp_all)
  then show ?thesis by blast
next
  case (all_sent t)
  note h = runner_holds [OF assms(2) all_sent(2)]
  have "excluded cs s' \<and> linear checked i cs ts (ds @ []) s'"
    by (rule holder_moves [OF assms(2,3) h(1), where p = "Leaving (Ret (Inr ()))" and buf = "send_buf s"])
       (use all_sent h in simp_all)
  then show ?thesis by blast
next
  case (release t r)
  with runner_holds [OF assms(2) release(2)] guard_dropped [OF assms(2,3)] show ?thesis by force
qed

lemma linear_start: "excluded cs (sends_start cs) \<and> linear checked i cs [] [] (sends_start cs)"
  by (simp add: excluded_def linear_def sends_start_def as_alone_def in_order_def)

lemma reachable_linear:
  assumes "(send_step checked i cs)\<^sup>*\<^sup>* (sends_start cs) s" "\<forall>c\<in>set cs. length (call_addr c) < 2 ^ 62"
  shows "\<exists>ts ds. excluded cs s \<and> linear checked i cs ts ds s"
  using assms(1)
proof (induction rule: rtranclp_induct)
  case base
  show ?case using linear_start by blast
next
  case (step s s')
  then show ?case using step_linear [OF step.hyps(2) _ _ assms(2)] by blast
qed

section \<open>Every schedule ends\<close>

text \<open>
  The steps a call has left: first the \<^verbatim>\<open>send_message\<close> on the whole message, which may bring in any
  number of fragments, then the turns of the loop.
\<close>

fun whole_left :: "sender \<Rightarrow> nat" where
  "whole_left Waiting = 3"
| "whole_left (Sending Whole m) = 2"
| "whole_left (Filled Whole n) = 1"
| "whole_left p = 0"

fun loop_left :: "sender \<Rightarrow> nat" where
  "loop_left (Sending (Fragments fs) m) = 3 * length fs + 5"
| "loop_left (Filled (Fragments fs) n) = 3 * length fs + 4"
| "loop_left (Looping fs) = 3 * length fs + 3"
| "loop_left (Leaving r) = 1"
| "loop_left p = 0"

definition steps_left :: "send_state \<Rightarrow> nat \<times> nat" where
  "steps_left s = (sum_list (map whole_left (senders s)), sum_list (map loop_left (senders s)))"

lemma sum_list_swap:
  fixes f :: "'a \<Rightarrow> nat"
  shows "t < length ps \<Longrightarrow> sum_list (map f (ps[t := p])) + f (ps ! t) = sum_list (map f ps) + f p"
  by (induction ps arbitrary: t) (auto split: nat.split)

lemma on_result_left:
  "whole_left (on_result checked i c w r) = 0"
  "loop_left (on_result checked i c (Fragments fs) r) \<le> 3 * length fs + 3"
  by (rule on_result_cases [of checked i c w r], simp_all) (cases r, simp_all)

lemma step_decreases:
  assumes "send_step checked i cs s s'"
  shows "(steps_left s', steps_left s) \<in> less_than <*lex*> less_than"
proof -
  have *: ?thesis if "s' = set_sender t p s0" "senders s0 = senders s" "t < length (senders s)"
      "(whole_left p, loop_left p) < (whole_left (senders s ! t), loop_left (senders s ! t))" for t p s0
    using that sum_list_swap [of t "senders s" whole_left p] sum_list_swap [of t "senders s" loop_left p]
    by (auto simp: steps_left_def)
  show ?thesis
    using assms
  proof (cases rule: send_stepE)
    case (serialized t w m buf n)
    then show ?thesis by (intro * [OF serialized(1)]) (cases w; simp)+
  next
    case (declined t w m buf)
    then show ?thesis
      by (intro * [OF declined(1)]) (cases w; simp add: on_result_left)+
  next
    case (handed t w n sent r)
    then show ?thesis
    proof (intro * [OF handed(1)])
      show "(whole_left (on_result checked i (cs ! t) w r), loop_left (on_result checked i (cs ! t) w r))
          < (whole_left (senders s ! t), loop_left (senders s ! t))"
      proof (cases w)
        case (Fragments fs)
        then show ?thesis using handed(3) on_result_left(2) [of checked i "cs ! t" fs r] by (simp add: on_result_left(1))
      qed (simp add: handed(3) on_result_left(1))
    qed simp_all
  next
    case (unwound t w m)
    then show ?thesis by (intro * [OF unwound(1)]) (cases w; simp)+
  next
    case (acquire t)
    then show ?thesis by (intro * [OF acquire(1)]) simp_all
  next
    case (next_frag t f fs)
    then show ?thesis by (intro * [OF next_frag(1)]) simp_all
  next
    case (all_sent t)
    then show ?thesis by (intro * [OF all_sent(1)]) simp_all
  next
    case (release t r)
    then show ?thesis by (intro * [OF release(1)]) simp_all
  qed
qed

lemma send_step_wf: "wfp (\<lambda>s' s. send_step checked i cs s s')"
proof -
  have "wf (inv_image (less_than <*lex*> less_than) steps_left)" by auto
  moreover have "{(s', s). send_step checked i cs s s'} \<subseteq> inv_image (less_than <*lex*> less_than) steps_left"
    using step_decreases by auto
  ultimately show ?thesis unfolding wfp_def using wf_subset by blast
qed

text \<open>The holder can always go on, and a free lock can be taken.\<close>

lemma holder_steps:
  assumes "t < length (senders s)" "\<not> idle (senders s ! t)"
  shows "\<exists>s'. send_step checked i cs s s'"
proof (cases "senders s ! t")
  case (Sending w m)
  consider "serialize m (send_buf s) = Panic"
    | buf n where "serialize m (send_buf s) = Ret (buf, Some n)"
    | buf where "serialize m (send_buf s) = Ret (buf, None)"
    by (metis exec.exhaust option.exhaust prod.exhaust)
  then show ?thesis
    by cases (blast intro: serialized declined unwound [OF assms(1) Sending] assms(1) Sending)+
next
  case (Filled w n)
  obtain sent r where "hand_over (call_quic (cs ! t)) (call_max (cs ! t)) (take n (send_buf s)) = (sent, r)"
    by fastforce
  then show ?thesis using handed [OF assms(1) Filled] by blast
next
  case (Looping fs)
  then show ?thesis using assms(1) by (cases fs) (blast intro: all_sent next_frag)+
qed (use assms in \<open>auto intro: release\<close>)

lemma stuck_answered:
  assumes "excluded cs s" "\<nexists>s'. send_step checked i cs s s'"
  shows "send_lock s = None \<and> (\<forall>t<length cs. answered (senders s ! t))"
proof
  have len: "length (senders s) = length cs" using assms(1) by (simp add: excluded_def)
  have still: "idle (senders s ! t)" if "t < length cs" for t
    using holder_steps [of t s] assms(2) that len by metis
  then show free: "send_lock s = None" using assms(1) by (auto simp: excluded_def split: option.splits)
  have "senders s ! t \<noteq> Waiting" if "t < length cs" for t
    using acquire [of t s] free assms(2) that len by metis
  with still show "\<forall>t<length cs. answered (senders s ! t)" by (metis answered.simps(1) idle.elims(2))
qed

lemma runs_to_the_end:
  fixes r :: "'s \<Rightarrow> 's \<Rightarrow> bool"
  assumes "wfp (\<lambda>s' s. r s s')"
  shows "\<exists>s'. r\<^sup>*\<^sup>* s s' \<and> (\<nexists>s''. r s' s'')"
  using assms
proof (induction s rule: wfp_induct_rule)
  case (less s)
  show ?case
  proof (cases "\<exists>s''. r s s''")
    case True
    then obtain s'' where "r s s''" ..
    with less [of s''] show ?thesis by (meson converse_rtranclp_into_rtranclp)
  qed blast
qed

section \<open>Properties\<close>

text \<open>
  C10. Concurrent \<^verbatim>\<open>send\<close> calls on one session serialize rather than race: in every state that
  any interleaving of their steps reaches, there is an order of the calls that have returned in
  which the wire carries, call after call, exactly the datagrams each would have sent alone on a
  fresh buffer, each call returned what it would have returned alone, and beyond that the wire
  holds only what the caller inside the lock has sent so far, a prefix of its own datagrams.
\<close>

theorem sends_linearizable:
  assumes "(send_step checked i cs)\<^sup>*\<^sup>* (sends_start cs) s"
    and "\<forall>c\<in>set cs. length (call_addr c) < 2 ^ 62"
  shows "\<exists>ts ds. distinct ts \<and> set ts = {t. t < length cs \<and> answered (senders s ! t)} \<and>
    (\<forall>t\<in>set ts. senders s ! t = Done (snd (alone checked i (cs ! t)))) \<and>
    wire s = concat (map (\<lambda>t. fst (alone checked i (cs ! t))) ts) @ ds \<and>
    (send_lock s = None \<longrightarrow> ds = []) \<and>
    (\<forall>t. send_lock s = Some t \<longrightarrow> t < length cs \<and> (\<exists>rest. fst (alone checked i (cs ! t)) = ds @ rest))"
proof -
  from reachable_linear [OF assms] obtain ts ds where e: "excluded cs s" and l: "linear checked i cs ts ds s" by blast
  have "\<exists>rest. fst (alone checked i (cs ! t)) = ds @ rest" if "send_lock s = Some t" for t
    using l that by (auto simp: linear_def emit_def dest!: sym [of _ "alone checked i (cs ! t)"])
  moreover have "t < length cs" if "send_lock s = Some t" for t using e that by (simp add: excluded_def)
  ultimately show ?thesis
    using l unfolding linear_def as_alone_def in_order_def by (intro exI [of _ ts] exI [of _ ds]) force
qed

text \<open>
  C29. No schedule of concurrent \<^verbatim>\<open>send\<close> calls runs forever or deadlocks: the steps decrease a
  well-founded measure, and a reachable state in which no call can step is one in which the lock
  is free and every call has returned.
\<close>

theorem sends_complete:
  assumes "\<forall>c\<in>set cs. length (call_addr c) < 2 ^ 62"
  shows "wfp (\<lambda>s' s. send_step checked i cs s s') \<and>
    (\<forall>s. (send_step checked i cs)\<^sup>*\<^sup>* (sends_start cs) s \<and> (\<nexists>s'. send_step checked i cs s s') \<longrightarrow>
       send_lock s = None \<and> (\<forall>t<length cs. answered (senders s ! t)))"
  using send_step_wf reachable_linear [OF _ assms] stuck_answered by blast

section \<open>Witnesses\<close>

text \<open>Two small datagrams on a connection that accepts anything.\<close>

definition demo_call :: "bytes \<Rightarrow> send_call" where
  "demo_call d = \<lparr>call_data = d, call_addr = ''h:53'', call_quic = (\<lambda>_. DatagramOk), call_max = Some 1200, call_rng = (\<lambda>_ _. 0)\<rparr>"

lemma demo_alone:
  assumes "length d \<le> 100"
  shows "alone checked 7 (demo_call d) = ([udp_wire (whole_message 7 d ''h:53'')], Ret (Inr ()))"
proof -
  let ?m = "whole_message 7 d ''h:53''"
  have a: "length (addr ?m) < 2 ^ 62" by (simp add: whole_message_def)
  have "udp_size ?m \<le> MAX_UDP_SIZE" using assms by (simp add: whole_message_def udp_size_def header_size_def varint_len_def)
  then show ?thesis
    by (simp add: alone_def conn_send_def Let_def demo_call_def send_message_closed [OF a] hand_over_def)
qed

lemma demo_short: "\<forall>c\<in>set [demo_call d, demo_call e]. length (call_addr c) < 2 ^ 62"
  by (simp add: demo_call_def)

lemma two_orders: "distinct ts \<Longrightarrow> set ts = {t. t < 2} \<Longrightarrow> ts = [0, 1] \<or> ts = [1, (0::nat)]"
proof -
  assume d: "distinct ts" and "set ts = {t. t < 2}"
  then have s: "set ts = {0, 1}" by (auto simp: less_2_cases_iff)
  have "length ts = 2" using distinct_card [OF d] s by simp
  then obtain a b where "ts = [a, b]" by (auto simp: numeral_2_eq_2 length_Suc_conv)
  with s show ?thesis by (simp add: doubleton_eq_iff)
qed

theorem sends_linearizable_witness:
  "\<exists>s. (send_step True 7 [demo_call [1], demo_call [2, 3]])\<^sup>*\<^sup>* (sends_start [demo_call [1], demo_call [2, 3]]) s \<and>
     senders s = [Done (Ret (Inr ())), Done (Ret (Inr ()))] \<and>
     (let a = udp_wire (whole_message 7 [1] ''h:53''); b = udp_wire (whole_message 7 [2, 3] ''h:53'')
      in wire s = [a, b] \<or> wire s = [b, a])"
proof -
  let ?cs = "[demo_call [1], demo_call [2, 3]]"
  from runs_to_the_end [OF send_step_wf] obtain s where
    run: "(send_step True 7 ?cs)\<^sup>*\<^sup>* (sends_start ?cs) s" and stuck: "\<nexists>s'. send_step True 7 ?cs s s'" by blast
  from reachable_linear [OF run demo_short] have e: "excluded ?cs s" by blast
  with stuck_answered [OF this stuck] have free: "send_lock s = None" and len: "length (senders s) = 2"
    and all: "answered (senders s ! 0)" "answered (senders s ! 1)"
    by (simp_all add: excluded_def)
  from sends_linearizable [OF run demo_short] obtain ts ds where ts: "distinct ts" "set ts = {t. t < length ?cs \<and> answered (senders s ! t)}"
    and res: "\<forall>t\<in>set ts. senders s ! t = Done (snd (alone True 7 (?cs ! t)))"
    and w: "wire s = concat (map (\<lambda>t. fst (alone True 7 (?cs ! t))) ts) @ ds" "send_lock s = None \<longrightarrow> ds = []"
    by (elim exE conjE)
  have set: "{t. t < length ?cs \<and> answered (senders s ! t)} = {t. t < 2}"
    using all by (auto simp: less_2_cases_iff)
  from two_orders [OF ts(1)] ts(2) set have order: "ts = [0, 1] \<or> ts = [1, 0]" by simp
  then have "senders s ! 0 = Done (Ret (Inr ()))" "senders s ! 1 = Done (Ret (Inr ()))"
    using res by (auto simp: demo_alone)
  with len have "senders s = [Done (Ret (Inr ())), Done (Ret (Inr ()))]"
    by (auto simp: list_eq_iff_nth_eq less_2_cases_iff)
  moreover have "wire s = [udp_wire (whole_message 7 [1] ''h:53''), udp_wire (whole_message 7 [2, 3] ''h:53'')] \<or>
      wire s = [udp_wire (whole_message 7 [2, 3] ''h:53''), udp_wire (whole_message 7 [1] ''h:53'')]"
    using order w free by (auto simp: demo_alone)
  ultimately show ?thesis using run by (auto simp: Let_def)
qed

theorem sends_complete_witness:
  "wfp (\<lambda>s' s. send_step True 7 [demo_call [1], demo_call [2, 3]] s s') \<and>
   (\<exists>s. (send_step True 7 [demo_call [1], demo_call [2, 3]])\<^sup>*\<^sup>* (sends_start [demo_call [1], demo_call [2, 3]]) s \<and>
      send_lock s = None \<and> (\<forall>t<2. answered (senders s ! t)))"
proof -
  let ?cs = "[demo_call [1], demo_call [2, 3]]"
  note c = sends_complete [OF demo_short, of True 7 "[1]" "[2, 3]"]
  from runs_to_the_end [OF conjunct1 [OF c]] obtain s where
    "(send_step True 7 ?cs)\<^sup>*\<^sup>* (sends_start ?cs) s" "\<nexists>s'. send_step True 7 ?cs s s'" by blast
  with c show ?thesis by (auto simp: numeral_2_eq_2)
qed

end
