(* ===== verification/Store.thy ===== *)
theory Store
  imports Profile
begin

text \<open>
  The profile store, \<^verbatim>\<open>crates/store/src/lib.rs\<close>: secret-free metadata in one JSON document on
  disk, the links in a \<^verbatim>\<open>SecureStore\<close>. The state holds the in-memory entries, the secure store
  and the document file, so that what is in memory can be compared with what is on disk.

  Outside the repository, and so parameters: the native secure store (the operations of the trait,
  with the locale \<open>secure_store\<close> for what the trait documents), \<^verbatim>\<open>serde_json\<close> (\<open>json\<close>, with
  \<open>json_ok\<close> for its round trips), the file system calls of \<^verbatim>\<open>persist\<close> (which of them fails), the
  clock and the UUID drawn.
\<close>

section \<open>Data\<close>

type_synonym secret_bytes = bytes

definition SCHEMA_VERSION :: nat where "SCHEMA_VERSION = 1"

record secure_store_error =
  secure_message :: string

record 's secure_ops =
  ss_get :: "'s \<Rightarrow> string \<Rightarrow> secure_store_error + secret_bytes option"
  ss_set :: "'s \<Rightarrow> string \<Rightarrow> secret_bytes \<Rightarrow> (secure_store_error + unit) \<times> 's"
  ss_delete :: "'s \<Rightarrow> string \<Rightarrow> (secure_store_error + unit) \<times> 's"

datatype store_error =
    Io io_error
  | Serde string
  | Secure secure_store_error
  | Clock
  | UnsupportedSchema nat

record entry =
  entry_id :: string
  entry_name :: string
  created_at :: u64

record document =
  schema_version :: nat
  doc_entries :: "entry list"

record json =
  doc_to_vec :: "document \<Rightarrow> string + bytes"
  doc_from_slice :: "bytes \<Rightarrow> string + document"
  profile_to_vec :: "profile \<Rightarrow> string + bytes"
  profile_from_slice :: "bytes \<Rightarrow> string + profile"

record 's store =
  secure :: 's
  entries :: "entry list"
  doc_file :: "bytes option"

text \<open>The outcome of each file system call of one \<^verbatim>\<open>persist\<close>; \<^verbatim>\<open>None\<close> is success.\<close>

record persist_io =
  io_create_dir :: "io_error option"
  io_temp_file :: "io_error option"
  io_write :: "io_error option"
  io_sync :: "io_error option"
  io_rename :: "io_error option"

section \<open>Operations\<close>

definition secure_err :: "secure_store_error + 'a \<Rightarrow> store_error + 'a" where
  "secure_err r = (case r of Inl e \<Rightarrow> Inl (Secure e) | Inr x \<Rightarrow> Inr x)"

definition serde_err :: "string + 'a \<Rightarrow> store_error + 'a" where
  "serde_err r = (case r of Inl e \<Rightarrow> Inl (Serde e) | Inr x \<Rightarrow> Inr x)"

definition io_check :: "io_error option \<Rightarrow> store_error + unit" where
  "io_check r = (case r of Some e \<Rightarrow> Inl (Io e) | None \<Rightarrow> Inr ())"

definition read_entries :: "json \<Rightarrow> bytes option \<Rightarrow> store_error + entry list" where
  "read_entries json file =
     (case file of
        Some bs \<Rightarrow>
          and_then (serde_err (doc_from_slice json bs)) (\<lambda>doc.
          if SCHEMA_VERSION < schema_version doc
          then Inl (UnsupportedSchema (schema_version doc))
          else Inr (doc_entries doc))
      | None \<Rightarrow> Inr [])"

text \<open>\<open>read_err\<close> is an error of \<^verbatim>\<open>fs::read\<close> other than a missing file.\<close>

definition store_new ::
  "json \<Rightarrow> io_error option \<Rightarrow> bytes option \<Rightarrow> 's \<Rightarrow> store_error + 's store" where
  "store_new json read_err file s =
     and_then (io_check read_err) (\<lambda>_.
     and_then (read_entries json file) (\<lambda>es.
     Inr \<lparr>secure = s, entries = es, doc_file = file\<rparr>))"

definition store_list :: "'s store \<Rightarrow> entry list" where
  "store_list st = entries st"

definition load :: "'s secure_ops \<Rightarrow> json \<Rightarrow> 's store \<Rightarrow> string \<Rightarrow> store_error + profile option" where
  "load ops json st i =
     and_then (secure_err (ss_get ops (secure st) i)) (\<lambda>r.
     case r of
       Some bs \<Rightarrow> and_then (serde_err (profile_from_slice json bs)) (\<lambda>p. Inr (Some p))
     | None \<Rightarrow> Inr None)"

definition find_matching :: "'s secure_ops \<Rightarrow> json \<Rightarrow> 's store \<Rightarrow> profile \<Rightarrow> entry option" where
  "find_matching ops json st link =
     find (\<lambda>e. load ops json st (entry_id e) = Inr (Some link)) (entries st)"

definition persist_bytes :: "json \<Rightarrow> persist_io \<Rightarrow> entry list \<Rightarrow> store_error + bytes" where
  "persist_bytes json io es =
     and_then (io_check (io_create_dir io)) (\<lambda>_.
     and_then (serde_err (doc_to_vec json \<lparr>schema_version = SCHEMA_VERSION, doc_entries = es\<rparr>)) (\<lambda>bs.
     and_then (io_check (io_temp_file io)) (\<lambda>_.
     and_then (io_check (io_write io)) (\<lambda>_.
     and_then (io_check (io_sync io)) (\<lambda>_.
     and_then (io_check (io_rename io)) (\<lambda>_. Inr bs))))))"

definition persist :: "json \<Rightarrow> persist_io \<Rightarrow> 's store \<Rightarrow> (store_error + unit) \<times> 's store" where
  "persist json io st =
     (case persist_bytes json io (entries st) of
        Inl e \<Rightarrow> (Inl e, st)
      | Inr bs \<Rightarrow> (Inr (), st\<lparr>doc_file := Some bs\<rparr>))"

definition host_of :: "string \<Rightarrow> string" where
  "host_of s =
     (let s = str_trim s;
          fallback = (case rsplit_once (CHR '':'') s of
                        Some (host, _) \<Rightarrow> if host \<noteq> [] then host else s
                      | None \<Rightarrow> s)
      in case strip_prefix ''['' s of
           Some rest \<Rightarrow>
             (case split_once (CHR '']'') rest of Some (host, _) \<Rightarrow> host | None \<Rightarrow> fallback)
         | None \<Rightarrow> fallback)"

text \<open>\<^verbatim>\<open>add\<close> with the UUID it draws and the clock it reads.\<close>

definition add ::
  "'s secure_ops \<Rightarrow> json \<Rightarrow> persist_io \<Rightarrow> string \<Rightarrow> u64 option \<Rightarrow> 's store \<Rightarrow> profile \<Rightarrow>
   string option \<Rightarrow> (store_error + entry) \<times> 's store" where
  "add ops json io uuid now st link nm =
     (case find_matching ops json st link of
        Some existing \<Rightarrow> (Inr existing, st)
      | None \<Rightarrow>
          let name = (case nm of
                        Some n \<Rightarrow> if str_trim n \<noteq> [] then str_trim n else host_of (server link)
                      | None \<Rightarrow> host_of (server link))
          in case now of
               None \<Rightarrow> (Inl Clock, st)
             | Some t \<Rightarrow>
                 (case profile_to_vec json link of
                    Inl e \<Rightarrow> (Inl (Serde e), st)
                  | Inr secret \<Rightarrow>
                      (case ss_set ops (secure st) uuid secret of
                         (Inl e, s) \<Rightarrow> (Inl (Secure e), st\<lparr>secure := s\<rparr>)
                       | (Inr _, s) \<Rightarrow>
                           let entry = \<lparr>entry_id = uuid, entry_name = name, created_at = t\<rparr>;
                               st1 = st\<lparr>secure := s, entries := entries st @ [entry]\<rparr>
                           in case persist json io st1 of
                                (Inl e, st2) \<Rightarrow>
                                  (Inl e, st2\<lparr>entries := butlast (entries st2),
                                              secure := snd (ss_delete ops (secure st2) uuid)\<rparr>)
                              | (Inr _, st2) \<Rightarrow> (Inr entry, st2))))"

text \<open>\<^verbatim>\<open>iter().position(|e| e.id == id)\<close>, \<^verbatim>\<open>Vec::remove\<close> and \<^verbatim>\<open>Vec::insert\<close>.\<close>

fun position :: "string \<Rightarrow> entry list \<Rightarrow> nat option" where
  "position i [] = None"
| "position i (e # es) = (if entry_id e = i then Some 0 else map_option Suc (position i es))"

definition vec_remove :: "nat \<Rightarrow> 'a list \<Rightarrow> 'a list" where
  "vec_remove pos xs = take pos xs @ drop (Suc pos) xs"

definition vec_insert :: "nat \<Rightarrow> 'a \<Rightarrow> 'a list \<Rightarrow> 'a list" where
  "vec_insert pos x xs = take pos xs @ [x] @ drop pos xs"

definition delete ::
  "'s secure_ops \<Rightarrow> json \<Rightarrow> persist_io \<Rightarrow> 's store \<Rightarrow> string \<Rightarrow> (store_error + bool) \<times> 's store" where
  "delete ops json io st i =
     (case position i (entries st) of
        None \<Rightarrow> (Inr False, st\<lparr>secure := snd (ss_delete ops (secure st) i)\<rparr>)
      | Some pos \<Rightarrow>
          let removed = entries st ! pos;
              st1 = st\<lparr>entries := vec_remove pos (entries st)\<rparr>
          in case persist json io st1 of
               (Inl e, st2) \<Rightarrow> (Inl e, st2\<lparr>entries := vec_insert pos removed (entries st2)\<rparr>)
             | (Inr _, st2) \<Rightarrow>
                 (Inr True, st2\<lparr>secure := snd (ss_delete ops (secure st2) i)\<rparr>))"

definition rename ::
  "'s secure_ops \<Rightarrow> json \<Rightarrow> persist_io \<Rightarrow> 's store \<Rightarrow> string \<Rightarrow> string \<Rightarrow>
   (store_error + bool) \<times> 's store" where
  "rename ops json io st i new_name =
     (case position i (entries st) of
        None \<Rightarrow> (Inr False, st)
      | Some pos \<Rightarrow>
          (case (if str_trim new_name = []
                 then and_then (load ops json st i) (\<lambda>r. Inr (map_option (\<lambda>p. host_of (server p)) r))
                 else Inr (Some (str_trim new_name)))
           of
             Inl e \<Rightarrow> (Inl e, st)
           | Inr None \<Rightarrow> (Inr True, st)
           | Inr (Some name) \<Rightarrow>
               let previous = entry_name (entries st ! pos);
                   set_name = (\<lambda>n st. st\<lparr>entries := (entries st)[pos := (entries st ! pos)\<lparr>entry_name := n\<rparr>]\<rparr>)
               in case persist json io (set_name name st) of
                    (Inl e, st2) \<Rightarrow> (Inl e, set_name previous st2)
                  | (Inr _, st2) \<Rightarrow> (Inr True, st2)))"

section \<open>The in-memory secure store\<close>

text \<open>\<^verbatim>\<open>DevSecureStore\<close>: a mutex over a map; a poisoned mutex fails every call.\<close>

record dev_secure_store =
  dev_map :: "string \<Rightarrow> secret_bytes option"
  dev_poisoned :: bool

definition dev_new :: dev_secure_store where
  "dev_new = \<lparr>dev_map = Map.empty, dev_poisoned = False\<rparr>"

definition dev_lock :: "dev_secure_store \<Rightarrow> secure_store_error + unit" where
  "dev_lock d =
     (if dev_poisoned d then Inl \<lparr>secure_message = ''dev secure store mutex poisoned''\<rparr> else Inr ())"

definition dev_get :: "dev_secure_store \<Rightarrow> string \<Rightarrow> secure_store_error + secret_bytes option" where
  "dev_get d i = and_then (dev_lock d) (\<lambda>_. Inr (dev_map d i))"

definition dev_set ::
  "dev_secure_store \<Rightarrow> string \<Rightarrow> secret_bytes \<Rightarrow> (secure_store_error + unit) \<times> dev_secure_store" where
  "dev_set d i b =
     (case dev_lock d of
        Inl e \<Rightarrow> (Inl e, d)
      | Inr _ \<Rightarrow> (Inr (), d\<lparr>dev_map := (dev_map d)(i \<mapsto> b)\<rparr>))"

definition dev_delete ::
  "dev_secure_store \<Rightarrow> string \<Rightarrow> (secure_store_error + unit) \<times> dev_secure_store" where
  "dev_delete d i =
     (case dev_lock d of
        Inl e \<Rightarrow> (Inl e, d)
      | Inr _ \<Rightarrow> (Inr (), d\<lparr>dev_map := (dev_map d)(i := None)\<rparr>))"

definition dev_ops :: "dev_secure_store secure_ops" where
  "dev_ops = \<lparr>ss_get = dev_get, ss_set = dev_set, ss_delete = dev_delete\<rparr>"

section \<open>Contracts\<close>

text \<open>
  What the trait documents of a backend: it acts like a map from ids to secrets. Any call may
  fail; a call that fails has touched at most the secret of its own id.
\<close>

locale secure_store =
  fixes ops :: "'s secure_ops"
    and secrets :: "'s \<Rightarrow> string \<Rightarrow> secret_bytes option"
  assumes get_ok: "ss_get ops s i = Inr r \<Longrightarrow> r = secrets s i"
    and set_ok: "ss_set ops s i b = (Inr u, s') \<Longrightarrow> secrets s' i = Some b"
    and set_other: "ss_set ops s i b = (r', s') \<Longrightarrow> j \<noteq> i \<Longrightarrow> secrets s' j = secrets s j"
    and delete_ok: "ss_delete ops s i = (Inr u, s') \<Longrightarrow> secrets s' i = None"
    and delete_other: "ss_delete ops s i = (r', s') \<Longrightarrow> j \<noteq> i \<Longrightarrow> secrets s' j = secrets s j"

interpretation dev: secure_store dev_ops dev_map
  by unfold_locales
     (auto simp: dev_ops_def dev_get_def dev_set_def dev_delete_def dev_lock_def split: if_splits)

text \<open>What \<^verbatim>\<open>serde_json\<close> documents: what it writes, it reads back.\<close>

definition json_ok :: "json \<Rightarrow> bool" where
  "json_ok json \<longleftrightarrow>
     (\<forall>doc bs. doc_to_vec json doc = Inr bs \<longrightarrow> doc_from_slice json bs = Inr doc) \<and>
     (\<forall>p bs. profile_to_vec json p = Inr bs \<longrightarrow> profile_from_slice json bs = Inr p)"

text \<open>Memory agrees with the disk: opening the document again would give this very store.\<close>

definition synced :: "json \<Rightarrow> 's store \<Rightarrow> bool" where
  "synced json st \<longleftrightarrow> store_new json None (doc_file st) (secure st) = Inr st"

section \<open>Lemmas\<close>

lemma persist_bytes_Inr:
  "persist_bytes json io es = Inr bs \<Longrightarrow>
   doc_to_vec json \<lparr>schema_version = SCHEMA_VERSION, doc_entries = es\<rparr> = Inr bs"
  by (auto simp: persist_bytes_def and_then_eq_Inr serde_err_def split: sum.splits)

lemma persist_cases:
  obtains (failed) e where "persist json io st = (Inl e, st)"
  | (written) bs where "persist json io st = (Inr (), st\<lparr>doc_file := Some bs\<rparr>)"
      "doc_to_vec json \<lparr>schema_version = SCHEMA_VERSION, doc_entries = entries st\<rparr> = Inr bs"
  by (cases "persist_bytes json io (entries st)") (auto simp: persist_def dest: persist_bytes_Inr)

lemma synced_iff: "synced json st \<longleftrightarrow> read_entries json (doc_file st) = Inr (entries st)"
  by (cases st; cases "read_entries json (doc_file st)") (auto simp: synced_def store_new_def io_check_def)

lemma store_new_sync: "store_new json r f s = Inr st \<Longrightarrow> synced json st"
  by (auto simp: synced_iff store_new_def and_then_eq_Inr)

lemma synced_written:
  assumes "json_ok json" "doc_to_vec json \<lparr>schema_version = SCHEMA_VERSION, doc_entries = es\<rparr> = Inr bs"
  shows "read_entries json (Some bs) = Inr es"
proof -
  have "doc_from_slice json bs = Inr \<lparr>schema_version = SCHEMA_VERSION, doc_entries = es\<rparr>"
    using assms by (simp add: json_ok_def)
  then show ?thesis by (simp add: read_entries_def serde_err_def)
qed

lemma vec_remove_insert:
  "pos < length xs \<Longrightarrow> vec_insert pos (xs ! pos) (vec_remove pos xs) = xs"
  by (simp add: vec_insert_def vec_remove_def id_take_nth_drop [symmetric])

lemma position_Some:
  "position i es = Some pos \<Longrightarrow> pos < length es \<and> entry_id (es ! pos) = i \<and>
     (\<forall>k<pos. entry_id (es ! k) \<noteq> i)"
proof (induction es arbitrary: pos)
  case (Cons e es)
  then show ?case by (cases pos) (auto simp: less_Suc_eq_0_disj split: if_splits)
qed simp

lemma position_None: "position i es = None \<longleftrightarrow> i \<notin> entry_id ` set es"
  by (induction es) auto

lemma vec_remove_position:
  "position i es = Some pos \<Longrightarrow> distinct (map entry_id es) \<Longrightarrow>
   vec_remove pos es = filter (\<lambda>e. entry_id e \<noteq> i) es"
proof (induction es arbitrary: pos)
  case (Cons e es)
  show ?case
  proof (cases "entry_id e = i")
    case True
    with Cons.prems have "filter (\<lambda>e. entry_id e \<noteq> i) es = es"
      by (intro filter_True) (auto simp: image_iff)
    with True Cons.prems show ?thesis by (simp add: vec_remove_def)
  next
    case False
    with Cons.prems obtain p where p: "position i es = Some p" "pos = Suc p" by auto
    with Cons.IH [OF p(1)] Cons.prems False show ?thesis by (auto simp: vec_remove_def)
  qed
qed simp

text \<open>The outcomes of the three mutating operations.\<close>

lemma add_outcomes:
  obtains (existing) e where "add ops json io uuid now st link nm = (Inr e, st)"
      "find_matching ops json st link = Some e"
  | (failed) e s where "add ops json io uuid now st link nm = (Inl e, st\<lparr>secure := s\<rparr>)"
      "find_matching ops json st link = None"
  | (added) e s bs dbs where
      "add ops json io uuid now st link nm =
        (Inr e, st\<lparr>secure := s, entries := entries st @ [e], doc_file := Some dbs\<rparr>)"
      "find_matching ops json st link = None"
      "entry_id e = uuid" "profile_to_vec json link = Inr bs"
      "ss_set ops (secure st) uuid bs = (Inr (), s)"
      "doc_to_vec json \<lparr>schema_version = SCHEMA_VERSION, doc_entries = entries st @ [e]\<rparr> = Inr dbs"
      "entry_name e = (case nm of Some n \<Rightarrow> if str_trim n \<noteq> [] then str_trim n else host_of (server link)
         | None \<Rightarrow> host_of (server link))"
proof -
  let ?n = "(case nm of Some n \<Rightarrow> if str_trim n \<noteq> [] then str_trim n else host_of (server link)
     | None \<Rightarrow> host_of (server link))"
  have same: "(st\<lparr>secure := secure st\<rparr>) = st" by simp
  show thesis
  proof (cases "find_matching ops json st link")
    case (Some e) then show ?thesis by (intro existing) (simp_all add: add_def)
  next
    case None
    note nm = this
    show ?thesis
    proof (cases now)
      case None with nm show ?thesis
        by (intro failed [of Clock "secure st"]) (simp_all add: add_def)
    next
      case (Some t)
      show ?thesis
      proof (cases "profile_to_vec json link")
        case (Inl e) with nm Some show ?thesis
          by (intro failed [of "Serde e" "secure st"]) (simp_all add: add_def)
      next
        case (Inr bs)
        obtain r s where set: "ss_set ops (secure st) uuid bs = (r, s)" by force
        show ?thesis
        proof (cases r)
          case (Inl e) with nm Some Inr set show ?thesis
            by (intro failed [of "Secure e" s]) (simp_all add: add_def)
        next
          case (Inr u)
          let ?e = "\<lparr>entry_id = uuid, entry_name = ?n, created_at = t\<rparr>"
          let ?st1 = "st\<lparr>secure := s, entries := entries st @ [?e]\<rparr>"
          have eq: "add ops json io uuid now st link nm =
            (case persist json io ?st1 of
               (Inl e, st2) \<Rightarrow> (Inl e, st2\<lparr>entries := butlast (entries st2),
                                 secure := snd (ss_delete ops (secure st2) uuid)\<rparr>)
             | (Inr _, st2) \<Rightarrow> (Inr ?e, st2))"
            using nm Some \<open>profile_to_vec json link = Inr bs\<close> set Inr by (simp add: add_def Let_def)
          show ?thesis
            using eq nm set Inr \<open>profile_to_vec json link = Inr bs\<close>
            by (cases rule: persist_cases [of json io ?st1])
               (auto intro: failed added [of ?e])
        qed
      qed
    qed
  qed
qed

lemma delete_outcomes:
  obtains (absent) "delete ops json io st i =
        (Inr False, st\<lparr>secure := snd (ss_delete ops (secure st) i)\<rparr>)" "i \<notin> entry_id ` set (entries st)"
  | (failed) e where "delete ops json io st i = (Inl e, st)"
  | (deleted) pos bs where "position i (entries st) = Some pos"
      "delete ops json io st i = (Inr True, st\<lparr>secure := snd (ss_delete ops (secure st) i),
         entries := vec_remove pos (entries st), doc_file := Some bs\<rparr>)"
      "doc_to_vec json \<lparr>schema_version = SCHEMA_VERSION, doc_entries = vec_remove pos (entries st)\<rparr> = Inr bs"
proof (cases "position i (entries st)")
  case None
  then show ?thesis by (intro absent) (simp_all add: delete_def position_None [symmetric])
next
  case (Some pos)
  let ?st1 = "st\<lparr>entries := vec_remove pos (entries st)\<rparr>"
  have pos: "pos < length (entries st)" using position_Some [OF Some] by simp
  show ?thesis
  proof (cases rule: persist_cases [of json io ?st1])
    case (failed e) with Some pos show ?thesis
      by (intro that(2) [of e]) (simp add: delete_def vec_remove_insert)
  next
    case (written bs) with Some show ?thesis by (intro deleted [of pos bs]) (simp_all add: delete_def)
  qed
qed

lemma rename_outcomes:
  obtains (absent) "rename ops json io st i n = (Inr False, st)" "i \<notin> entry_id ` set (entries st)"
  | (failed) e where "rename ops json io st i n = (Inl e, st)"
  | (kept) "rename ops json io st i n = (Inr True, st)" "str_trim n = []"
      "load ops json st i = Inr None" "i \<in> entry_id ` set (entries st)"
  | (renamed) pos name bs where "position i (entries st) = Some pos"
      "rename ops json io st i n = (Inr True,
         st\<lparr>entries := (entries st)[pos := (entries st ! pos)\<lparr>entry_name := name\<rparr>], doc_file := Some bs\<rparr>)"
      "doc_to_vec json \<lparr>schema_version = SCHEMA_VERSION,
         doc_entries = (entries st)[pos := (entries st ! pos)\<lparr>entry_name := name\<rparr>]\<rparr> = Inr bs"
      "if str_trim n = [] then \<exists>p. load ops json st i = Inr (Some p) \<and> name = host_of (server p)
       else name = str_trim n"
proof (cases "position i (entries st)")
  case None
  then show ?thesis by (intro absent) (simp_all add: rename_def position_None [symmetric])
next
  case (Some pos)
  let ?r = "if str_trim n = []
     then and_then (load ops json st i) (\<lambda>r. Inr (map_option (\<lambda>p. host_of (server p)) r))
     else Inr (Some (str_trim n))"
  have pos: "pos < length (entries st)" using position_Some [OF Some] by simp
  have here: "i \<in> entry_id ` set (entries st)" using Some position_None [of i "entries st"] by auto
  consider e where "?r = Inl e" | "?r = Inr None" | name where "?r = Inr (Some name)"
    by (metis option.exhaust sum.exhaust)
  then show ?thesis
  proof cases
    case 1 with Some show ?thesis by (intro failed [of e]) (simp add: rename_def)
  next
    case 2 with Some here show ?thesis
      by (intro kept) (auto simp: rename_def and_then_eq_Inr split: if_splits)
  next
    case (3 name)
    let ?st1 = "st\<lparr>entries := (entries st)[pos := (entries st ! pos)\<lparr>entry_name := name\<rparr>]\<rparr>"
    have eq: "rename ops json io st i n = (case persist json io ?st1 of
        (Inl e, st2) \<Rightarrow> (Inl e, st2\<lparr>entries := (entries st2)[pos :=
           (entries st2 ! pos)\<lparr>entry_name := entry_name (entries st ! pos)\<rparr>]\<rparr>)
      | (Inr _, st2) \<Rightarrow> (Inr True, st2))"
      using Some 3 by (simp add: rename_def Let_def)
    have nm: "if str_trim n = [] then \<exists>p. load ops json st i = Inr (Some p) \<and> name = host_of (server p)
       else name = str_trim n"
      using 3 by (auto simp: and_then_eq_Inr split: if_splits)
    show ?thesis
    proof (cases rule: persist_cases [of json io ?st1])
      case (failed e) with eq pos show ?thesis by (intro that(2) [of e]) simp
    next
      case (written bs) with eq Some nm show ?thesis by (intro renamed [where pos = pos and name = name and bs = bs]) simp_all
    qed
  qed
qed

section \<open>Runs of operations\<close>

text \<open>A call with what it meets outside: the file system, the UUID drawn and the clock.\<close>

datatype store_op =
    OpAdd persist_io string "u64 option" profile "string option"
  | OpDelete persist_io string
  | OpRename persist_io string string

fun apply_op :: "'s secure_ops \<Rightarrow> json \<Rightarrow> store_op \<Rightarrow> 's store \<Rightarrow> 's store" where
  "apply_op ops json (OpAdd io uuid now link nm) st = snd (add ops json io uuid now st link nm)"
| "apply_op ops json (OpDelete io i) st = snd (delete ops json io st i)"
| "apply_op ops json (OpRename io i n) st = snd (rename ops json io st i n)"

lemma apply_op_synced:
  assumes "json_ok json" "synced json st"
  shows "synced json (apply_op ops json op st)"
proof (cases op)
  case (OpAdd io uuid now link nm)
  show ?thesis
    by (cases rule: add_outcomes [of ops json io uuid now st link nm])
       (use OpAdd assms in \<open>simp_all add: synced_iff synced_written\<close>)
next
  case (OpDelete io i)
  show ?thesis
    by (cases rule: delete_outcomes [of ops json io st i])
       (use OpDelete assms in \<open>simp_all add: synced_iff synced_written\<close>)
next
  case (OpRename io i n)
  show ?thesis
    by (cases rule: rename_outcomes [of ops json io st i n])
       (use OpRename assms in \<open>simp_all add: synced_iff synced_written\<close>)
qed

interpretation store_run: event_system "apply_op ops json" "\<lambda>st. json_ok json \<longrightarrow> synced json st"
  for ops json
  by unfold_locales (simp add: apply_op_synced)

section \<open>Adding and loading\<close>

lemma find_matching_Some:
  "find_matching ops json st link = Some e \<Longrightarrow>
   e \<in> set (entries st) \<and> load ops json st (entry_id e) = Inr (Some link)"
  by (auto simp: find_matching_def find_Some_iff)

lemma load_cong: "ss_get ops (secure st) i = ss_get ops (secure st') i \<Longrightarrow> load ops json st i = load ops json st' i"
  by (simp add: load_def)

context secure_store
begin

text \<open>The link behind an id, as the secrets stand; what a load that succeeds returns.\<close>

definition link_of :: "json \<Rightarrow> 's store \<Rightarrow> string \<Rightarrow> profile option" where
  "link_of json st i =
     (case secrets (secure st) i of
        Some bs \<Rightarrow> (case profile_from_slice json bs of Inr p \<Rightarrow> Some p | Inl _ \<Rightarrow> None)
      | None \<Rightarrow> None)"

lemma load_link: "load ops json st i = Inr r \<Longrightarrow> r = link_of json st i"
  by (auto simp: load_def link_of_def and_then_eq_Inr secure_err_def serde_err_def
      dest!: get_ok split: sum.splits option.splits)

lemma add_links:
  assumes "json_ok json" "add ops json io uuid now st link nm = (Inr e, st')"
  shows "link_of json st' (entry_id e) = Some link \<and> e \<in> set (entries st') \<and>
    (\<forall>i. i \<noteq> uuid \<longrightarrow> link_of json st' i = link_of json st i)"
proof (cases rule: add_outcomes [of ops json io uuid now st link nm])
  case (existing e')
  with assms(2) show ?thesis by (auto dest!: find_matching_Some load_link)
next
  case (added e' s bs dbs)
  with assms(2) have e: "e' = e" "entry_id e = uuid"
    "st' = st\<lparr>secure := s, entries := entries st @ [e], doc_file := Some dbs\<rparr>" by auto
  have "profile_from_slice json bs = Inr link" using assms(1) added(4) by (simp add: json_ok_def)
  with set_ok [OF added(5)] set_other [OF added(5)] show ?thesis
    by (simp add: e link_of_def)
qed (use assms in auto)

lemma delete_links:
  assumes "delete ops json io st i = (r, st')" "j \<noteq> i"
  shows "link_of json st' j = link_of json st j"
proof -
  have other: "secrets (snd (ss_delete ops (secure st) i)) j = secrets (secure st) j"
    using delete_other [OF _ assms(2)] by (metis prod.collapse)
  show ?thesis
    by (cases rule: delete_outcomes [of ops json io st i])
       (use assms other in \<open>auto simp: link_of_def\<close>)
qed

end

lemma rename_secure: "rename ops json io st i n = (r, st') \<Longrightarrow> secure st' = secure st"
  by (cases rule: rename_outcomes [of ops json io st i n]) auto

section \<open>A concrete setting\<close>

text \<open>
  For the witnesses: a serializer that writes one profile and the documents with it or without
  it and refuses everything else, and a disk that never fails.
\<close>

definition sample_profile :: profile where
  "sample_profile = profile_default\<lparr>server := ''h:1''\<rparr>"

definition sample_entry :: entry where
  "sample_entry = \<lparr>entry_id = ''u'', entry_name = ''h'', created_at = 5\<rparr>"

definition sample_json :: json where
  "sample_json =
     \<lparr>doc_to_vec = \<lambda>d. if d = \<lparr>schema_version = 1, doc_entries = [sample_entry]\<rparr> then Inr [1]
                       else if d = \<lparr>schema_version = 1, doc_entries = []\<rparr> then Inr [0]
                       else Inl ''unsupported'',
      doc_from_slice = \<lambda>b. if b = [1] then Inr \<lparr>schema_version = 1, doc_entries = [sample_entry]\<rparr>
                           else if b = [0] then Inr \<lparr>schema_version = 1, doc_entries = []\<rparr>
                           else Inl ''syntax'',
      profile_to_vec = \<lambda>p. if p = sample_profile then Inr [7] else Inl ''unsupported'',
      profile_from_slice = \<lambda>b. if b = [7] then Inr sample_profile else Inl ''syntax''\<rparr>"

definition fs_ok :: persist_io where
  "fs_ok = \<lparr>io_create_dir = None, io_temp_file = None, io_write = None, io_sync = None, io_rename = None\<rparr>"

definition sample_store :: "dev_secure_store store" where
  "sample_store = \<lparr>secure = dev_new\<lparr>dev_map := [''u'' \<mapsto> [7]]\<rparr>, entries = [sample_entry], doc_file = Some [1]\<rparr>"

lemma sample_json_ok: "json_ok sample_json"
  by (simp add: json_ok_def sample_json_def)

lemma sample_host: "host_of ''h:1'' = ''h''"
  by (simp add: host_of_def str_trim_def trim_with.simps ws_seq_def rsplit_once_def split_once_def
      of_char_def)

lemma sample_writes:
  "ss_set dev_ops dev_new ''u'' [7] = (Inr (), dev_new\<lparr>dev_map := [''u'' \<mapsto> [7]]\<rparr>)"
  "profile_to_vec sample_json sample_profile = Inr [7]"
  "persist_bytes sample_json fs_ok [sample_entry] = Inr [1]"
  by (simp_all add: dev_ops_def dev_set_def dev_lock_def dev_new_def sample_json_def persist_bytes_def
      io_check_def fs_ok_def serde_err_def SCHEMA_VERSION_def)

lemma sample_add:
  "add dev_ops sample_json fs_ok ''u'' (Some 5) \<lparr>secure = dev_new, entries = [], doc_file = None\<rparr>
     sample_profile None = (Inr sample_entry, sample_store)"
proof -
  have e: "\<lparr>entry_id = ''u'', entry_name = host_of (server sample_profile), created_at = 5\<rparr> = sample_entry"
    by (simp add: sample_profile_def sample_entry_def sample_host)
  show ?thesis
    by (simp add: add_def find_matching_def sample_writes e persist_def sample_store_def Let_def)
qed

section \<open>Properties\<close>

text \<open>
  C2. Memory and disk never disagree: after any sequence of add, delete and rename calls, each
  with any outcome of its file system calls, of the secure store, of the clock and of the UUID
  draw, opening the document again gives exactly the entries the store shows.
\<close>

theorem store_matches_disk:
  assumes "json_ok json" "store_new json read_err file s = Inr st"
  shows "store_new json None (doc_file (fold (apply_op ops json) calls st))
      (secure (fold (apply_op ops json) calls st)) = Inr (fold (apply_op ops json) calls st)"
  using store_run.run_inv [of json st ops calls] store_new_sync [OF assms(2)] assms(1)
  by (simp add: synced_def)

theorem store_matches_disk_witness:
  "store_new sample_json None (doc_file sample_store) (secure sample_store) = Inr sample_store"
proof -
  let ?st = "\<lparr>secure = dev_new, entries = [], doc_file = None\<rparr>"
  have "store_new sample_json None None dev_new = Inr ?st"
    by (simp add: store_new_def io_check_def read_entries_def)
  from store_matches_disk [OF sample_json_ok this,
      of dev_ops "[OpAdd fs_ok ''u'' (Some 5) sample_profile None]"]
  show ?thesis by (simp add: sample_add)
qed



text \<open>
  Adding is idempotent by content: when some listed profile's stored link can be read and
  equals the link, the first such entry is returned and nothing changes, in memory, on disk or in
  the secure store. In particular a profile just added is not added twice.
\<close>

lemma add_idempotent:
  assumes "e \<in> set (store_list st)" "load ops json st (entry_id e) = Inr (Some link)"
  shows "\<exists>e'. add ops json io uuid now st link nm = (Inr e', st) \<and> e' \<in> set (store_list st) \<and>
    load ops json st (entry_id e') = Inr (Some link)"
proof -
  have "find_matching ops json st link \<noteq> None"
    using assms by (auto simp: find_matching_def find_None_iff store_list_def)
  then obtain e' where e': "find_matching ops json st link = Some e'" by blast
  with find_matching_Some [OF e'] show ?thesis by (simp add: add_def store_list_def)
qed



text \<open>
  Renaming touches no secret: it changes at most the name of the first entry of the id, to the
  trimmed new name or, when that is blank, to the host of the stored link, and an error or an
  unknown id changes nothing.
\<close>

lemma rename_correct:
  assumes "rename ops json io st i n = (r, st')"
  shows "secure st' = secure st \<and> map entry_id (store_list st') = map entry_id (store_list st) \<and>
    (case r of
       Inl e \<Rightarrow> st' = st
     | Inr b \<Rightarrow> b = (i \<in> entry_id ` set (store_list st)) \<and>
         (if b \<and> str_trim n \<noteq> []
          then \<exists>pos. position i (store_list st) = Some pos \<and>
                 store_list st' =
                   (store_list st)[pos := (store_list st ! pos)\<lparr>entry_name := str_trim n\<rparr>]
          else \<forall>k<length (store_list st).
                 k \<noteq> the (position i (store_list st)) \<longrightarrow> store_list st' ! k = store_list st ! k))"
proof (cases rule: rename_outcomes [of ops json io st i n])
  case absent with assms show ?thesis by (auto simp: store_list_def)
next
  case (failed e) with assms show ?thesis by (auto simp: store_list_def)
next
  case kept with assms show ?thesis by (auto simp: store_list_def)
next
  case (renamed pos name bs)
  have "i \<in> entry_id ` set (entries st)"
    using renamed(1) position_None [of i "entries st"] by auto
  moreover have "map entry_id ((entries st)[pos := (entries st ! pos)\<lparr>entry_name := name\<rparr>]) =
      map entry_id (entries st)"
    using position_Some [OF renamed(1)] by (simp add: map_update list_update_same_conv)
  ultimately show ?thesis using renamed assms by (auto simp: store_list_def split: if_splits)
qed

end
