(* ===== verification/ModelActor.thy ===== *)
theory ModelActor
  imports Store Uri
begin

text \<open>
  The application model, \<^verbatim>\<open>crates/model/src/lib.rs\<close>: a serialized actor that drains commands in
  order, owns the profile store and a state, and talks to three observers and the operating
  system. One command is one step on the pair of store and state; what it sends out is a list of
  outputs. What an \<^verbatim>\<open>add\<close>, \<^verbatim>\<open>delete\<close> or \<^verbatim>\<open>rename\<close> meets outside (file system, clock, UUID)
  comes with the command.
\<close>

section \<open>Data\<close>

definition SNAPSHOT_SCHEMA_VERSION :: nat where "SNAPSHOT_SCHEMA_VERSION = 1"

datatype connection_state = Disconnected | Connecting | Connected | Disconnecting

record stats =
  tx_bytes :: u64
  rx_bytes :: u64

record snapshot =
  snap_schema_version :: nat
  snap_profiles :: "entry list"
  snap_selected_id :: "string option"
  snap_connection :: connection_state
  snap_last_error :: "string option"

datatype intent =
    AddProfileFromUri string
  | RenameProfile string string
  | DeleteProfile string
  | SelectProfile string
  | Connect
  | Disconnect

datatype model_error = StoreErr store_error | Stopped

type_synonym export_result = "model_error + bytes option"

datatype command =
    Intent intent
  | OsStatus connection_state "conn_error option"
  | StatsUpdate stats
  | ExportUri string

record state =
  state_entries :: "entry list"
  selected_id :: "string option"
  connection :: connection_state
  last_error :: "string option"

definition state_default :: state where
  "state_default =
     \<lparr>state_entries = [], selected_id = None, connection = Disconnected, last_error = None\<rparr>"

text \<open>What leaves the actor: the two observers, the tunnel control and the query reply.\<close>

datatype actor_out =
    OnState snapshot
  | OnStats stats
  | TunnelStart string
  | TunnelStop
  | Reply export_result

record call_env =
  env_io :: persist_io
  env_uuid :: string
  env_now :: "u64 option"

section \<open>The actor\<close>

definition state_snapshot :: "state \<Rightarrow> snapshot" where
  "state_snapshot s =
     \<lparr>snap_schema_version = SNAPSHOT_SCHEMA_VERSION, snap_profiles = state_entries s,
      snap_selected_id = selected_id s, snap_connection = connection s, snap_last_error = last_error s\<rparr>"

fun error_sentence :: "conn_error \<Rightarrow> string" where
  "error_sentence AuthFailed = ''Authentication failed. Check the profile's credentials.''"
| "error_sentence ServerUnreachable =
     ''Can't reach the server. Check your network and the server address.''"
| "error_sentence Timeout = ''The connection timed out. Try again.''"
| "error_sentence Unknown = ''Couldn't connect. Try again.''"

definition export ::
  "'s secure_ops \<Rightarrow> json \<Rightarrow> url_codec \<Rightarrow> 's store \<Rightarrow> state \<Rightarrow> string \<Rightarrow> export_result" where
  "export ops json u st s i =
     (case load ops json st i of
        Inl e \<Rightarrow> Inl (StoreErr e)
      | Inr r \<Rightarrow>
          Inr (map_option (\<lambda>p.
            let name = map_option entry_name (find (\<lambda>e. entry_id e = i) (state_entries s))
            in as_bytes (to_uri_with_name u p name)) r))"

fun apply_intent ::
  "'s secure_ops \<Rightarrow> json \<Rightarrow> url_codec \<Rightarrow> call_env \<Rightarrow> intent \<Rightarrow> 's store \<times> state \<Rightarrow>
   ('s store \<times> state) \<times> actor_out list" where
  "apply_intent ops json u env (AddProfileFromUri uri) (st, s) =
     (case parse_uri u uri of
        Some p \<Rightarrow>
          let (r, st') = add ops json (env_io env) (env_uuid env) (env_now env) st p (name_from_uri u uri);
              s' = (case r of
                      Inr e \<Rightarrow> s\<lparr>selected_id := Some (entry_id e), last_error := None\<rparr>
                    | Inl _ \<Rightarrow> s\<lparr>last_error := Some ''Couldn't save that profile.''\<rparr>)
          in ((st', s'\<lparr>state_entries := store_list st'\<rparr>), [])
      | None \<Rightarrow>
          ((st, s\<lparr>last_error := Some ''That doesn't look like a hysteria2:// link.''\<rparr>), []))"
| "apply_intent ops json u env (RenameProfile i n) (st, s) =
     (let (r, st') = rename ops json (env_io env) st i n;
          s' = (case r of
                  Inl _ \<Rightarrow> s\<lparr>last_error := Some ''Couldn't rename that profile.''\<rparr>
                | Inr _ \<Rightarrow> s)
      in ((st', s'\<lparr>state_entries := store_list st'\<rparr>), []))"
| "apply_intent ops json u env (DeleteProfile i) (st, s) =
     (let (r, st') = delete ops json (env_io env) st i;
          s' = (case r of
                  Inr _ \<Rightarrow> if selected_id s = Some i then s\<lparr>selected_id := None\<rparr> else s
                | Inl _ \<Rightarrow> s\<lparr>last_error := Some ''Couldn't delete that profile.''\<rparr>)
      in ((st', s'\<lparr>state_entries := store_list st'\<rparr>), []))"
| "apply_intent ops json u env (SelectProfile i) (st, s) =
     ((st, if list_ex (\<lambda>e. entry_id e = i) (state_entries s) then s\<lparr>selected_id := Some i\<rparr> else s), [])"
| "apply_intent ops json u env Connect (st, s) =
     (case selected_id s of
        Some i \<Rightarrow> ((st, s\<lparr>last_error := None\<rparr>), [TunnelStart i])
      | None \<Rightarrow> ((st, s\<lparr>last_error := Some ''Select a profile before connecting.''\<rparr>), []))"
| "apply_intent ops json u env Disconnect (st, s) = ((st, s), [TunnelStop])"

text \<open>One turn of the loop of \<^verbatim>\<open>run_actor\<close>.\<close>

fun handle ::
  "'s secure_ops \<Rightarrow> json \<Rightarrow> url_codec \<Rightarrow> call_env \<times> command \<Rightarrow> 's store \<times> state \<Rightarrow>
   ('s store \<times> state) \<times> actor_out list" where
  "handle ops json u (env, StatsUpdate c) (st, s) = ((st, s), [OnStats c])"
| "handle ops json u (env, ExportUri i) (st, s) = ((st, s), [Reply (export ops json u st s i)])"
| "handle ops json u (env, OsStatus os err) (st, s) =
     (let s' = s\<lparr>connection := os, last_error := map_option error_sentence err\<rparr>
      in ((st, s'), [OnState (state_snapshot s')]))"
| "handle ops json u (env, Intent i) (st, s) =
     (let ((st', s'), out) = apply_intent ops json u env i (st, s)
      in ((st', s'), out @ [OnState (state_snapshot s')]))"

text \<open>
  The handle: every call puts its command at the end of the channel. \<^verbatim>\<open>export_profile_uri\<close> then
  waits for the \<^term>\<open>Reply\<close>.
\<close>

definition model_send :: "intent \<Rightarrow> command list \<Rightarrow> command list" where
  "model_send i q = q @ [Intent i]"

definition on_os_status :: "connection_state \<Rightarrow> conn_error option \<Rightarrow> command list \<Rightarrow> command list" where
  "on_os_status os err q = q @ [OsStatus os err]"

definition on_stats :: "stats \<Rightarrow> command list \<Rightarrow> command list" where
  "on_stats c q = q @ [StatsUpdate c]"

definition export_profile_uri :: "string \<Rightarrow> command list \<Rightarrow> command list" where
  "export_profile_uri i q = q @ [ExportUri i]"

definition actor_start :: "'s store \<Rightarrow> ('s store \<times> state) \<times> actor_out list" where
  "actor_start st =
     (let s = state_default\<lparr>state_entries := store_list st\<rparr>
      in ((st, s), [OnState (state_snapshot s)]))"

text \<open>\<^verbatim>\<open>Model::new\<close>: an empty channel, and the actor started at its other end.\<close>

definition model_new :: "'s store \<Rightarrow> (command list \<times> 's store \<times> state) \<times> actor_out list" where
  "model_new st = (let (w, out) = actor_start st in (([], w), out))"

fun run_actor ::
  "'s secure_ops \<Rightarrow> json \<Rightarrow> url_codec \<Rightarrow> (call_env \<times> command) list \<Rightarrow> 's store \<times> state \<Rightarrow>
   ('s store \<times> state) \<times> actor_out list" where
  "run_actor ops json u [] w = (w, [])"
| "run_actor ops json u (c # cs) w =
     (let (w', out) = handle ops json u c w; (w'', out') = run_actor ops json u cs w'
      in (w'', out @ out'))"

section \<open>The invariant\<close>

text \<open>
  The state shows what the store lists, and a selection is always one of the listed profiles.
\<close>

definition listed :: "entry list \<Rightarrow> string option \<Rightarrow> bool" where
  "listed es sel \<longleftrightarrow> (\<forall>i. sel = Some i \<longrightarrow> i \<in> entry_id ` set es)"

definition model_inv :: "'s store \<times> state \<Rightarrow> bool" where
  "model_inv w \<longleftrightarrow> state_entries (snd w) = store_list (fst w) \<and>
     listed (state_entries (snd w)) (selected_id (snd w))"

definition snapshot_ok :: "actor_out \<Rightarrow> bool" where
  "snapshot_ok out \<longleftrightarrow> (\<forall>s. out = OnState s \<longrightarrow>
     snap_schema_version s = 1 \<and> listed (snap_profiles s) (snap_selected_id s))"

lemma add_listed:
  assumes "add ops json io uuid now st link nm = (r, st')" "i \<in> entry_id ` set (entries st)"
  shows "i \<in> entry_id ` set (entries st')"
  by (cases rule: add_outcomes [of ops json io uuid now st link nm]) (use assms in auto)

lemma add_returns_listed:
  assumes "add ops json io uuid now st link nm = (Inr e, st')"
  shows "e \<in> set (entries st')"
  by (cases rule: add_outcomes [of ops json io uuid now st link nm])
     (use assms in \<open>auto dest: find_matching_Some\<close>)

lemma rename_ids:
  assumes "rename ops json io st i n = (r, st')"
  shows "map entry_id (entries st') = map entry_id (entries st)"
proof (cases rule: rename_outcomes [of ops json io st i n])
  case (renamed pos name bs)
  then show ?thesis using position_Some [OF renamed(1)] assms
    by (auto simp: map_update list_update_same_conv)
qed (use assms in auto)

lemma delete_listed:
  assumes "delete ops json io st i = (r, st')" "j \<in> entry_id ` set (entries st)"
    and "j \<noteq> i \<or> (\<exists>e. r = Inl e)"
  shows "j \<in> entry_id ` set (entries st')"
proof (cases rule: delete_outcomes [of ops json io st i])
  case (deleted pos bs)
  have pos: "pos < length (entries st)" "entry_id (entries st ! pos) = i"
    using position_Some [OF deleted(1)] by auto
  have "set (entries st) = insert (entries st ! pos) (set (vec_remove pos (entries st)))"
    unfolding vec_remove_def using id_take_nth_drop [OF pos(1)]
    by (metis Un_insert_right list.simps(15) set_append)
  moreover have "j \<noteq> i" using assms(1,3) deleted(2) by auto
  ultimately show ?thesis using assms(1,2) deleted(2) pos(2) by auto
qed (use assms in auto)

lemma apply_intent_inv:
  assumes "model_inv w"
  shows "model_inv (fst (apply_intent ops json u env i w))"
proof -
  obtain st s where w: "w = (st, s)" by force
  have inv: "state_entries s = entries st" "listed (entries st) (selected_id s)"
    using assms by (auto simp: model_inv_def w store_list_def)
  show ?thesis
  proof (cases i)
    case (AddProfileFromUri uri)
    show ?thesis
    proof (cases "parse_uri u uri")
      case None with AddProfileFromUri inv show ?thesis by (simp add: w model_inv_def store_list_def)
    next
      case (Some p)
      obtain r st' where a: "add ops json (env_io env) (env_uuid env) (env_now env) st p
          (name_from_uri u uri) = (r, st')" by force
      show ?thesis
        using AddProfileFromUri Some a inv add_listed [OF a]
        by (cases r)
           (auto simp: w model_inv_def store_list_def listed_def intro: imageI dest: add_returns_listed)
    qed
  next
    case (RenameProfile j n)
    obtain r st' where a: "rename ops json (env_io env) st j n = (r, st')" by force
    have "entry_id ` set (entries st') = entry_id ` set (entries st)"
      using rename_ids [OF a] by (metis list.set_map)
    with RenameProfile a inv show ?thesis
      by (cases r) (auto simp: w model_inv_def store_list_def listed_def)
  next
    case (DeleteProfile j)
    obtain r st' where a: "delete ops json (env_io env) st j = (r, st')" by force
    show ?thesis
      using DeleteProfile a inv delete_listed [OF a]
      by (cases r) (auto simp: w model_inv_def store_list_def listed_def)
  next
    case (SelectProfile j)
    with inv show ?thesis
      by (auto simp: w model_inv_def store_list_def listed_def list_ex_iff)
  next
    case Connect with inv show ?thesis
      by (auto simp: w model_inv_def store_list_def split: option.splits)
  next
    case Disconnect with inv show ?thesis by (simp add: w model_inv_def store_list_def)
  qed
qed

lemma apply_intent_out:
  assumes "o' \<in> set (snd (apply_intent ops json u env i w))"
  shows "(o' = TunnelStop \<and> i = Disconnect) \<or>
    (i = Connect \<and> (\<exists>j. o' = TunnelStart j \<and> selected_id (snd w) = Some j))"
  using assms by (cases w; cases i) (auto simp: Let_def split: option.splits prod.splits)

lemma handle_inv: "model_inv w \<Longrightarrow> model_inv (fst (handle ops json u c w))"
proof -
  assume inv: "model_inv w"
  obtain env cmd st s where c: "c = (env, cmd)" "w = (st, s)" by (metis surj_pair)
  show ?thesis
  proof (cases cmd)
    case (Intent i)
    then show ?thesis using apply_intent_inv [OF inv, of ops json u env i] c
      by (simp add: split_def Let_def)
  qed (use inv c in \<open>auto simp: model_inv_def Let_def\<close>)
qed

lemma handle_out:
  assumes "model_inv w" "o' \<in> set (snd (handle ops json u c w))"
  shows "snapshot_ok o' \<and>
    (\<forall>i. o' = TunnelStart i \<longrightarrow> snd c = Intent Connect \<and> i \<in> entry_id ` set (store_list (fst w)))"
proof -
  obtain env cmd st s where c: "c = (env, cmd)" "w = (st, s)" by (metis surj_pair)
  have snap: "snapshot_ok (OnState (state_snapshot (snd (fst (handle ops json u c w)))))"
    using handle_inv [OF assms(1), of ops json u c]
    by (auto simp: snapshot_ok_def state_snapshot_def model_inv_def SNAPSHOT_SCHEMA_VERSION_def)
  show ?thesis
  proof (cases cmd)
    case (Intent i)
    have "o' \<in> set (snd (apply_intent ops json u env i w)) \<or>
        o' = OnState (state_snapshot (snd (fst (handle ops json u c w))))"
      using assms(2) Intent c by (auto simp: split_def Let_def)
    then show ?thesis
      using apply_intent_out [of o' ops json u env i w] snap assms(1) Intent c
      by (auto simp: snapshot_ok_def model_inv_def listed_def)
  qed (use assms(2) snap c in \<open>auto simp: Let_def snapshot_ok_def\<close>)
qed

interpretation actor: traced_system
  "\<lambda>c w. fst (handle ops json u c w)" model_inv "\<lambda>c w. snd (handle ops json u c w)" snapshot_ok
  for ops json u
  by unfold_locales (auto simp: handle_inv dest: handle_out)

lemma run_actor_eq:
  "run_actor ops json u cs w =
     (fold (\<lambda>c w. fst (handle ops json u c w)) cs w, actor.outputs ops json u cs w)"
  by (induction cs arbitrary: w) (auto simp: split_def Let_def)

lemma actor_start_inv: "model_inv (fst (actor_start st))"
  by (simp add: actor_start_def model_inv_def state_default_def listed_def Let_def)

section \<open>The connection state\<close>

fun os_states :: "(call_env \<times> command) list \<Rightarrow> connection_state list" where
  "os_states [] = []"
| "os_states ((env, OsStatus os err) # cs) = os # os_states cs"
| "os_states (c # cs) = os_states cs"

lemma apply_intent_connection:
  "connection (snd (fst (apply_intent ops json u env i w))) = connection (snd w)"
  by (cases w; cases i) (auto simp: Let_def split: option.splits prod.splits sum.splits)

lemma handle_connection:
  "connection (snd (fst (handle ops json u (env, cmd) w))) =
     (case cmd of OsStatus os err \<Rightarrow> os | _ \<Rightarrow> connection (snd w))"
  using apply_intent_connection [of ops json u env _ w]
  by (cases w; cases cmd) (auto simp: Let_def split_def)

lemma run_connection:
  "connection (snd (fst (run_actor ops json u cs w))) = last (connection (snd w) # os_states cs)"
proof (induction cs arbitrary: w)
  case (Cons c cs)
  obtain env cmd where c: "c = (env, cmd)" by force
  have "fst (run_actor ops json u (c # cs) w) = fst (run_actor ops json u cs (fst (handle ops json u c w)))"
    by (simp add: split_def Let_def)
  with Cons [of "fst (handle ops json u c w)"] handle_connection [of ops json u env cmd w] c
  show ?case by (cases cmd) simp_all
qed simp

definition is_snapshot :: "actor_out \<Rightarrow> bool" where
  "is_snapshot out = (case out of OnState _ \<Rightarrow> True | _ \<Rightarrow> False)"

lemma handle_snapshots:
  "filter is_snapshot (snd (handle ops json u (env, cmd) w)) =
     (case cmd of StatsUpdate _ \<Rightarrow> [] | ExportUri _ \<Rightarrow> []
      | _ \<Rightarrow> [OnState (state_snapshot (snd (fst (handle ops json u (env, cmd) w))))])"
proof (cases cmd)
  case (Intent i)
  have "filter is_snapshot (snd (apply_intent ops json u env i w)) = []"
    unfolding filter_empty_conv is_snapshot_def
    by (auto dest!: apply_intent_out)
  with Intent show ?thesis by (cases w) (simp add: split_def Let_def is_snapshot_def)
qed (cases w; simp add: is_snapshot_def Let_def)+

section \<open>Properties\<close>



text \<open>
  The connection state shown is never optimistic: after any commands it is the one of the last
  operating system status, or disconnected when there was none. Intents such as connect and
  disconnect do not touch it.
\<close>

lemma connection_only_from_os:
  "connection (snd (fst (run_actor ops json u cs (fst (actor_start st))))) =
     last (Disconnected # os_states cs)"
  unfolding run_connection by (simp add: actor_start_def state_default_def Let_def)

text \<open>
  One command gives at most one snapshot: a statistics update gives only a statistics event, an
  export only its reply, and neither changes store or state; every other command gives exactly one
  snapshot, of the state it leaves. The tunnel is started only by a connect intent and only for a
  profile in the store.
\<close>

lemma handle_output_discipline:
  assumes "model_inv w"
  shows "filter is_snapshot (snd (handle ops json u (env, cmd) w)) =
      (case cmd of StatsUpdate _ \<Rightarrow> [] | ExportUri _ \<Rightarrow> []
       | _ \<Rightarrow> [OnState (state_snapshot (snd (fst (handle ops json u (env, cmd) w))))]) \<and>
    ((\<exists>c. cmd = StatsUpdate c) \<or> (\<exists>i. cmd = ExportUri i) \<longrightarrow>
       fst (handle ops json u (env, cmd) w) = w) \<and>
    (\<forall>i. TunnelStart i \<in> set (snd (handle ops json u (env, cmd) w)) \<longrightarrow>
       cmd = Intent Connect \<and> i \<in> entry_id ` set (store_list (fst w)))"
  using handle_snapshots [of ops json u env cmd w] handle_out [OF assms, of _ ops json u "(env, cmd)"]
  by (cases w) auto

end
