(* ===== verification/FfiApp.thy ===== *)
theory FfiApp
  imports ModelActor
begin

text \<open>
  The application facade, \<^verbatim>\<open>crates/ffi-app\<close>: the value types that cross the language boundary, their
  conversions, the adapters around the foreign callbacks, and \<^verbatim>\<open>App\<close>, every call of which becomes a
  command of the model actor. The foreign secure store is a parameter; the foreign observers receive
  the calls listed here as outputs.
\<close>

section \<open>Value types\<close>

datatype app_connection_state = AppDisconnected | AppConnecting | AppConnected | AppDisconnecting

record profile_entry =
  pe_id :: string
  pe_name :: string
  pe_created_at :: u64

record app_snapshot =
  as_schema_version :: nat
  as_profiles :: "profile_entry list"
  as_selected_id :: "string option"
  as_connection :: app_connection_state
  as_last_error :: "string option"

record app_stats =
  as_tx_bytes :: u64
  as_rx_bytes :: u64

datatype app_error = AppStore string | AppStopped

datatype app_secure_error = Backend string

section \<open>Conversions\<close>

fun to_app_state :: "connection_state \<Rightarrow> app_connection_state" where
  "to_app_state Disconnected = AppDisconnected"
| "to_app_state Connecting = AppConnecting"
| "to_app_state Connected = AppConnected"
| "to_app_state Disconnecting = AppDisconnecting"

fun of_app_state :: "app_connection_state \<Rightarrow> connection_state" where
  "of_app_state AppDisconnected = Disconnected"
| "of_app_state AppConnecting = Connecting"
| "of_app_state AppConnected = Connected"
| "of_app_state AppDisconnecting = Disconnecting"

instantiation app_connection_state :: enum
begin

definition enum_app_connection_state_def:
  "Enum.enum = [AppDisconnected, AppConnecting, AppConnected, AppDisconnecting]"

definition enum_all_app_connection_state_def:
  "Enum.enum_all P \<longleftrightarrow> P AppDisconnected \<and> P AppConnecting \<and> P AppConnected \<and> P AppDisconnecting"

definition enum_ex_app_connection_state_def:
  "Enum.enum_ex P \<longleftrightarrow> P AppDisconnected \<or> P AppConnecting \<or> P AppConnected \<or> P AppDisconnecting"

instance
proof
  have all: "x \<in> {AppDisconnected, AppConnecting, AppConnected, AppDisconnecting}" for x :: app_connection_state
    by (cases x) simp_all
  then show "UNIV = set (Enum.enum :: app_connection_state list)" unfolding enum_app_connection_state_def by auto
  show "distinct (Enum.enum :: app_connection_state list)" by (simp add: enum_app_connection_state_def)
  show "Enum.enum_all P \<longleftrightarrow> Ball UNIV P" "Enum.enum_ex P \<longleftrightarrow> Bex UNIV P" for P :: "app_connection_state \<Rightarrow> bool"
    using all unfolding enum_all_app_connection_state_def enum_ex_app_connection_state_def
    by (metis UNIV_I empty_iff insert_iff)+
qed

end

text \<open>The state crosses the boundary both ways unchanged.\<close>

lemma app_state_round_trip [simp]: "to_app_state (of_app_state s) = s" "of_app_state (to_app_state s') = s'"
proof -
  have "\<forall>s. to_app_state (of_app_state s) = s" by code_simp
  then show "to_app_state (of_app_state s) = s" ..
  show "of_app_state (to_app_state s') = s'" by (cases s') simp_all
qed

definition to_profile_entry :: "entry \<Rightarrow> profile_entry" where
  "to_profile_entry e = \<lparr>pe_id = entry_id e, pe_name = entry_name e, pe_created_at = created_at e\<rparr>"

definition to_app_snapshot :: "snapshot \<Rightarrow> app_snapshot" where
  "to_app_snapshot s =
     \<lparr>as_schema_version = snap_schema_version s, as_profiles = map to_profile_entry (snap_profiles s),
      as_selected_id = snap_selected_id s, as_connection = to_app_state (snap_connection s),
      as_last_error = snap_last_error s\<rparr>"

definition to_app_stats :: "stats \<Rightarrow> app_stats" where
  "to_app_stats s = \<lparr>as_tx_bytes = tx_bytes s, as_rx_bytes = rx_bytes s\<rparr>"

definition of_app_stats :: "app_stats \<Rightarrow> stats" where
  "of_app_stats s = \<lparr>tx_bytes = as_tx_bytes s, rx_bytes = as_rx_bytes s\<rparr>"

text \<open>The \<^verbatim>\<open>Display\<close> texts of \<^verbatim>\<open>StoreError\<close>; that of an I/O error is a parameter.\<close>

fun display_store_error :: "(io_error \<Rightarrow> string) \<Rightarrow> store_error \<Rightarrow> string" where
  "display_store_error dio (Io e) = ''could not read or write the profile store: '' @ dio e"
| "display_store_error dio (Serde e) = ''the profile store data could not be parsed: '' @ e"
| "display_store_error dio (Secure e) = ''secure store error: '' @ secure_message e"
| "display_store_error dio Clock = ''the system clock is set before 1970; fix the clock''"
| "display_store_error dio (UnsupportedSchema v) =
     ''the profile store is version '' @ show_nat v @ '', newer than this app supports ('' @
     show_nat SCHEMA_VERSION @ ''); update the app to open it''"

fun to_app_error :: "(io_error \<Rightarrow> string) \<Rightarrow> model_error \<Rightarrow> app_error" where
  "to_app_error dio (StoreErr e) = AppStore (display_store_error dio e)"
| "to_app_error dio Stopped = AppStopped"

section \<open>Adapters\<close>

record 's foreign_ops =
  foreign_get :: "'s \<Rightarrow> string \<Rightarrow> app_secure_error + bytes option"
  foreign_set :: "'s \<Rightarrow> string \<Rightarrow> bytes \<Rightarrow> (app_secure_error + unit) \<times> 's"
  foreign_delete :: "'s \<Rightarrow> string \<Rightarrow> (app_secure_error + unit) \<times> 's"

fun adapt_secure_err :: "app_secure_error \<Rightarrow> secure_store_error" where
  "adapt_secure_err (Backend m) = \<lparr>secure_message = m\<rparr>"

definition adapt_result :: "app_secure_error + 'a \<Rightarrow> secure_store_error + 'a" where
  "adapt_result r = (case r of Inl e \<Rightarrow> Inl (adapt_secure_err e) | Inr x \<Rightarrow> Inr x)"

definition secure_adapter :: "'s foreign_ops \<Rightarrow> 's secure_ops" where
  "secure_adapter f =
     \<lparr>ss_get = \<lambda>s i. adapt_result (foreign_get f s i),
      ss_set = \<lambda>s i b. apfst adapt_result (foreign_set f s i b),
      ss_delete = \<lambda>s i. apfst adapt_result (foreign_delete f s i)\<rparr>"

text \<open>
  The calls that reach foreign code, and the adapters: snapshots and tunnel requests go through,
  statistics go to the subscriber if there is one.
\<close>

datatype 'o foreign_out =
    ForeignState app_snapshot
  | ForeignStats 'o app_stats
  | ForeignStart string
  | ForeignStop
  | ExportReply "app_error + bytes option"

fun adapt_out :: "(io_error \<Rightarrow> string) \<Rightarrow> 'o option \<Rightarrow> actor_out \<Rightarrow> 'o foreign_out list" where
  "adapt_out dio slot (OnState s) = [ForeignState (to_app_snapshot s)]"
| "adapt_out dio slot (OnStats c) =
     (case slot of Some ob \<Rightarrow> [ForeignStats ob (to_app_stats c)] | None \<Rightarrow> [])"
| "adapt_out dio slot (TunnelStart i) = [ForeignStart i]"
| "adapt_out dio slot TunnelStop = [ForeignStop]"
| "adapt_out dio slot (Reply r) =
     [ExportReply (case r of Inl e \<Rightarrow> Inl (to_app_error dio e) | Inr x \<Rightarrow> Inr x)]"

section \<open>The facade\<close>

record ('s, 'o) app =
  app_queue :: "command list"
  app_actor :: "'s store \<times> state"
  stats_slot :: "'o option"

text \<open>\<^verbatim>\<open>App::new\<close>: opening the store may fail; the actor starts with a snapshot.\<close>

definition app_new ::
  "(io_error \<Rightarrow> string) \<Rightarrow> json \<Rightarrow> io_error option \<Rightarrow> bytes option \<Rightarrow> 's \<Rightarrow>
   app_error + (('s, 'o) app \<times> 'o foreign_out list)" where
  "app_new dio json read_err file sec =
     (case store_new json read_err file sec of
        Inl e \<Rightarrow> Inl (AppStore (display_store_error dio e))
      | Inr st \<Rightarrow>
          let ((q, w), out) = model_new st
          in Inr (\<lparr>app_queue = q, app_actor = w, stats_slot = None\<rparr>, concat (map (adapt_out dio None) out)))"

datatype 'o app_call =
    CallAdd string
  | CallRename string string
  | CallDelete string
  | CallSelect string
  | CallConnect
  | CallDisconnect
  | CallOsStatus app_connection_state "int option"
  | CallStats app_stats
  | CallSubscribe 'o
  | CallUnsubscribe
  | CallExport string

fun call_model :: "'o app_call \<Rightarrow> command list \<Rightarrow> command list" where
  "call_model (CallAdd uri) q = model_send (AddProfileFromUri uri) q"
| "call_model (CallRename i n) q = model_send (RenameProfile i n) q"
| "call_model (CallDelete i) q = model_send (DeleteProfile i) q"
| "call_model (CallSelect i) q = model_send (SelectProfile i) q"
| "call_model CallConnect q = model_send Connect q"
| "call_model CallDisconnect q = model_send Disconnect q"
| "call_model (CallOsStatus st code') q = on_os_status (of_app_state st) (map_option from_code code') q"
| "call_model (CallStats c) q = on_stats (of_app_stats c) q"
| "call_model (CallSubscribe ob) q = q"
| "call_model CallUnsubscribe q = q"
| "call_model (CallExport i) q = export_profile_uri i q"

fun call_slot :: "'o app_call \<Rightarrow> 'o option \<Rightarrow> 'o option" where
  "call_slot (CallSubscribe ob) slot = Some ob"
| "call_slot CallUnsubscribe slot = None"
| "call_slot _ slot = slot"

definition perform_call :: "'o app_call \<Rightarrow> ('s, 'o) app \<Rightarrow> ('s, 'o) app" where
  "perform_call c a =
     a\<lparr>app_queue := call_model c (app_queue a),
       stats_slot := call_slot c (stats_slot a)\<rparr>"

text \<open>One turn of the actor thread.\<close>

definition actor_turn ::
  "'s secure_ops \<Rightarrow> json \<Rightarrow> url_codec \<Rightarrow> (io_error \<Rightarrow> string) \<Rightarrow> call_env \<Rightarrow> ('s, 'o) app \<Rightarrow>
   ('s, 'o) app \<times> 'o foreign_out list" where
  "actor_turn ops json u dio env a =
     (case app_queue a of
        [] \<Rightarrow> (a, [])
      | cmd # q \<Rightarrow>
          let (w, out) = handle ops json u (env, cmd) (app_actor a)
          in (a\<lparr>app_queue := q, app_actor := w\<rparr>, concat (map (adapt_out dio (stats_slot a)) out)))"

datatype 'o app_event = AppCall "'o app_call" | ActorTurn call_env

fun app_run ::
  "'s secure_ops \<Rightarrow> json \<Rightarrow> url_codec \<Rightarrow> (io_error \<Rightarrow> string) \<Rightarrow> 'o app_event list \<Rightarrow> ('s, 'o) app \<Rightarrow>
   ('s, 'o) app \<times> 'o foreign_out list" where
  "app_run ops json u dio [] a = (a, [])"
| "app_run ops json u dio (AppCall c # es) a = app_run ops json u dio es (perform_call c a)"
| "app_run ops json u dio (ActorTurn env # es) a =
     (let (a', out) = actor_turn ops json u dio env a; (a'', out') = app_run ops json u dio es a'
      in (a'', out @ out'))"

section \<open>The secure store behind the adapter\<close>

locale foreign_store =
  fixes fops :: "'s foreign_ops"
    and secrets :: "'s \<Rightarrow> string \<Rightarrow> bytes option"
  assumes foreign_get_ok: "foreign_get fops s i = Inr r \<Longrightarrow> r = secrets s i"
    and foreign_set_ok: "foreign_set fops s i b = (Inr u, s') \<Longrightarrow> secrets s' i = Some b"
    and foreign_set_other: "foreign_set fops s i b = (r', s') \<Longrightarrow> j \<noteq> i \<Longrightarrow> secrets s' j = secrets s j"
    and foreign_delete_ok: "foreign_delete fops s i = (Inr u, s') \<Longrightarrow> secrets s' i = None"
    and foreign_delete_other: "foreign_delete fops s i = (r', s') \<Longrightarrow> j \<noteq> i \<Longrightarrow> secrets s' j = secrets s j"

sublocale foreign_store \<subseteq> adapted: secure_store "secure_adapter fops" secrets
proof unfold_locales
  have inr: "adapt_result r = Inr x \<Longrightarrow> r = Inr x" for r :: "app_secure_error + 'b" and x
    by (auto simp: adapt_result_def split: sum.splits)
  fix s s' i j r b u and r' :: "secure_store_error + unit"
  show "ss_get (secure_adapter fops) s i = Inr r \<Longrightarrow> r = secrets s i"
    by (auto simp: secure_adapter_def dest!: inr foreign_get_ok)
  show "ss_set (secure_adapter fops) s i b = (Inr u, s') \<Longrightarrow> secrets s' i = Some b"
    by (cases "foreign_set fops s i b") (auto simp: secure_adapter_def dest!: inr foreign_set_ok)
  show "ss_set (secure_adapter fops) s i b = (r', s') \<Longrightarrow> j \<noteq> i \<Longrightarrow> secrets s' j = secrets s j"
    by (cases "foreign_set fops s i b") (auto simp: secure_adapter_def dest: foreign_set_other)
  show "ss_delete (secure_adapter fops) s i = (Inr u, s') \<Longrightarrow> secrets s' i = None"
    by (cases "foreign_delete fops s i") (auto simp: secure_adapter_def dest!: inr foreign_delete_ok)
  show "ss_delete (secure_adapter fops) s i = (r', s') \<Longrightarrow> j \<noteq> i \<Longrightarrow> secrets s' j = secrets s j"
    by (cases "foreign_delete fops s i") (auto simp: secure_adapter_def dest: foreign_delete_other)
qed

text \<open>The in-memory store of the crate's tests keeps the contract.\<close>

definition mem_get :: "(string \<Rightarrow> bytes option) \<Rightarrow> string \<Rightarrow> app_secure_error + bytes option" where
  "mem_get m i = Inr (m i)"

definition mem_set :: "(string \<Rightarrow> bytes option) \<Rightarrow> string \<Rightarrow> bytes \<Rightarrow>
  (app_secure_error + unit) \<times> (string \<Rightarrow> bytes option)" where
  "mem_set m i b = (Inr (), m(i \<mapsto> b))"

definition mem_delete :: "(string \<Rightarrow> bytes option) \<Rightarrow> string \<Rightarrow>
  (app_secure_error + unit) \<times> (string \<Rightarrow> bytes option)" where
  "mem_delete m i = (Inr (), m(i := None))"

definition mem_store :: "(string \<Rightarrow> bytes option) foreign_ops" where
  "mem_store = \<lparr>foreign_get = mem_get, foreign_set = mem_set, foreign_delete = mem_delete\<rparr>"

interpretation mem: foreign_store mem_store "\<lambda>m. m"
  by unfold_locales (auto simp: mem_store_def mem_get_def mem_set_def mem_delete_def)

section \<open>Calls and turns\<close>

text \<open>The command a call stands for, if any.\<close>

fun call_command :: "'o app_call \<Rightarrow> command option" where
  "call_command (CallAdd uri) = Some (Intent (AddProfileFromUri uri))"
| "call_command (CallRename i n) = Some (Intent (RenameProfile i n))"
| "call_command (CallDelete i) = Some (Intent (DeleteProfile i))"
| "call_command (CallSelect i) = Some (Intent (SelectProfile i))"
| "call_command CallConnect = Some (Intent Connect)"
| "call_command CallDisconnect = Some (Intent Disconnect)"
| "call_command (CallOsStatus st code') = Some (OsStatus (of_app_state st) (map_option from_code code'))"
| "call_command (CallStats c) = Some (StatsUpdate (of_app_stats c))"
| "call_command (CallSubscribe ob) = None"
| "call_command CallUnsubscribe = None"
| "call_command (CallExport i) = Some (ExportUri i)"

lemma call_model_command: "call_model c q = q @ (case call_command c of Some cmd \<Rightarrow> [cmd] | None \<Rightarrow> [])"
  by (cases c) (simp_all add: model_send_def on_os_status_def on_stats_def export_profile_uri_def)

text \<open>The commands issued by the calls of a run, and those handled by its turns with those left.\<close>

fun issued :: "'o app_event list \<Rightarrow> command list" where
  "issued [] = []"
| "issued (AppCall c # es) = (case call_command c of Some cmd \<Rightarrow> [cmd] | None \<Rightarrow> []) @ issued es"
| "issued (ActorTurn env # es) = issued es"

fun handled :: "'o app_event list \<Rightarrow> command list \<Rightarrow> (call_env \<times> command) list \<times> command list" where
  "handled [] q = ([], q)"
| "handled (AppCall c # es) q = handled es (q @ (case call_command c of Some cmd \<Rightarrow> [cmd] | None \<Rightarrow> []))"
| "handled (ActorTurn env # es) [] = handled es []"
| "handled (ActorTurn env # es) (cmd # q) = apfst (\<lambda>h. (env, cmd) # h) (handled es q)"

lemma handled_fifo: "map snd (fst (handled es q)) @ snd (handled es q) = q @ issued es"
  by (induction es q rule: handled.induct) simp_all

fun subscribers :: "'o app_event list \<Rightarrow> 'o set" where
  "subscribers [] = {}"
| "subscribers (AppCall (CallSubscribe ob) # es) = insert ob (subscribers es)"
| "subscribers (_ # es) = subscribers es"

fun is_stats :: "'o foreign_out \<Rightarrow> bool" where
  "is_stats (ForeignStats ob c) = True"
| "is_stats _ = False"

lemma adapt_out_quiet: "filter (\<lambda>x. \<not> is_stats x) (adapt_out dio slot out) = adapt_out dio None out"
  by (cases out) (auto split: option.splits)

lemma adapt_outs_quiet:
  "filter (\<lambda>x. \<not> is_stats x) (concat (map (adapt_out dio slot) outs)) = concat (map (adapt_out dio None) outs)"
  by (induction outs) (simp_all add: adapt_out_quiet)

lemma adapt_out_stats: "ForeignStats ob c \<in> set (adapt_out dio slot out) \<Longrightarrow> slot = Some ob"
  by (cases out) (auto split: option.splits)

lemma app_run_refines:
  "app_actor (fst (app_run ops json u dio es a)) =
     fst (run_actor ops json u (fst (handled es (app_queue a))) (app_actor a)) \<and>
   app_queue (fst (app_run ops json u dio es a)) = snd (handled es (app_queue a)) \<and>
   filter (\<lambda>x. \<not> is_stats x) (snd (app_run ops json u dio es a)) =
     concat (map (adapt_out dio None) (snd (run_actor ops json u (fst (handled es (app_queue a))) (app_actor a))))"
proof (induction es arbitrary: a)
  case (Cons e es)
  show ?case
  proof (cases e)
    case (AppCall c)
    then show ?thesis using Cons.IH [of "perform_call c a"] by (simp add: perform_call_def call_model_command)
  next
    case (ActorTurn env)
    show ?thesis
    proof (cases "app_queue a")
      case Nil
      then show ?thesis using Cons.IH [of a] ActorTurn by (simp add: actor_turn_def split: prod.splits)
    next
      case q: (Cons cmd q)
      obtain w out where h: "handle ops json u (env, cmd) (app_actor a) = (w, out)" by fastforce
      show ?thesis using Cons.IH [of "a\<lparr>app_queue := q, app_actor := w\<rparr>"] ActorTurn q
        by (simp add: actor_turn_def h adapt_outs_quiet split_def Let_def)
    qed
  qed
qed simp

lemma app_run_stats:
  "ForeignStats ob c \<in> set (snd (app_run ops json u dio es a)) \<Longrightarrow>
   ob \<in> subscribers es \<or> stats_slot a = Some ob"
proof (induction es arbitrary: a)
  case (Cons e es)
  show ?case
  proof (cases e)
    case (AppCall call)
    with Cons.prems have "ob \<in> subscribers es \<or> stats_slot (perform_call call a) = Some ob"
      using Cons.IH by simp
    with AppCall show ?thesis by (cases call) (auto simp: perform_call_def call_model_command)
  next
    case (ActorTurn env)
    obtain a' out where t: "actor_turn ops json u dio env a = (a', out)" by fastforce
    have "stats_slot a' = stats_slot a"
      using t by (auto simp: actor_turn_def split: list.splits prod.splits)
    moreover have "stats_slot a = Some ob" if "ForeignStats ob c \<in> set out"
      using that t by (auto simp: actor_turn_def split: list.splits prod.splits dest: adapt_out_stats)
    ultimately show ?thesis using Cons.IH [of a'] Cons.prems ActorTurn t by (auto split: prod.splits)
  qed
qed simp

lemma adapt_state_ok:
  assumes "snapshot_ok out" "ForeignState s \<in> set (adapt_out dio slot out)"
  shows "\<forall>i. as_selected_id s = Some i \<longrightarrow> i \<in> pe_id ` set (as_profiles s)"
  using assms by (cases out) (auto simp: snapshot_ok_def listed_def to_app_snapshot_def to_profile_entry_def
      image_image split: option.splits)

section \<open>Properties\<close>



end
