(* ===== verification/StrTypes.thy ===== *)
theory StrTypes
  imports ModelActor
begin

text \<open>
  The strings of the program as Rust types: a \<^verbatim>\<open>String\<close> is valid UTF-8, and \<^verbatim>\<open>str\<close> operations cut it at
  character boundaries only. The lemmas show it of the slicing the link parser and the store do, and
  the property follows the strings from a share link or the profile file to what the model shows.
\<close>

section \<open>Character boundaries\<close>

text \<open>One well-formed character; a text is a sequence of them.\<close>

fun utf8_char :: "bytes \<Rightarrow> bool" where
  "utf8_char [a] = (a < 0x80)"
| "utf8_char [a, b] = (0xC2 \<le> a \<and> a \<le> 0xDF \<and> cont_byte b)"
| "utf8_char [a, b, c] = (utf8_second3 a b \<and> cont_byte c)"
| "utf8_char [a, b, c, d] = (utf8_second4 a b \<and> cont_byte c \<and> cont_byte d)"
| "utf8_char _ = False"

lemma second3_range: "utf8_second3 a b \<Longrightarrow> 0xE0 \<le> a \<and> a \<le> 0xEF \<and> cont_byte b"
  by (auto simp: utf8_second3_def cont_byte_def word_le_nat_alt)

lemma second4_range: "utf8_second4 a b \<Longrightarrow> 0xF0 \<le> a \<and> cont_byte b"
  by (auto simp: utf8_second4_def cont_byte_def word_le_nat_alt)

declare utf8_valid.simps(2) [simp del]

lemma utf8_char_append: "utf8_char c \<Longrightarrow> utf8_valid (c @ r) = utf8_valid r"
proof (induction c rule: utf8_char.induct)
  case (2 a b)
  then show ?case by (auto simp: utf8_valid.simps(2) word_le_nat_alt word_less_nat_alt)
next
  case (3 a b c)
  then show ?case using second3_range [of a b] by (auto simp: utf8_valid.simps(2) word_le_nat_alt word_less_nat_alt)
next
  case (4 a b c d)
  then show ?case using second4_range [of a b] by (auto simp: utf8_valid.simps(2) word_le_nat_alt word_less_nat_alt)
qed (simp_all add: utf8_valid.simps(2))

lemma utf8_first:
  assumes "utf8_valid (a # r)"
  shows "\<exists>c r'. a # r = c @ r' \<and> utf8_char c \<and> utf8_valid r'"
proof (cases "a < 0x80")
  case True
  with assms show ?thesis by (intro exI [of _ "[a]"] exI [of _ r]) (simp add: utf8_valid.simps(2))
next
  case F: False
  with assms obtain b r2 where r: "r = b # r2" by (auto simp: utf8_valid.simps(2) split: list.splits)
  show ?thesis
  proof (cases "0xC2 \<le> a \<and> a \<le> 0xDF")
    case True
    with assms F show ?thesis by (intro exI [of _ "[a, b]"] exI [of _ r2]) (simp add: utf8_valid.simps(2) r)
  next
    case F2: False
    with assms F r obtain c r3 where r2: "r2 = c # r3" by (auto simp: utf8_valid.simps(2) split: list.splits)
    show ?thesis
    proof (cases "a < 0xF0")
      case True
      with assms F F2 show ?thesis
        by (intro exI [of _ "[a, b, c]"] exI [of _ r3]) (simp add: utf8_valid.simps(2) [of a] r r2)
    next
      case F3: False
      with assms F F2 r r2 obtain d r4 where r3: "r3 = d # r4" by (auto simp: utf8_valid.simps(2) [of a] split: list.splits)
      with assms F F2 F3 show ?thesis
        by (intro exI [of _ "[a, b, c, d]"] exI [of _ r4]) (simp add: utf8_valid.simps(2) [of a] r r2)
    qed
  qed
qed

lemma utf8_chars: "utf8_valid bs \<longleftrightarrow> (\<exists>cs. (\<forall>c\<in>set cs. utf8_char c) \<and> bs = concat cs)"
proof
  assume "utf8_valid bs"
  then show "\<exists>cs. (\<forall>c\<in>set cs. utf8_char c) \<and> bs = concat cs"
  proof (induction bs rule: length_induct)
    case (1 bs)
    show ?case
    proof (cases bs)
      case (Cons a r)
      with 1(2) obtain c r' where c: "bs = c @ r'" "utf8_char c" "utf8_valid r'" using utf8_first by blast
      then have "length r' < length bs" by (cases c) auto
      with 1(1) c(3) obtain cs where "\<forall>c\<in>set cs. utf8_char c" "r' = concat cs" by blast
      with c(1,2) show ?thesis by (intro exI [of _ "c # cs"]) simp
    qed (intro exI [of _ "[]"], simp)
  qed
next
  assume "\<exists>cs. (\<forall>c\<in>set cs. utf8_char c) \<and> bs = concat cs"
  then obtain cs where "\<forall>c\<in>set cs. utf8_char c" "bs = concat cs" by blast
  then show "utf8_valid bs" by (induction cs arbitrary: bs) (auto simp: utf8_char_append)
qed

lemma utf8_append: "utf8_valid x \<Longrightarrow> utf8_valid y \<Longrightarrow> utf8_valid (x @ y)"
  unfolding utf8_chars by (metis Un_iff concat_append set_append)

text \<open>Inside a character every byte is a continuation byte.\<close>

lemma utf8_char_inside: "utf8_char (x @ y) \<Longrightarrow> x \<noteq> [] \<Longrightarrow> y \<noteq> [] \<Longrightarrow> cont_byte (hd y)"
  by (induction "x @ y" rule: utf8_char.induct)
    (auto simp: Cons_eq_append_conv dest: second3_range second4_range)

text \<open>A valid text cut where no continuation byte follows is two valid texts.\<close>

lemma utf8_boundary:
  assumes "utf8_valid (x @ y)" "y = [] \<or> \<not> cont_byte (hd y)"
  shows "utf8_valid x \<and> utf8_valid y"
proof -
  obtain cs where "\<forall>c\<in>set cs. utf8_char c" "x @ y = concat cs" using assms(1) utf8_chars by blast
  then show ?thesis using assms(2)
  proof (induction cs arbitrary: x)
    case (Cons c cs)
    from Cons.prems(2) consider z where "x = c @ z" "z @ y = concat cs" | z where "c = x @ z" "y = z @ concat cs"
      by (auto simp: append_eq_append_conv2)
    then show ?case
    proof cases
      case 1
      with Cons.IH [of z] Cons.prems show ?thesis by (auto simp: utf8_char_append)
    next
      case 2
      have v: "utf8_valid (concat cs)" using Cons.prems(1) utf8_chars by auto
      show ?thesis
      proof (cases "x = [] \<or> z = []")
        case True
        with 2 v Cons.prems(1) utf8_char_append [of x "[]"] show ?thesis by (auto simp: utf8_char_append)
      next
        case False
        with utf8_char_inside [of x z] 2 Cons.prems(1,3) show ?thesis by (auto simp: hd_append)
      qed
    qed
  qed simp
qed

section \<open>Slices of strings\<close>

definition ascii :: "char \<Rightarrow> bool" where
  "ascii c \<longleftrightarrow> (of_char c :: nat) < 128"

lemma as_bytes_simps [simp]:
  "as_bytes [] = []" "as_bytes (c # s) = of_nat (of_char c) # as_bytes s" "as_bytes (s @ t) = as_bytes s @ as_bytes t"
  by (simp_all add: as_bytes_def)

lemma byte_of_char: "unat (of_nat (of_char c) :: u8) = of_char c"
  using nat_of_char_less_256 [of c] by (simp add: unat_of_nat)

lemma ascii_byte: "ascii c \<Longrightarrow> (of_nat (of_char c) :: u8) < 0x80"
  by (simp add: ascii_def word_less_nat_alt byte_of_char)

lemma is_str_append: "is_str a \<Longrightarrow> is_str b \<Longrightarrow> is_str (a @ b)"
  by (simp add: is_str_def utf8_append)

lemma is_str_ascii: "\<forall>c\<in>set s. ascii c \<Longrightarrow> is_str s"
  by (induction s) (auto simp: is_str_def utf8_valid.simps(2) ascii_byte)

lemma is_str_Nil [simp]: "is_str []"
  by (simp add: is_str_def)

lemma is_str_cut:
  assumes "is_str (a @ d # b)" "ascii d"
  shows "is_str a \<and> is_str b"
proof -
  have "\<not> cont_byte (of_nat (of_char d))" using ascii_byte [OF assms(2)] by (simp add: cont_byte_def not_le)
  with utf8_boundary [of "as_bytes a" "as_bytes (d # b)"] assms(1) have "is_str a" "utf8_valid (as_bytes (d # b))"
    by (auto simp: is_str_def)
  then show ?thesis using ascii_byte [OF assms(2)] by (simp add: is_str_def utf8_valid.simps(2))
qed

lemma split_once_parts: "split_once d s = Some (a, b) \<Longrightarrow> s = a @ d # b"
  by (induction s arbitrary: a) (auto simp: split_once_def split: if_splits)

lemma rsplit_once_parts:
  assumes "rsplit_once d s = Some (a, b)"
  shows "s = a @ d # b"
proof -
  from assms have "split_once d (rev s) = Some (rev b, rev a)" by (auto simp: rsplit_once_def)
  from arg_cong [OF split_once_parts [OF this], of rev] show ?thesis by simp
qed

lemma strip_prefix_parts: "strip_prefix p s = Some r \<Longrightarrow> s = p @ r"
  by (induction p s rule: strip_prefix.induct) (auto split: if_splits)

lemma split_once_str_parts: "split_once_str p s = Some (a, b) \<Longrightarrow> s = a @ p @ b"
  by (induction p s arbitrary: a rule: split_once_str.induct)
    (auto dest: strip_prefix_parts split: option.splits)

lemma takeWhile_cut: "takeWhile (\<lambda>c. c \<noteq> d) s = s \<or> (\<exists>r. s = takeWhile (\<lambda>c. c \<noteq> d) s @ d # r)"
  by (induction s) auto

lemma is_str_takeWhile: "is_str s \<Longrightarrow> ascii d \<Longrightarrow> is_str (takeWhile (\<lambda>c. c \<noteq> d) s)"
  using takeWhile_cut [of d s] is_str_cut by metis

text \<open>Trimming removes whole characters.\<close>

lemma ws_char:
  assumes "ws_seq (map of_char s)"
  shows "utf8_char (as_bytes s)"
proof -
  consider c where "s = [c]" | c d where "s = [c, d]" | c d e where "s = [c, d, e]"
    using assms by (auto simp: ws_seq_def map_eq_Cons_conv split: list.splits)
  then show ?thesis
  proof cases
    case 1
    with assms have "ascii c" by (auto simp: ws_seq_def ascii_def)
    then show ?thesis by (simp add: 1 ascii_byte)
  next
    case 2
    with assms have "of_char c = (0xC2 :: nat)" "of_char d = (0x85 :: nat) \<or> of_char d = (0xA0 :: nat)"
      by (auto simp: ws_seq_def)
    then show ?thesis by (elim disjE) (simp_all add: 2 cont_byte_def)
  next
    case 3
    let ?c = "of_char c :: nat" and ?d = "of_char d :: nat" and ?e = "of_char e :: nat"
    from 3 assms have "?c = 0xE1 \<and> ?d = 0x9A \<and> ?e = 0x80 \<or>
        ?c = 0xE2 \<and> ?d = 0x80 \<and> 0x80 \<le> ?e \<and> ?e \<le> 0xAF \<or>
        ?c = 0xE2 \<and> ?d = 0x81 \<and> ?e = 0x9F \<or> ?c = 0xE3 \<and> ?d = 0x80 \<and> ?e = 0x80"
      by (auto simp: ws_seq_def)
    moreover have "cont_byte (of_nat ?e)" if "0x80 \<le> ?e" "?e \<le> 0xBF"
      using that by (simp add: cont_byte_def word_le_nat_alt byte_of_char)
    ultimately show ?thesis by (elim disjE conjE) (simp_all add: 3 utf8_second3_def cont_byte_def)
  qed
qed

lemma ws_starts: "utf8_char b \<Longrightarrow> b \<noteq> [] \<and> \<not> cont_byte (hd b)"
  by (induction b rule: utf8_char.induct)
    (auto simp: cont_byte_def word_le_nat_alt word_less_nat_alt dest!: second3_range second4_range)

lemma trim_start_str: "is_str s \<Longrightarrow> is_str (trim_with ws_seq s)"
proof (induction ws_seq s rule: trim_with.induct)
  case (1 s)
  have "is_str (drop n s)" if "ws_seq (map of_char (take n s))" for n
  proof -
    have "as_bytes s = as_bytes (take n s) @ as_bytes (drop n s)" by (simp flip: as_bytes_simps(3))
    with 1(4) utf8_char_append [OF ws_char [OF that]] show ?thesis by (simp add: is_str_def)
  qed
  with 1 show ?case by (simp add: trim_with.simps [of ws_seq s])
qed

lemma trim_end_str: "is_str (rev s) \<Longrightarrow> is_str (rev (trim_with (\<lambda>bs. ws_seq (rev bs)) s))"
proof (induction "\<lambda>bs. ws_seq (rev bs)" s rule: trim_with.induct)
  case (1 s)
  have "is_str (rev (drop n s))" if "ws_seq (rev (map of_char (take n s)))" for n
  proof -
    have c: "utf8_char (as_bytes (rev (take n s)))" using that by (intro ws_char) (simp add: rev_map)
    have "as_bytes (rev s) = as_bytes (rev (drop n s)) @ as_bytes (rev (take n s))"
      by (simp flip: as_bytes_simps(3) rev_append)
    with utf8_boundary ws_starts [OF c] 1(4) show ?thesis by (metis is_str_def)
  qed
  with 1 show ?case by (simp add: trim_with.simps [of _ s])
qed

lemma is_str_trim: "is_str s \<Longrightarrow> is_str (str_trim s)"
  using trim_end_str [of "rev (trim_with ws_seq s)"] trim_start_str [of s] by (simp add: str_trim_def)

lemma is_str_host_of:
  assumes "is_str s"
  shows "is_str (host_of s)"
proof -
  let ?s = "str_trim s"
  have t: "is_str ?s" by (rule is_str_trim [OF assms])
  have a: "ascii (CHR '':'')" "ascii (CHR '']'')" "ascii (CHR ''['')" by (simp_all add: ascii_def)
  have colon: "is_str h" if "rsplit_once (CHR '':'') ?s = Some (h, p)" for h p
    using is_str_cut [of h _ p] rsplit_once_parts [OF that] t a(1) by auto
  have bracket: "is_str h" if "strip_prefix ''['' ?s = Some r" "split_once (CHR '']'') r = Some (h, p)" for r h p
  proof -
    have "is_str r" using is_str_cut [of "[]" "CHR ''[''" r] strip_prefix_parts [OF that(1)] t a(3) by simp
    then show ?thesis using is_str_cut [of h _ p] split_once_parts [OF that(2)] a(2) by auto
  qed
  show ?thesis using t colon bracket by (auto simp: host_of_def Let_def split: option.splits)
qed

section \<open>Links and profiles\<close>

definition profile_typed :: "profile \<Rightarrow> bool" where
  "profile_typed p \<longleftrightarrow> is_str (server p) \<and> is_str (auth p) \<and> is_str (sni (profile_tls p)) \<and>
     (\<forall>ob. profile_obfs p = Some ob \<longrightarrow> is_str (obfs_type ob) \<and> is_str (password ob))"

text \<open>
  What the encoding crates promise of types: the form parser returns strings, and both encoders
  write ASCII.
\<close>

definition codec_typed :: "url_codec \<Rightarrow> bool" where
  "codec_typed u \<longleftrightarrow>
     (\<forall>q. is_str q \<longrightarrow> (\<forall>(k, v)\<in>set (form_parse u q). is_str k \<and> is_str v)) \<and>
     (\<forall>A s. \<forall>c\<in>set (pct_encode u A s). ascii c) \<and> (\<forall>ps. \<forall>c\<in>set (form_serialize u ps). ascii c)"

lemma parse_query_typed:
  assumes "codec_typed u" "is_str q" "parse_query u q k = Some v"
  shows "is_str v"
proof -
  have *: "\<forall>(k, v)\<in>set ps. is_str v \<Longrightarrow> (\<And>k v. m k = Some v \<Longrightarrow> is_str v) \<Longrightarrow>
      foldl (\<lambda>m (k, v). if m k = None then m(k \<mapsto> v) else m) m ps k = Some v \<Longrightarrow> is_str v" for ps m
  proof (induction ps arbitrary: m)
    case (Cons p ps)
    obtain a b where p: "p = (a, b)" by (cases p)
    have "(if m a = None then m(a \<mapsto> b) else m) k = Some v \<Longrightarrow> is_str v" for k v
      using Cons.prems(1,2) p by (auto split: if_splits)
    from Cons.IH [OF _ this] Cons.prems(1,3) p show ?case by auto
  qed auto
  have "\<forall>(k, v)\<in>set (form_parse u q). is_str v" using assms(1,2) unfolding codec_typed_def by blast
  from * [OF this, of Map.empty] assms(3) show ?thesis by (simp add: parse_query_def)
qed

lemma apply_query_typed:
  assumes "codec_typed u" "profile_typed p" "\<And>q. query = Some q \<Longrightarrow> is_str q"
  shows "profile_typed (apply_query u query p)"
proof (cases query)
  case (Some q)
  note pq = parse_query_typed [OF assms(1) assms(3) [OF Some]]
  show ?thesis
    using assms(2) Some
    by (auto simp: apply_query_def Let_def profile_typed_def non_empty_def split: option.splits if_splits dest: pq)
qed (use assms(2) in \<open>simp add: apply_query_def\<close>)

lemma uri_parts_typed:
  assumes "is_str after" "uri_parts after = (authority, query)"
  shows "is_str authority" "query = Some q \<Longrightarrow> is_str q"
proof -
  have a: "ascii (CHR ''#'')" "ascii (CHR ''?'')" "ascii (CHR ''/'')" by (simp_all add: ascii_def)
  let ?body = "takeWhile (\<lambda>c. c \<noteq> CHR ''#'') after"
  have body: "is_str ?body" by (rule is_str_takeWhile [OF assms(1) a(1)])
  have cut: "is_str x \<and> is_str y" if "split_once (CHR ''?'') ?body = Some (x, y)" for x y
    using is_str_cut [of x _ y] split_once_parts [OF that] body a(2) by metis
  show "is_str authority" "query = Some q \<Longrightarrow> is_str q"
    using assms(2) body cut a(3)
    by (auto simp: uri_parts_def Let_def hd_split_char intro: is_str_takeWhile split: option.splits)
qed

lemma uri_userinfo_typed:
  assumes "is_str authority" "uri_userinfo u authority = Some (a, host)"
  shows "is_str a \<and> is_str host"
proof -
  have "is_str y" if "rsplit_once (CHR ''@'') authority = Some (x, y)" for x y
    using is_str_cut [of x _ y] rsplit_once_parts [OF that] assms(1) by (simp add: ascii_def)
  with assms show ?thesis
    by (auto simp: uri_userinfo_def percent_decode_def dest!: from_utf8_Some split: option.splits)
qed

lemma after_scheme_typed: "is_str s \<Longrightarrow> split_once_str ''://'' s = Some (scheme, after) \<Longrightarrow> is_str after"
  using is_str_cut [of "scheme @ '':/''" "CHR ''/''" after] by (auto dest!: split_once_str_parts simp: ascii_def)

lemma parse_uri_typed:
  assumes "codec_typed u" "is_str s" "parse_uri u s = Some p"
  shows "profile_typed p"
proof -
  obtain scheme after where s: "split_once_str ''://'' s = Some (scheme, after)"
    using assms(3) by (auto simp: parse_uri_def split: option.splits)
  obtain authority query where parts: "uri_parts after = (authority, query)" by (cases "uri_parts after")
  obtain a host where user: "uri_userinfo u authority = Some (a, host)"
    and p: "p = apply_query u query (profile_default\<lparr>server := host, auth := a\<rparr>)"
    using assms(3) by (auto simp: parse_uri_def s parts split: option.splits if_splits)
  note after = after_scheme_typed [OF assms(2) s]
  have "profile_typed (profile_default\<lparr>server := host, auth := a\<rparr>)"
    using uri_userinfo_typed [OF uri_parts_typed(1) [OF after parts] user]
    by (simp add: profile_typed_def profile_default_def)
  from apply_query_typed [OF assms(1) this] uri_parts_typed(2) [OF after parts] show ?thesis by (simp add: p)
qed

lemma name_from_uri_typed: "name_from_uri u s = Some n \<Longrightarrow> is_str n"
  by (auto simp: name_from_uri_def percent_decode_def dest!: from_utf8_Some split: option.splits if_splits)

lemma to_uri_typed:
  assumes "codec_typed u" "profile_typed p"
  shows "is_str (to_uri_with_name u p name)"
proof -
  have enc: "is_str (pct_encode u A s)" "is_str (form_serialize u ps)" for A s ps
    using assms(1) by (auto simp: codec_typed_def intro!: is_str_ascii)
  have lit: "is_str [c]" if "ascii c" for c using that by (intro is_str_ascii) simp
  have scheme: "is_str ''hysteria2://''" by (intro is_str_ascii) (simp add: ascii_def)
  have glue: "is_str (c # s)" if "ascii c" "is_str s" for c s using is_str_append [OF lit [OF that(1)] that(2)] by simp
  have user: "is_str (encode_userinfo u s)" for s
    using enc by (auto simp: encode_userinfo_def encode_component_def ascii_def intro!: is_str_append glue split: option.splits)
  have "is_str (server p)" using assms(2) by (simp add: profile_typed_def)
  then show ?thesis
    using enc user scheme
    by (auto simp: to_uri_with_name_def uri_query_def Let_def ascii_def intro!: is_str_append glue simp del: append_Cons
        split: option.splits)
qed

section \<open>The store and the model\<close>

definition entry_typed :: "entry \<Rightarrow> bool" where
  "entry_typed e \<longleftrightarrow> is_str (entry_id e) \<and> is_str (entry_name e)"

text \<open>What \<^verbatim>\<open>serde_json\<close> promises of types: the strings it reads are strings.\<close>

definition json_typed :: "json \<Rightarrow> bool" where
  "json_typed json \<longleftrightarrow>
     (\<forall>bs doc. doc_from_slice json bs = Inr doc \<longrightarrow> (\<forall>e\<in>set (doc_entries doc). entry_typed e)) \<and>
     (\<forall>bs p. profile_from_slice json bs = Inr p \<longrightarrow> profile_typed p)"

definition entries_typed :: "entry list \<Rightarrow> bool" where
  "entries_typed es \<longleftrightarrow> (\<forall>e\<in>set es. entry_typed e)"

lemma store_new_typed:
  assumes "json_typed json" "store_new json err file s = Inr st"
  shows "entries_typed (entries st)"
proof -
  obtain es where "read_entries json file = Inr es" "entries st = es"
    using assms(2) by (auto simp: store_new_def and_then_eq_Inr)
  with assms(1) show ?thesis
    by (auto simp: read_entries_def and_then_eq_Inr serde_err_def json_typed_def entries_typed_def
        split: option.splits sum.splits if_splits)
qed

lemma load_typed:
  assumes "json_typed json" "load ops json st i = Inr (Some p)"
  shows "profile_typed p"
proof -
  obtain bs where "serde_err (profile_from_slice json bs) = Inr p"
    using assms(2) by (auto simp: load_def and_then_eq_Inr split: option.splits)
  then have "profile_from_slice json bs = Inr p" by (simp add: serde_err_def split: sum.splits)
  with assms(1) show ?thesis by (auto simp: json_typed_def)
qed

lemma add_typed:
  assumes "add ops json io uuid now st link nm = (r, st')" "entries_typed (entries st)"
    and "is_str uuid" "profile_typed link" "\<And>n. nm = Some n \<Longrightarrow> is_str n"
  shows "entries_typed (entries st') \<and> (\<forall>e. r = Inr e \<longrightarrow> entry_typed e)"
proof -
  have host: "is_str (host_of (server link))" using assms(4) by (simp add: profile_typed_def is_str_host_of)
  then have "is_str (case nm of Some n \<Rightarrow> if str_trim n \<noteq> [] then str_trim n else host_of (server link)
      | None \<Rightarrow> host_of (server link))"
    using is_str_trim assms(5) by (auto split: option.splits)
  then show ?thesis
    using assms(1-3)
    by (cases rule: add_outcomes [of ops json io uuid now st link nm])
      (auto simp: entries_typed_def entry_typed_def find_matching_def find_Some_iff)
qed

lemma delete_typed:
  "delete ops json io st i = (r, st') \<Longrightarrow> entries_typed (entries st) \<Longrightarrow> entries_typed (entries st')"
  using set_take_subset [of _ "entries st"] set_drop_subset [of _ "entries st"]
  by (cases rule: delete_outcomes [of ops json io st i]) (auto simp: entries_typed_def vec_remove_def subset_iff)

lemma rename_typed:
  assumes "rename ops json io st i n = (r, st')" "entries_typed (entries st)" "json_typed json" "is_str n"
  shows "entries_typed (entries st')"
proof (cases rule: rename_outcomes [of ops json io st i n])
  case (renamed pos name bs)
  have "is_str name"
  proof (cases "str_trim n = []")
    case True
    with renamed(4) obtain p where "load ops json st i = Inr (Some p)" "name = host_of (server p)" by auto
    with load_typed [OF assms(3) this(1)] show ?thesis by (simp add: profile_typed_def is_str_host_of)
  qed (use renamed(4) is_str_trim [OF assms(4)] in simp)
  moreover have "is_str (entry_id (entries st ! pos))"
    using position_Some [OF renamed(1)] assms(2) by (auto simp: entries_typed_def entry_typed_def)
  ultimately show ?thesis
    using renamed(2) assms(1,2) set_update_subset_insert [of "entries st" pos "(entries st ! pos)\<lparr>entry_name := name\<rparr>"]
    by (auto simp: entries_typed_def entry_typed_def)
qed (use assms(1,2) in auto)

text \<open>The commands carry strings, and the model keeps and shows strings.\<close>

fun intent_typed :: "intent \<Rightarrow> bool" where
  "intent_typed (AddProfileFromUri s) = is_str s"
| "intent_typed (RenameProfile i n) = (is_str i \<and> is_str n)"
| "intent_typed (DeleteProfile i) = is_str i"
| "intent_typed (SelectProfile i) = is_str i"
| "intent_typed _ = True"

fun command_typed :: "call_env \<times> command \<Rightarrow> bool" where
  "command_typed (env, Intent i) = (is_str (env_uuid env) \<and> intent_typed i)"
| "command_typed (env, ExportUri i) = is_str i"
| "command_typed _ = True"

definition state_typed :: "state \<Rightarrow> bool" where
  "state_typed s \<longleftrightarrow> entries_typed (state_entries s) \<and> (\<forall>i. selected_id s = Some i \<longrightarrow> is_str i) \<and>
     (\<forall>m. last_error s = Some m \<longrightarrow> is_str m)"

fun out_typed :: "actor_out \<Rightarrow> bool" where
  "out_typed (OnState s) =
     (entries_typed (snap_profiles s) \<and> (\<forall>i. snap_selected_id s = Some i \<longrightarrow> is_str i) \<and>
      (\<forall>m. snap_last_error s = Some m \<longrightarrow> is_str m))"
| "out_typed (TunnelStart i) = is_str i"
| "out_typed (Reply r) = (\<forall>bs. r = Inr (Some bs) \<longrightarrow> utf8_valid bs)"
| "out_typed _ = True"

definition model_typed :: "'s store \<times> state \<Rightarrow> bool" where
  "model_typed w \<longleftrightarrow> entries_typed (entries (fst w)) \<and> state_typed (snd w)"

lemma error_sentence_typed: "is_str (error_sentence e)"
  by (cases e) (intro is_str_ascii; simp add: ascii_def)+

lemma messages_typed:
  "is_str ''Couldn't save that profile.''" "is_str ''That doesn't look like a hysteria2:// link.''"
  "is_str ''Couldn't rename that profile.''" "is_str ''Couldn't delete that profile.''"
  "is_str ''Select a profile before connecting.''"
  by (intro is_str_ascii; simp add: ascii_def)+

lemma apply_intent_typed:
  assumes "model_typed w" "json_typed json" "codec_typed u" "is_str (env_uuid env)" "intent_typed i"
  shows "model_typed (fst (apply_intent ops json u env i w)) \<and>
    (\<forall>out\<in>set (snd (apply_intent ops json u env i w)). out_typed out)"
proof -
  obtain st s where w: "w = (st, s)" by (cases w)
  have t: "entries_typed (entries st)" "state_typed s" using assms(1) by (simp_all add: model_typed_def w)
  show ?thesis
  proof (cases i)
    case (AddProfileFromUri uri)
    show ?thesis
    proof (cases "parse_uri u uri")
      case None
      with t AddProfileFromUri w show ?thesis by (simp add: model_typed_def state_typed_def messages_typed)
    next
      case (Some p)
      obtain r st' where a: "add ops json (env_io env) (env_uuid env) (env_now env) st p (name_from_uri u uri) = (r, st')"
        by force
      have "profile_typed p" using parse_uri_typed [OF assms(3) _ Some] assms(5) AddProfileFromUri by simp
      from add_typed [OF a t(1) assms(4) this] name_from_uri_typed [of u uri]
      have "entries_typed (entries st')" "\<forall>e. r = Inr e \<longrightarrow> entry_typed e" by blast+
      with t(2) a Some AddProfileFromUri w show ?thesis
        by (auto simp: model_typed_def state_typed_def store_list_def entry_typed_def messages_typed split: sum.splits)
    qed
  next
    case (RenameProfile j n)
    obtain r st' where a: "rename ops json (env_io env) st j n = (r, st')" by force
    from rename_typed [OF a t(1) assms(2)] assms(5) RenameProfile have "entries_typed (entries st')" by simp
    with t(2) a RenameProfile w show ?thesis
      by (auto simp: model_typed_def state_typed_def store_list_def messages_typed split: sum.splits)
  next
    case (DeleteProfile j)
    obtain r st' where a: "delete ops json (env_io env) st j = (r, st')" by force
    from delete_typed [OF a t(1)] t(2) a DeleteProfile w show ?thesis
      by (auto simp: model_typed_def state_typed_def store_list_def messages_typed split: sum.splits)
  qed (use t w assms(5) in \<open>auto simp: model_typed_def state_typed_def messages_typed split: option.splits\<close>)
qed

lemma snapshot_typed: "state_typed s \<Longrightarrow> out_typed (OnState (state_snapshot s))"
  by (simp add: state_typed_def state_snapshot_def)

lemma export_typed:
  assumes "json_typed json" "codec_typed u" "export ops json u st s i = Inr (Some bs)"
  shows "utf8_valid bs"
proof -
  obtain p name where p: "load ops json st i = Inr (Some p)" "bs = as_bytes (to_uri_with_name u p name)"
    using assms(3) by (auto simp: export_def Let_def split: sum.splits)
  from to_uri_typed [OF assms(2) load_typed [OF assms(1) p(1)]] show ?thesis by (simp add: p(2) is_str_def)
qed

lemma handle_typed:
  assumes "model_typed w" "json_typed json" "codec_typed u" "command_typed c"
  shows "model_typed (fst (handle ops json u c w)) \<and> (\<forall>out\<in>set (snd (handle ops json u c w)). out_typed out)"
proof -
  obtain env cmd st s where c: "c = (env, cmd)" "w = (st, s)" by (metis surj_pair)
  show ?thesis
  proof (cases cmd)
    case (Intent i)
    obtain st' s' out where a: "apply_intent ops json u env i (st, s) = ((st', s'), out)" by (metis surj_pair)
    with apply_intent_typed [OF assms(1-3), of env i ops] assms(4) c Intent
    have t: "model_typed (st', s')" "\<forall>x\<in>set out. out_typed x" by simp_all
    then have "out_typed (OnState (state_snapshot s'))" by (intro snapshot_typed) (simp add: model_typed_def)
    with t a c Intent show ?thesis by (simp del: out_typed.simps)
  next
    case (OsStatus os err)
    let ?s = "s\<lparr>connection := os, last_error := map_option error_sentence err\<rparr>"
    have "state_typed ?s" using assms(1) c by (auto simp: model_typed_def state_typed_def error_sentence_typed)
    with assms(1) snapshot_typed [OF this] c OsStatus show ?thesis by (simp add: model_typed_def Let_def)
  next
    case (ExportUri i)
    with assms(1) export_typed [OF assms(2,3)] c show ?thesis by (auto simp: model_typed_def)
  qed (use assms(1) c in simp)
qed

lemma run_actor_typed:
  assumes "model_typed w" "json_typed json" "codec_typed u" "\<forall>c\<in>set cs. command_typed c"
  shows "model_typed (fst (run_actor ops json u cs w)) \<and> (\<forall>out\<in>set (snd (run_actor ops json u cs w)). out_typed out)"
  using assms(1,4)
proof (induction cs arbitrary: w)
  case (Cons c cs)
  from handle_typed [OF Cons.prems(1) assms(2,3), of c ops] Cons.prems(2)
  have "model_typed (fst (handle ops json u c w))" "\<forall>out\<in>set (snd (handle ops json u c w)). out_typed out" by auto
  with Cons.IH [OF this(1)] Cons.prems(2) show ?case by (auto simp: split_def Let_def)
qed simp

section \<open>A concrete setting\<close>

definition typed_codec :: url_codec where
  "typed_codec = sample_codec\<lparr>form_parse := (\<lambda>q. filter (\<lambda>(k, v). is_str k \<and> is_str v) (form_read q))\<rparr>"

lemma hex_ascii: "ascii (hex_digit n)"
proof -
  have "hex_digit n \<in> set hex_chars" unfolding hex_digit_def by (rule nth_mem) (simp add: hex_chars_def)
  moreover have "\<forall>c\<in>set hex_chars. ascii c" by (simp add: hex_chars_def ascii_def)
  ultimately show ?thesis by blast
qed

lemma typed_codec_ok: "codec_typed typed_codec"
proof -
  have e: "\<forall>c\<in>set (escapes A s). ascii c" for A s
    by (auto simp: escapes_def escape_byte_def hex_ascii) (auto simp: ascii_def)
  have f: "ascii c" if "c \<in> set (form_write ps)" for c ps
  proof -
    have "is_alnum c \<or> c \<in> set ''*-._+%&=''"
      using that sample_codec_ok by (simp add: codec_ok_def sample_codec_def)
    then show ?thesis by (auto simp: ascii_def is_alnum_def Let_def)
  qed
  show ?thesis using e f by (auto simp: codec_typed_def typed_codec_def sample_codec_def)
qed

lemma sample_json_typed: "json_typed sample_json"
proof -
  have "is_str ''u''" "is_str ''h''" "is_str ''h:1''" by (intro is_str_ascii; simp add: ascii_def)+
  then show ?thesis
    by (auto simp: json_typed_def sample_json_def sample_entry_def entry_typed_def sample_profile_def profile_typed_def
        profile_default_def split: if_splits)
qed

section \<open>Properties\<close>

text \<open>
  C12. Strings stay strings: from a profile file the store opens, under any commands that carry
  strings and any failures, every profile name and id, selection and error message the observers are
  shown, every id the tunnel is started with and every exported link is valid UTF-8. No slicing of a
  link, an address or a name, and no trimming, ever cuts a character.
\<close>

theorem strings_well_typed:
  assumes "json_typed json" "codec_typed u" "store_new json err file sec = Inr st" "\<forall>c\<in>set cs. command_typed c"
  shows "\<forall>out\<in>set (snd (actor_start st) @ snd (run_actor ops json u cs (fst (actor_start st)))). out_typed out"
proof -
  have st: "entries_typed (entries st)" by (rule store_new_typed [OF assms(1,3)])
  then have "model_typed (fst (actor_start st))" "\<forall>out\<in>set (snd (actor_start st)). out_typed out"
    by (simp_all add: actor_start_def Let_def model_typed_def state_typed_def state_default_def store_list_def
        state_snapshot_def)
  with run_actor_typed [OF this(1) assms(1,2,4), of ops] show ?thesis by auto
qed

theorem strings_well_typed_witness:
  "\<exists>st. store_new sample_json None (Some [1]) (dev_new\<lparr>dev_map := [''u'' \<mapsto> [7]]\<rparr>) = Inr st \<and>
     (\<forall>out\<in>set (snd (run_actor dev_ops sample_json typed_codec
        [(\<lparr>env_io = fs_ok, env_uuid = ''v'', env_now = Some 1\<rparr>, ExportUri ''u'')] (fst (actor_start st)))). out_typed out)"
proof -
  have st: "store_new sample_json None (Some [1]) (dev_new\<lparr>dev_map := [''u'' \<mapsto> [7]]\<rparr>) = Inr sample_store"
    by (simp add: store_new_def io_check_def read_entries_def serde_err_def sample_json_def SCHEMA_VERSION_def sample_store_def)
  have "is_str ''u''" by (intro is_str_ascii; simp add: ascii_def)
  then have "\<forall>c\<in>set [(\<lparr>env_io = fs_ok, env_uuid = ''v'', env_now = Some 1\<rparr>, ExportUri ''u'')]. command_typed c" by simp
  from strings_well_typed [OF sample_json_typed typed_codec_ok st this, of dev_ops] st show ?thesis by auto
qed

end
