(* ===== verification/WireTests.thy ===== *)
theory WireTests
  imports StrTypes UdpSession
begin

text \<open>
  The unit tests of the wire formats, \<^verbatim>\<open>crates/hysteria/src/internal/protocol/varint.rs\<close> and
  \<^verbatim>\<open>proxy.rs\<close>, run on the model: one definition per test function, with a conjunct per
  assertion and the test's own tables of inputs and expected results, and a lemma that it holds.
  They tie the definitions to values that the code's authors fixed, most of them taken over from
  RFC 9000 and the reference implementation.
\<close>

section \<open>varint.rs\<close>

definition test_len_matches_the_encoding_boundaries :: bool where
  "test_len_matches_the_encoding_boundaries \<longleftrightarrow>
     varint_len 0 = 1 \<and>
     varint_len MAX_VAR_INT1 = 1 \<and>
     varint_len (MAX_VAR_INT1 + 1) = 2 \<and>
     varint_len MAX_VAR_INT2 = 2 \<and>
     varint_len (MAX_VAR_INT2 + 1) = 4 \<and>
     varint_len MAX_VAR_INT4 = 4 \<and>
     varint_len (MAX_VAR_INT4 + 1) = 8 \<and>
     varint_len MAX_VAR_INT8 = 8"

lemma len_matches_the_encoding_boundaries: test_len_matches_the_encoding_boundaries
  by code_simp

definition test_put_then_read_round_trips_each_length :: bool where
  "test_put_then_read_round_trips_each_length \<longleftrightarrow>
     list_all (\<lambda>v.
       case varint_put (replicate 8 0) v of
         Panic \<Rightarrow> False
       | Ret (buf, n) \<Rightarrow> n = varint_len v \<and> varint_read (take n buf) = Inr (v, []))
     [0, 1, MAX_VAR_INT1, MAX_VAR_INT1 + 1, MAX_VAR_INT2, MAX_VAR_INT2 + 1, MAX_VAR_INT4,
      MAX_VAR_INT4 + 1, MAX_VAR_INT8]"

lemma put_then_read_round_trips_each_length: test_put_then_read_round_trips_each_length
proof -
  have "case varint_put (replicate 8 0) v of
      Panic \<Rightarrow> False
    | Ret (buf, n) \<Rightarrow> n = varint_len v \<and> varint_read (take n buf) = Inr (v, [])" if "v \<le> MAX_VAR_INT8" for v
    using varint_read_wire [OF that, of "[]"] length_varint_wire [OF that] varint_len_range [OF that]
    by (auto simp: varint_put_wire [OF that] store_front_def)
  then show ?thesis unfolding test_put_then_read_round_trips_each_length_def
    by (simp add: MAX_VAR_INT_defs del: exec.case)
qed

definition test_read_decodes_rfc9000_sample_vectors :: bool where
  "test_read_decodes_rfc9000_sample_vectors \<longleftrightarrow>
     list_all (\<lambda>(bs, want). varint_read bs = Inr (want, []))
     [([0xc2, 0x19, 0x7c, 0x5e, 0xff, 0x14, 0xe8, 0x8c], 151288809941952652),
      ([0x9d, 0x7f, 0x3e, 0x7d], 494878333),
      ([0x7b, 0xbd], 15293),
      ([0x25], 37),
      ([0x40, 0x25], 37)]"

lemma read_decodes_rfc9000_sample_vectors: test_read_decodes_rfc9000_sample_vectors
  by code_simp

definition test_read_errors_on_a_short_buffer :: bool where
  "test_read_errors_on_a_short_buffer \<longleftrightarrow>
     isl (varint_read []) \<and> isl (varint_read [0x80, 0x01])"

lemma read_errors_on_a_short_buffer: test_read_errors_on_a_short_buffer
  by code_simp

section \<open>proxy.rs\<close>

definition test_udp_message_serialize_too_small :: bool where
  "test_udp_message_serialize_too_small \<longleftrightarrow>
     (case serialize \<lparr>session_id = 66, packet_id = 77, frag_id = 2, frag_count = 5,
                      addr = ''random_addr'', data = as_bytes ''random_data''\<rparr> (replicate 20 0) of
        Ret (_, None) \<Rightarrow> True
      | _ \<Rightarrow> False)"

lemma udp_message_serialize_too_small: test_udp_message_serialize_too_small
  by code_simp

definition test_udp_message_roundtrip_golden :: bool where
  "test_udp_message_roundtrip_golden \<longleftrightarrow>
     (let msg = \<lparr>session_id = 1, packet_id = 1, frag_id = 0, frag_count = 1,
                 addr = ''example.com:80'',
                 data = as_bytes ''GET /nothing HTTP/1.1'' @ [13, 10]\<rparr>;
          want = [0x0, 0x0, 0x0, 0x1, 0x0, 0x1, 0x0, 0x1, 0xe, 0x65, 0x78, 0x61, 0x6d, 0x70, 0x6c, 0x65,
                  0x2e, 0x63, 0x6f, 0x6d, 0x3a, 0x38, 0x30, 0x47, 0x45, 0x54, 0x20, 0x2f, 0x6e, 0x6f,
                  0x74, 0x68, 0x69, 0x6e, 0x67, 0x20, 0x48, 0x54, 0x54, 0x50, 0x2f, 0x31, 0x2e, 0x31,
                  0xd, 0xa]
      in (case serialize msg (replicate MAX_UDP_SIZE 0) of
            Ret (buf, Some n) \<Rightarrow> take n buf = want
          | _ \<Rightarrow> False) \<and>
         parse_udp_message want = Inr msg)"

text \<open>
  The tests that serialize into the full scratch buffer: the bytes are those of \<^const>\<open>udp_wire\<close>,
  whatever the buffer held.
\<close>

lemma serialize_full:
  assumes "udp_size m \<le> MAX_UDP_SIZE" "length (addr m) < 2 ^ 62"
  shows "(case serialize m (replicate MAX_UDP_SIZE 0) of Ret (buf, Some n) \<Rightarrow> P (take n buf) n | _ \<Rightarrow> False) =
    P (udp_wire m) (udp_size m)"
  using assms length_udp_wire [OF assms(2)] by (simp add: serialize_wire)

lemma udp_message_roundtrip_golden: test_udp_message_roundtrip_golden
proof -
  let ?m = "\<lparr>session_id = 1, packet_id = 1, frag_id = 0, frag_count = 1, addr = ''example.com:80'',
    data = as_bytes ''GET /nothing HTTP/1.1'' @ [13, 10]\<rparr> :: udp_message"
  let ?want = "[0x0, 0x0, 0x0, 0x1, 0x0, 0x1, 0x0, 0x1, 0xe, 0x65, 0x78, 0x61, 0x6d, 0x70, 0x6c, 0x65,
    0x2e, 0x63, 0x6f, 0x6d, 0x3a, 0x38, 0x30, 0x47, 0x45, 0x54, 0x20, 0x2f, 0x6e, 0x6f, 0x74, 0x68, 0x69,
    0x6e, 0x67, 0x20, 0x48, 0x54, 0x54, 0x50, 0x2f, 0x31, 0x2e, 0x31, 0xd, 0xa] :: bytes"
  have golden: "udp_wire ?m = ?want \<and> parse_udp_message ?want = Inr ?m" by code_simp
  have "udp_size ?m = 46" by code_simp
  then have "udp_size ?m \<le> MAX_UDP_SIZE" by simp
  moreover have "length (addr ?m) < 2 ^ 62" by simp
  ultimately show ?thesis
    unfolding test_udp_message_roundtrip_golden_def Let_def
    by (subst serialize_full [where P = "\<lambda>bs n. bs = _"]) (assumption, assumption, use golden in blast)
qed

definition test_udp_message_roundtrip_large :: bool where
  "test_udp_message_roundtrip_large \<longleftrightarrow>
     (let long = concat (replicate 10 ''some_random_goofy_ahh_address_which_is_very_long_'');
          msg = \<lparr>session_id = 1329655244, packet_id = 62233, frag_id = 8, frag_count = 19,
                 addr = long @ '':9000'',
                 data = as_bytes ''God is great, beer is good, and people are crazy.''\<rparr>
      in (case serialize msg (replicate MAX_UDP_SIZE 0) of
            Ret (buf, Some n) \<Rightarrow> n = udp_size msg \<and> parse_udp_message (take n buf) = Inr msg
          | _ \<Rightarrow> False))"

lemma is_str_repeat: "is_str s \<Longrightarrow> is_str (concat (replicate n s))"
  by (induction n) (simp_all add: is_str_append)

lemma udp_message_roundtrip_large: test_udp_message_roundtrip_large
proof -
  let ?long = "concat (replicate 10 ''some_random_goofy_ahh_address_which_is_very_long_'')"
  let ?m = "\<lparr>session_id = 1329655244, packet_id = 62233, frag_id = 8, frag_count = 19, addr = ?long @ '':9000'',
    data = as_bytes ''God is great, beer is good, and people are crazy.''\<rparr> :: udp_message"
  have len: "length (?long @ '':9000'') = 495" by (simp add: eval_nat_numeral)
  have "is_str (?long @ '':9000'')"
    by (intro is_str_append is_str_repeat) (code_simp+)
  with len have "udp_ok ?m" by (auto simp: udp_ok_def as_bytes_def)
  then have "parse_udp_message (udp_wire ?m) = Inr ?m" by (rule parse_udp_wire)
  moreover have "udp_size ?m \<le> MAX_UDP_SIZE" "length (addr ?m) < 2 ^ 62"
    using len by (simp_all add: udp_size_def header_size_def varint_len_def as_bytes_def)
  ultimately show ?thesis
    unfolding test_udp_message_roundtrip_large_def Let_def
    by (subst serialize_full [where P = "\<lambda>bs n. n = _ \<and> parse_udp_message bs = _"]) simp_all
qed

definition test_udp_message_malformed :: bool where
  "test_udp_message_malformed \<longleftrightarrow>
     list_all (\<lambda>bs. isl (parse_udp_message bs))
     [[],
      [0, 0, 0, 0],
      [0, 0, 0, 0, 0, 0, 0, 0, 0, 0, 0, 0],
      [0x66, 0xCC, 0xFF, 0xFF, 0x11, 0x22, 0x33, 0x44, 0x55],
      [0x66, 0xCC, 0xFF, 0xFF, 0x11, 0x22, 0x33, 0x44, 0x90, 0xAA, 0xBB, 0xCC, 0xDD, 0xEE, 0xFF]]"

lemma udp_message_malformed: test_udp_message_malformed
  by code_simp

text \<open>The padding is random: the test holds for every random source.\<close>

definition test_write_tcp_request_cases :: "rng \<Rightarrow> bool" where
  "test_write_tcp_request_cases rng \<longleftrightarrow>
     list_all (\<lambda>(a, want_prefix).
       case write_tcp_request rng a of
         Panic \<Rightarrow> False
       | Ret buf \<Rightarrow> take (length want_prefix) buf = want_prefix \<and> length want_prefix < length buf)
     [(''google.com:443'', [0x44, 0x01, 0x0e] @ as_bytes ''google.com:443''),
      (''client-api.arkoselabs.com:8080'', [0x44, 0x01, 0x1e] @ as_bytes ''client-api.arkoselabs.com:8080''),
      ([], [0x44, 0x01, 0x00])]"

definition test_read_tcp_response_cases :: bool where
  "test_read_tcp_response_cases \<longleftrightarrow>
     list_all (\<lambda>(bs, want_ok, want_msg, want_err).
       case read_tcp_response bs of
         Inr ((ok, msg), _) \<Rightarrow> \<not> want_err \<and> ok = want_ok \<and> msg = want_msg
       | Inl _ \<Rightarrow> want_err)
     [([0x00, 0x0b] @ as_bytes ''hello world'' @ [0x00], True, ''hello world'', False),
      ([0x01, 0x06] @ as_bytes ''stop!!'' @ [0x05] @ as_bytes ''xxxxx'', False, ''stop!!'', False),
      ([0x01, 0x00, 0x05] @ as_bytes ''xxxxx'', False, [], False),
      ([0x00, 0x0b] @ as_bytes ''hoho'', False, [], True),
      ([0x01, 0x05] @ as_bytes ''jesus'' @ [0x05] @ as_bytes ''x'', False, [], True)]"

lemma read_tcp_response_cases: test_read_tcp_response_cases
  by code_simp

lemma write_tcp_request_cases:
  assumes "rng_ok rng"
  shows "test_write_tcp_request_cases rng"
proof -
  let ?p = "padding_string rng TCP_REQUEST_PADDING"
  have p: "length ?p < 2 ^ 62" using length_padding [OF assms, of TCP_REQUEST_PADDING] by (simp add: TCP_REQUEST_PADDING_def)
  have w: "write_tcp_request rng a = Ret (tcp_request_wire a ?p)" if "length a < 2 ^ 62" for a
    using write_tcp_request_wire [OF that p] .
  have start: "varint_wire FRAME_TYPE_TCP_REQUEST = [0x44, 0x01]" "varint_wire (of_nat 14) = [0x0e]"
    "varint_wire (of_nat 30) = [0x1e]" "varint_wire (of_nat 0) = [0x00]" by code_simp+
  have pad: "0 < length (varint_wire (of_nat (length ?p)))"
    by (simp add: varint_wire_def Let_def)
  show ?thesis
    using start pad by (simp add: test_write_tcp_request_cases_def w tcp_request_wire_def as_bytes_def)
qed

end
