(* ===== verification/ProtocolTests.thy ===== *)
theory ProtocolTests
  imports WireTests AuthHeader Obfs PortUnion "HOL-Library.Code_Target_Nat"
begin

text \<open>
  The unit tests of fragmentation, port unions, authentication headers and obfuscation under
  \<^verbatim>\<open>crates/hysteria/src/internal\<close>, run on the model in the manner of WireTests. Natural numbers
  are evaluated in binary here, since the parsers compare with the bounds of 16 and 64 bits.
\<close>

section \<open>frag.rs\<close>

text \<open>The tests' \<^verbatim>\<open>msg\<close> helper.\<close>

definition frag_msg :: "u16 \<Rightarrow> u8 \<Rightarrow> u8 \<Rightarrow> string \<Rightarrow> udp_message" where
  "frag_msg pid fid fcount d =
     \<lparr>session_id = 123, packet_id = pid, frag_id = fid, frag_count = fcount, addr = ''test:123'', data = as_bytes d\<rparr>"

definition test_frag_udp_message_cases :: "bool \<Rightarrow> bool" where
  "test_frag_udp_message_cases checked \<longleftrightarrow>
     list_all (\<lambda>(d, max_size, want).
       frag_udp_message checked (frag_msg 123 0 1 d) max_size =
         Ret (map (\<lambda>(fid, fc, d). frag_msg 123 fid fc d) want))
     [(''hello'', 100, [(0, 1, ''hello'')]),
      (''hello'', 20, [(0, 2, ''hel''), (1, 2, ''lo'')]),
      (''abcdefgh'', 19, [(0, 4, ''ab''), (1, 4, ''cd''), (2, 4, ''ef''), (3, 4, ''gh'')])]"

lemma frag_udp_message_cases: "test_frag_udp_message_cases True \<and> test_frag_udp_message_cases False"
  by code_simp

text \<open>One \<^verbatim>\<open>Defragger\<close> is fed the whole sequence.\<close>

definition test_defragger_sequence :: "bool \<Rightarrow> bool" where
  "test_defragger_sequence checked \<longleftrightarrow>
     (let cases =
        [(frag_msg 987 0 1 ''hello'', Some (frag_msg 987 0 1 ''hello'')),
         (frag_msg 987 0 2 ''hello '', None),
         (frag_msg 987 1 2 ''moto'', Some (frag_msg 987 0 1 ''hello moto'')),
         (frag_msg 987 0 3 ''deco'', None),
         (frag_msg 987 1 3 ''*'', None),
         (frag_msg 987 2 3 ''27'', Some (frag_msg 987 0 1 ''deco*27'')),
         (frag_msg 233 1 2 ''shinsekai'', None),
         (frag_msg 244 1 2 ''what???'', None),
         (frag_msg 233 1 2 '' annaijo'', None),
         (frag_msg 233 88 2 ''shinsekai'', None),
         (frag_msg 233 0 2 ''shinsekai'', Some (frag_msg 233 0 1 ''shinsekai annaijo''))]
      in case feed_all checked defragger_default (map fst cases) of
           Panic \<Rightarrow> False
         | Ret (_, outs) \<Rightarrow> outs = map snd cases)"

lemma defragger_sequence: "test_defragger_sequence True \<and> test_defragger_sequence False"
  by code_simp

section \<open>portunion.rs\<close>

text \<open>The tests' \<^verbatim>\<open>union\<close> helper.\<close>

definition union_of :: "(u16 \<times> u16) list \<Rightarrow> port_union" where
  "union_of ranges = map (\<lambda>(s, e). \<lparr>start_port = s, end_port = e\<rparr>) ranges"

definition test_parse_cases :: bool where
  "test_parse_cases \<longleftrightarrow>
     list_all (\<lambda>(input, want). parse_port_union input = Some (union_of want))
     [(''all'', [(0, 65535)]),
      (''*'', [(0, 65535)]),
      (''1234'', [(1234, 1234)]),
      (''5678,1234,9012'', [(1234, 1234), (5678, 5678), (9012, 9012)]),
      (''1234-1240'', [(1234, 1240)]),
      (''1240-1234'', [(1234, 1240)]),
      (''5678,1200-1236,9100-9012,1234-1240'', [(1200, 1240), (5678, 5678), (9012, 9100)]),
      (''5678,1200-1236,65531-65535,65532-65534,9100-9012,1234-1240'',
        [(1200, 1240), (5678, 5678), (9012, 9100), (65531, 65535)]),
      (''5678,1200-1236,65532-65535,65531-65534,9100-9012,1234-1240'',
        [(1200, 1240), (5678, 5678), (9012, 9100), (65531, 65535)])] \<and>
     list_all (\<lambda>input. parse_port_union input = None)
     [[], ''1234-'', ''1234-ggez'', ''233,'', ''1234-1240-1250'', ''-,,'', ''http'']"

definition test_ports_expansion :: bool where
  "test_ports_expansion \<longleftrightarrow>
     ports (union_of [(1234, 1234)]) = [1234] \<and>
     ports (union_of [(1234, 1236)]) = [1234, 1235, 1236] \<and>
     ports (union_of [(1234, 1236), (5678, 5680), (9000, 9002)]) =
       [1234, 1235, 1236, 5678, 5679, 5680, 9000, 9001, 9002] \<and>
     ports (union_of [(65535, 65535)]) = [65535] \<and>
     ports (union_of [(65530, 65535)]) = [65530, 65531, 65532, 65533, 65534, 65535] \<and>
     ports (union_of [(65530, 65535), (1234, 1236)]) =
       [65530, 65531, 65532, 65533, 65534, 65535, 1234, 1235, 1236]"

lemma ports_expansion: test_ports_expansion
  by (simp add: test_ports_expansion_def ports_def range_ports_def union_of_def upt_rec)

definition test_contains_checks_ranges :: bool where
  "test_contains_checks_ranges \<longleftrightarrow>
     (let u = union_of [(1000, 2000), (3000, 3000)]
      in contains u 1500 \<and> contains u 3000 \<and> \<not> contains u 2500)"

lemma contains_checks_ranges: test_contains_checks_ranges
  by (simp add: test_contains_checks_ranges_def contains_def union_of_def)

section \<open>http.rs\<close>

definition test_auth_request_to_header_sets_fields_and_pads :: "rng \<Rightarrow> bool" where
  "test_auth_request_to_header_sets_fields_and_pads rng \<longleftrightarrow>
     (let h = auth_request_to_header hash_set rng Map.empty \<lparr>req_auth = ''secret-token'', req_rx = 100000\<rparr>
      in hash_get h REQUEST_HEADER_AUTH = Some ''secret-token'' \<and>
         hash_get h COMMON_HEADER_CC_RX = Some ''100000'' \<and>
         (case hash_get h COMMON_HEADER_PADDING of Some p \<Rightarrow> 256 \<le> length p | None \<Rightarrow> False))"

definition test_auth_response_from_header_parses :: bool where
  "test_auth_response_from_header_parses \<longleftrightarrow>
     (let h = hash_set COMMON_HEADER_CC_RX ''42'' (hash_set RESPONSE_HEADER_UDP_ENABLED ''true'' Map.empty)
      in auth_response_from_header (hash_get h) = \<lparr>udp_enabled = True, resp_rx = 42, rx_auto = False\<rparr>)"

definition test_auth_response_from_header_parses_bool_variants :: bool where
  "test_auth_response_from_header_parses_bool_variants \<longleftrightarrow>
     (let parses = (\<lambda>v. udp_enabled (auth_response_from_header
            (hash_get (hash_set RESPONSE_HEADER_UDP_ENABLED v Map.empty))))
      in list_all parses [''1'', ''t'', ''T'', ''TRUE'', ''true'', ''True''] \<and>
         list_all (\<lambda>v. \<not> parses v) [''0'', ''false'', ''no'', [], ''yes''] \<and>
         \<not> udp_enabled (auth_response_from_header (hash_get Map.empty)))"

definition test_auth_response_from_header_rx_auto :: bool where
  "test_auth_response_from_header_rx_auto \<longleftrightarrow>
     auth_response_from_header (hash_get (hash_set COMMON_HEADER_CC_RX ''auto'' Map.empty)) =
       \<lparr>udp_enabled = False, resp_rx = 0, rx_auto = True\<rparr>"

lemma auth_response_from_header_rx_auto: test_auth_response_from_header_rx_auto
  by code_simp

lemma auth_response_from_header_parses: test_auth_response_from_header_parses
  by code_simp

lemma auth_response_from_header_parses_bool_variants: test_auth_response_from_header_parses_bool_variants
  by code_simp

lemma parse_cases: test_parse_cases
  by code_simp

lemma auth_request_to_header_sets_fields_and_pads:
  assumes "rng_ok rng"
  shows "test_auth_request_to_header_sets_fields_and_pads rng"
proof -
  have "256 \<le> length (padding_string rng AUTH_REQUEST_PADDING)"
    using length_padding(1) [OF assms, of AUTH_REQUEST_PADDING] by (simp add: AUTH_REQUEST_PADDING_def)
  moreover have "show_nat 100000 = ''100000''" by code_simp
  ultimately show ?thesis
    by (simp add: test_auth_request_to_header_sets_fields_and_pads_def auth_request_to_header_def Let_def
        hash_get_def hash_set_def REQUEST_HEADER_AUTH_def COMMON_HEADER_CC_RX_def COMMON_HEADER_PADDING_def)
qed

section \<open>obfs.rs\<close>

definition test_psk_below_minimum_is_rejected :: bool where
  "test_psk_below_minimum_is_rejected \<longleftrightarrow>
     isl (salamander_new (as_bytes ''abc'')) \<and> \<not> isl (salamander_new (as_bytes ''abcd''))"

lemma psk_below_minimum_is_rejected: test_psk_below_minimum_is_rejected
  by code_simp

text \<open>
  The round trips, with the hash and the salts of each round as parameters; a round's input is the
  low byte of each index XORed with the low byte of the round.
\<close>

definition test_obfuscate_deobfuscate_roundtrips :: "(bytes \<Rightarrow> bytes) \<Rightarrow> (nat \<Rightarrow> nat \<Rightarrow> u8) \<Rightarrow> bool" where
  "test_obfuscate_deobfuscate_roundtrips blake salts \<longleftrightarrow>
     (case salamander_new (as_bytes ''average_password'') of
        Inl _ \<Rightarrow> False
      | Inr obfs \<Rightarrow>
          snd (fold (\<lambda>round ((o_out, d_out), passed).
            let r = of_nat round;
                input = map (\<lambda>i. of_nat i XOR r) [0..<1200];
                (o_out, n) = obfuscate blake obfs (salts round) input o_out;
                (d_out, m) = deobfuscate blake obfs (take n o_out) d_out
            in ((o_out, d_out),
                passed \<and> n = length input + SALT_LEN \<and> m = length input \<and> take m d_out = input))
          [0..<1000] ((replicate 2048 0, replicate 2048 0), True)))"

definition test_ciphertext_differs_each_call_via_salt ::
  "(bytes \<Rightarrow> bytes) \<Rightarrow> (nat \<Rightarrow> u8) \<Rightarrow> (nat \<Rightarrow> u8) \<Rightarrow> bool" where
  "test_ciphertext_differs_each_call_via_salt blake salt1 salt2 \<longleftrightarrow>
     (case salamander_new (as_bytes ''average_password'') of
        Inl _ \<Rightarrow> False
      | Inr obfs \<Rightarrow>
          let input = replicate 64 0;
              (a, na) = obfuscate blake obfs salt1 input (replicate 2048 0);
              (b, nb) = obfuscate blake obfs salt2 input (replicate 2048 0)
          in take na a \<noteq> take nb b)"

lemma fold_keeps:
  assumes "I x" "\<And>r y. I y \<Longrightarrow> I (f r y)" "\<And>y. I y \<Longrightarrow> P y"
  shows "P (fold f rs x)"
  using assms(1) by (induction rs arbitrary: x) (simp_all add: assms(2,3))

lemma obfuscate_deobfuscate_roundtrips: "test_obfuscate_deobfuscate_roundtrips blake salts"
proof -
  let ?s = "\<lparr>psk = as_bytes ''average_password''\<rparr>"
  have new: "salamander_new (as_bytes ''average_password'') = Inr ?s"
    by (simp add: salamander_new_def PSK_MIN_LEN_def as_bytes_def)
  show ?thesis
    unfolding test_obfuscate_deobfuscate_roundtrips_def new sum.case
  proof (rule fold_keeps [where P = snd and
        I = "\<lambda>x. length (fst (fst x)) = 2048 \<and> length (snd (fst x)) = 2048 \<and> snd x"])
  qed (auto simp: obfuscate_eq deobfuscate_eq SALT_LEN_def xor_stream_involutive Let_def split: prod.splits)
qed

lemma ciphertext_differs_each_call_via_salt:
  assumes "salt_array salt1 \<noteq> salt_array salt2"
  shows "test_ciphertext_differs_each_call_via_salt blake salt1 salt2"
  using assms
  by (simp add: test_ciphertext_differs_each_call_via_salt_def salamander_new_def PSK_MIN_LEN_def as_bytes_def
      obfuscate_eq append_eq_append_conv)

end
