(* ===== verification/Float64.thy ===== *)
theory Float64
  imports Brutal
begin

text \<open>
  IEEE 754 rounding to 53 significant bits, to nearest and ties to even: the rounding of the
  arithmetic on \<^verbatim>\<open>f64\<close> in \<^verbatim>\<open>crates/hysteria/src/internal/congestion/brutal.rs\<close>, as long as results are neither
  subnormal nor too large. It is an instance of the laws that the theorems on the controller
  assume of their rounding.
\<close>

definition round_even :: "real \<Rightarrow> int" where
  "round_even y =
     (let n = \<lfloor>y\<rfloor>; f = y - real_of_int n
      in if f < 1 / 2 then n else if 1 / 2 < f then n + 1 else if even n then n else n + 1)"

definition f64_ulp :: "real \<Rightarrow> real" where
  "f64_ulp x = 2 powr (real_of_int \<lfloor>log 2 x\<rfloor> - 52)"

definition f64_pos :: "real \<Rightarrow> real" where
  "f64_pos x = real_of_int (round_even (x / f64_ulp x)) * f64_ulp x"

definition f64 :: "real \<Rightarrow> real" where
  "f64 x = (if 0 < x then f64_pos x else if x < 0 then - f64_pos (- x) else 0)"

section \<open>Rounding to an integer\<close>

lemma round_even_int [simp]: "round_even (real_of_int n) = n"
  by (simp add: round_even_def)

lemma round_even_near: "\<bar>real_of_int (round_even y) - y\<bar> \<le> 1 / 2"
  unfolding round_even_def Let_def by (auto simp: abs_le_iff)

lemma round_even_bounds: "\<lfloor>y\<rfloor> \<le> round_even y" "round_even y \<le> \<lfloor>y\<rfloor> + 1"
  by (simp_all add: round_even_def Let_def)

lemma round_even_mono: "y \<le> z \<Longrightarrow> round_even y \<le> round_even z"
proof (cases "\<lfloor>y\<rfloor> = \<lfloor>z\<rfloor>")
  case True
  then show "y \<le> z \<Longrightarrow> round_even y \<le> round_even z" by (auto simp: round_even_def Let_def)
next
  case False
  assume "y \<le> z"
  with False have "\<lfloor>y\<rfloor> + 1 \<le> \<lfloor>z\<rfloor>" using floor_mono [of y z] by linarith
  with round_even_bounds(2) [of y] round_even_bounds(1) [of z] show "round_even y \<le> round_even z" by linarith
qed

lemma round_even_ge: "real_of_int n \<le> y \<Longrightarrow> n \<le> round_even y"
  using round_even_mono [of "real_of_int n" y] by simp

lemma round_even_le: "y \<le> real_of_int n \<Longrightarrow> round_even y \<le> n"
  using round_even_mono [of y "real_of_int n"] by simp

section \<open>The binade of a number\<close>

lemma binade:
  assumes "0 < x"
  shows "2 powr real_of_int \<lfloor>log 2 x\<rfloor> \<le> x" "x < 2 powr (real_of_int \<lfloor>log 2 x\<rfloor> + 1)"
  using floor_log_eq_powr_iff [of x 2 "\<lfloor>log 2 x\<rfloor>"] assms by (simp_all add: add.commute)

lemma ulp_pos: "0 < f64_ulp x"
  by (simp add: f64_ulp_def)

lemma powr_52: "2 powr (e + 52) = (2 :: real) ^ 52 * 2 powr e"
  by (simp add: powr_add powr_numeral)

lemma scaled:
  assumes "0 < x"
  shows "2 ^ 52 \<le> x / f64_ulp x" "x / f64_ulp x < 2 ^ 53"
proof -
  let ?e = "real_of_int \<lfloor>log 2 x\<rfloor>"
  have e: "2 powr ?e = 2 ^ 52 * f64_ulp x" "2 powr (?e + 1) = 2 ^ 53 * f64_ulp x"
    using powr_52 [of "?e - 52"] by (simp_all add: f64_ulp_def powr_add)
  show "2 ^ 52 \<le> x / f64_ulp x" "x / f64_ulp x < 2 ^ 53"
    using binade [OF assms] ulp_pos [of x] unfolding e by (simp_all add: field_simps)
qed

text \<open>A rounded number stays within the powers of two around it.\<close>

lemma f64_pos_binade:
  assumes "0 < x"
  shows "2 powr real_of_int \<lfloor>log 2 x\<rfloor> \<le> f64_pos x" "f64_pos x \<le> 2 powr (real_of_int \<lfloor>log 2 x\<rfloor> + 1)"
proof -
  let ?e = "real_of_int \<lfloor>log 2 x\<rfloor>" and ?n = "round_even (x / f64_ulp x)"
  have e: "2 powr ?e = 2 ^ 52 * f64_ulp x" "2 powr (?e + 1) = 2 ^ 53 * f64_ulp x"
    using powr_52 [of "?e - 52"] by (simp_all add: f64_ulp_def powr_add)
  have "2 ^ 52 \<le> ?n" "?n \<le> 2 ^ 53" using scaled [OF assms] by (auto intro: round_even_ge round_even_le)
  then have "real_of_int (2 ^ 52) \<le> real_of_int ?n" "real_of_int ?n \<le> real_of_int (2 ^ 53)"
    by (simp_all only: of_int_le_iff)
  then have "(2 :: real) ^ 52 \<le> real_of_int ?n" "real_of_int ?n \<le> 2 ^ 53" by simp_all
  then show "2 powr ?e \<le> f64_pos x" "f64_pos x \<le> 2 powr (?e + 1)"
    unfolding e f64_pos_def using ulp_pos [of x] by simp_all
qed

lemma f64_pos_mono:
  assumes "0 < x" "x \<le> y"
  shows "f64_pos x \<le> f64_pos y"
proof (cases "\<lfloor>log 2 x\<rfloor> = \<lfloor>log 2 y\<rfloor>")
  case True
  then have "f64_ulp x = f64_ulp y" by (simp add: f64_ulp_def)
  moreover have "x / f64_ulp y \<le> y / f64_ulp y" using assms ulp_pos [of y] by (simp add: divide_right_mono)
  ultimately show ?thesis
    using ulp_pos [of y] by (simp add: f64_pos_def round_even_mono)
next
  case False
  have "\<lfloor>log 2 x\<rfloor> \<le> \<lfloor>log 2 y\<rfloor>" using assms by (intro floor_mono) simp
  with False have "real_of_int \<lfloor>log 2 x\<rfloor> + 1 \<le> real_of_int \<lfloor>log 2 y\<rfloor>" by linarith
  then have "2 powr (real_of_int \<lfloor>log 2 x\<rfloor> + 1) \<le> 2 powr real_of_int \<lfloor>log 2 y\<rfloor>" by simp
  with f64_pos_binade(2) [OF assms(1)] f64_pos_binade(1) [of y] assms show ?thesis by linarith
qed

lemma f64_pos_error:
  assumes "0 < x"
  shows "\<bar>f64_pos x - x\<bar> \<le> x * (1 / 2 ^ 53)"
proof -
  let ?y = "x / f64_ulp x"
  have "f64_pos x - x = (real_of_int (round_even ?y) - ?y) * f64_ulp x"
    using ulp_pos [of x] by (simp add: f64_pos_def field_simps)
  then have "\<bar>f64_pos x - x\<bar> = \<bar>real_of_int (round_even ?y) - ?y\<bar> * f64_ulp x"
    using ulp_pos [of x] by (simp add: abs_mult)
  also have "\<dots> \<le> 1 / 2 * f64_ulp x"
    using round_even_near [of ?y] ulp_pos [of x] by (intro mult_right_mono) simp_all
  also have "\<dots> \<le> x * (1 / 2 ^ 53)"
    using scaled(1) [OF assms] ulp_pos [of x] by (simp add: field_simps)
  finally show ?thesis .
qed

section \<open>The laws\<close>

lemma f64_eval:
  assumes "2 powr real_of_int k \<le> x" "x < 2 powr (real_of_int k + 1)"
  shows "f64 x = real_of_int (round_even (x * 2 powr (52 - real_of_int k))) * 2 powr (real_of_int k - 52)"
proof -
  have x: "0 < x" using assms(1) powr_gt_zero [of 2 "real_of_int k"] by linarith
  then have "\<lfloor>log 2 x\<rfloor> = k" using floor_log_eq_powr_iff [of x 2 k] assms by (simp add: add.commute)
  moreover have "x / 2 powr (real_of_int k - 52) = x * 2 powr (52 - real_of_int k)"
    by (simp add: powr_diff field_simps)
  ultimately show ?thesis using x by (simp add: f64_def f64_pos_def f64_ulp_def)
qed

lemma f64_monotone: "mono f64"
proof (rule monoI)
  fix x y :: real
  assume le: "x \<le> y"
  have pos: "0 < z \<Longrightarrow> 0 < f64_pos z" for z
    using f64_pos_binade(1) [of z] powr_gt_zero [of 2 "real_of_int \<lfloor>log 2 z\<rfloor>"] by linarith
  show "f64 x \<le> f64 y"
    using le f64_pos_mono [of x y] f64_pos_mono [of "- y" "- x"] pos [of y] pos [of "- x"]
    by (auto simp: f64_def)
qed

lemma f64_nat:
  assumes "n \<le> 2 ^ 53"
  shows "f64 (real n) = real n"
proof (cases "n = 0")
  case False
  then have n: "0 < real n" by simp
  let ?e = "\<lfloor>log 2 (real n)\<rfloor>"
  have e0: "0 \<le> ?e" using False by (simp add: zero_le_floor)
  have e53: "?e \<le> 53"
  proof -
    have "real n \<le> 2 ^ 53" using assms by (metis of_nat_le_iff of_nat_numeral of_nat_power)
    then have "2 powr real_of_int ?e \<le> 2 powr 53" using binade(1) [OF n] by simp
    then have "real_of_int ?e \<le> 53" by (simp only: powr_le_cancel_iff)
    then show ?thesis by linarith
  qed
  have "\<exists>m :: int. real n / f64_ulp (real n) = real_of_int m"
  proof (cases "?e \<le> 52")
    case True
    have "real n / f64_ulp (real n) = real n * 2 powr (52 - real_of_int ?e)"
      by (simp add: f64_ulp_def powr_diff field_simps)
    also have "2 powr (52 - real_of_int ?e) = 2 ^ nat (52 - ?e)"
      using True by (simp add: powr_realpow [symmetric])
    finally have "real n / f64_ulp (real n) = real_of_int (int n * 2 ^ nat (52 - ?e))" by simp
    then show ?thesis by blast
  next
    case False
    with e53 have e: "?e = 53" by linarith
    then have "2 powr 53 \<le> real n" using binade(1) [OF n] by simp
    then have "2 ^ 53 \<le> real n" by simp
    with assms have "n = 2 ^ 53" by (metis le_antisym of_nat_le_iff of_nat_numeral of_nat_power)
    then have "real n / f64_ulp (real n) = real_of_int (2 ^ 52)" using e by (simp add: f64_ulp_def)
    then show ?thesis by blast
  qed
  then obtain m :: int where m: "real n / f64_ulp (real n) = real_of_int m" ..
  then have "real n = real_of_int m * f64_ulp (real n)" using ulp_pos [of "real n"] by (simp add: field_simps)
  then show ?thesis using n m by (simp add: f64_def f64_pos_def)
qed (simp add: f64_def)

lemma f64_is_ok: "f64_ok f64"
proof -
  have "\<bar>f64 x - x\<bar> \<le> x * (1 / 2 ^ 53)" if "1 / 2 ^ 1000 \<le> x" for x
  proof -
    have "0 < x" using that by (meson less_le_trans zero_less_divide_1_iff zero_less_numeral zero_less_power)
    with f64_pos_error show ?thesis by (simp add: f64_def)
  qed
  with f64_monotone f64_nat show ?thesis by (simp add: f64_ok_def)
qed

section \<open>Evaluation\<close>

text \<open>A number below \<open>2 ^ 53\<close> is rounded at the scale that brings it to 53 bits.\<close>

lemma f64_scaled:
  assumes "2 ^ 52 \<le> x * 2 ^ a" "x * 2 ^ a < 2 ^ 53"
  shows "f64 x = real_of_int (round_even (x * 2 ^ a)) / 2 ^ a"
proof -
  have p: "(2 :: real) ^ a = 2 powr real a" by (simp add: powr_realpow)
  have "2 powr (52 - real a) \<le> x" "x < 2 powr (53 - real a)"
    using assms unfolding p by (simp_all add: powr_diff field_simps)
  then show ?thesis
    using f64_eval [of "52 - int a" x] unfolding p by (simp add: powr_minus_divide field_simps)
qed

lemma f64_numeral [simp]: "(numeral k :: nat) \<le> 2 ^ 53 \<Longrightarrow> f64 (numeral k) = numeral k"
  using f64_nat [of "numeral k"] by simp

lemma f64_small [simp]: "f64 0 = 0" "f64 1 = 1"
  using f64_nat [of 0] f64_nat [of 1] by simp_all

end
