(* ===== verification/ClientTests.thy ===== *)
theory ClientTests
  imports Transport Float64 "HOL-Library.Code_Target_Nat"
begin

text \<open>
  The unit tests of the client, \<^verbatim>\<open>crates/hysteria/src/client\<close>, of its congestion controller and of
  the crates \<^verbatim>\<open>conn-error\<close> and \<^verbatim>\<open>profile\<close>, run on the model: one definition per test function,
  with a conjunct per assertion, and a lemma that it holds.
\<close>

section \<open>config.rs\<close>

definition test_config :: config where
  "test_config = config_new (V4 0x7f000001, 443) ''auth'' \<lparr>server_name = [], ca = None\<rparr>"

definition test_defaults_are_filled :: bool where
  "test_defaults_are_filled \<longleftrightarrow>
     (case verify_and_fill test_config of
        Inl _ \<Rightarrow> False
      | Inr c \<Rightarrow>
          initial_stream_receive_window (quic c) = 8388608 \<and>
          max_connection_receive_window (quic c) = 20971520 \<and>
          max_idle_timeout (quic c) = from_secs 30 \<and>
          keep_alive_period (quic c) = from_secs 10)"

lemma defaults_are_filled: test_defaults_are_filled
  by code_simp

definition test_window_below_minimum_is_rejected :: bool where
  "test_window_below_minimum_is_rejected \<longleftrightarrow>
     (case verify_and_fill (test_config\<lparr>quic := (quic test_config)\<lparr>initial_stream_receive_window := 1024\<rparr>\<rparr>) of
        Inl err \<Rightarrow> field err = ''QUICConfig.InitialStreamReceiveWindow''
      | Inr _ \<Rightarrow> False)"

lemma window_below_minimum_is_rejected: test_window_below_minimum_is_rejected
  by code_simp

definition with_idle :: "duration \<Rightarrow> config" where
  "with_idle d = test_config\<lparr>quic := (quic test_config)\<lparr>max_idle_timeout := d\<rparr>\<rparr>"

definition test_idle_timeout_bounds_are_enforced :: bool where
  "test_idle_timeout_bounds_are_enforced \<longleftrightarrow>
     isl (verify_and_fill (with_idle (from_secs 1))) \<and>
     isl (verify_and_fill (with_idle (from_secs 200))) \<and>
     \<not> isl (verify_and_fill (with_idle (from_secs 20)))"

lemma idle_timeout_bounds_are_enforced: test_idle_timeout_bounds_are_enforced
  by code_simp

definition with_keep_alive :: "duration \<Rightarrow> config" where
  "with_keep_alive d = test_config\<lparr>quic := (quic test_config)\<lparr>keep_alive_period := d\<rparr>\<rparr>"

definition test_keep_alive_bounds_are_enforced :: bool where
  "test_keep_alive_bounds_are_enforced \<longleftrightarrow>
     isl (verify_and_fill (with_keep_alive (from_secs 1))) \<and>
     isl (verify_and_fill (with_keep_alive (from_secs 90)))"

lemma keep_alive_bounds_are_enforced: test_keep_alive_bounds_are_enforced
  by code_simp

definition with_hops :: "string option \<Rightarrow> duration \<Rightarrow> duration \<Rightarrow> config" where
  "with_hops spec lo hi =
     (let c = test_config\<lparr>hop_interval := \<lparr>hop_min = lo, hop_max = hi\<rparr>\<rparr>
      in case spec of Some u \<Rightarrow> c\<lparr>hop_ports := parse_port_union u\<rparr> | None \<Rightarrow> c)"

definition test_hop_interval_is_validated_only_with_hop_ports :: bool where
  "test_hop_interval_is_validated_only_with_hop_ports \<longleftrightarrow>
     (case verify_and_fill (with_hops (Some ''1000-2000'') 0 0) of
        Inl _ \<Rightarrow> False
      | Inr c \<Rightarrow> hop_min (hop_interval c) = DEFAULT_HOP_INTERVAL) \<and>
     isl (verify_and_fill (with_hops (Some ''1000-2000'') (from_secs 1) (from_secs 1))) \<and>
     \<not> isl (verify_and_fill (with_hops None (from_secs 1) (from_secs 1)))"

lemma hop_interval_is_validated_only_with_hop_ports: test_hop_interval_is_validated_only_with_hop_ports
  by code_simp

definition test_hop_interval_partial_and_reversed_are_rejected :: bool where
  "test_hop_interval_partial_and_reversed_are_rejected \<longleftrightarrow>
     isl (verify_and_fill (with_hops (Some ''1000-2000'') (from_secs 10) 0)) \<and>
     isl (verify_and_fill (with_hops (Some ''1000-2000'') (from_secs 30) (from_secs 10)))"

lemma hop_interval_partial_and_reversed_are_rejected: test_hop_interval_partial_and_reversed_are_rejected
  by code_simp

text \<open>
  The address literals of the tests resolve to themselves; the resolver is a parameter of
  \<^const>\<open>from_profile\<close>.
\<close>

definition resolves_literals :: "(string \<Rightarrow> u16 \<Rightarrow> string + socket_addr list) \<Rightarrow> bool" where
  "resolves_literals resolve \<longleftrightarrow>
     (\<forall>p. resolve ''127.0.0.1'' p = Inr [(V4 0x7f000001, p)]) \<and> (\<forall>p. resolve ''::1'' p = Inr [(V6 1, p)])"

definition test_from_profile_maps_connection_fields :: "(string \<Rightarrow> u16 \<Rightarrow> string + socket_addr list) \<Rightarrow> bool" where
  "test_from_profile_maps_connection_fields resolve \<longleftrightarrow>
     (case from_profile resolve
             \<lparr>server = ''127.0.0.1:8443'', auth = ''secret'', profile_tls = \<lparr>sni = ''example.com''\<rparr>,
              profile_obfs = Some \<lparr>obfs_type = ''salamander'', password = ''pw''\<rparr>, fast_open = True\<rparr> of
        Inl _ \<Rightarrow> False
      | Inr c \<Rightarrow>
          server_addr c = (V4 0x7f000001, 8443) \<and>
          config_auth c = ''secret'' \<and>
          server_name (config_tls c) = ''example.com'' \<and>
          ca (config_tls c) = None \<and>
          config_obfs c = Some (as_bytes ''pw'') \<and>
          config_fast_open c \<and>
          hop_ports c = None)"

definition test_from_profile_defaults_sni_and_enables_port_hopping ::
  "(string \<Rightarrow> u16 \<Rightarrow> string + socket_addr list) \<Rightarrow> bool" where
  "test_from_profile_defaults_sni_and_enables_port_hopping resolve \<longleftrightarrow>
     (case from_profile resolve (profile_default\<lparr>server := ''127.0.0.1:8000-8002'', auth := ''a''\<rparr>) of
        Inl _ \<Rightarrow> False
      | Inr c \<Rightarrow>
          server_name (config_tls c) = ''127.0.0.1'' \<and>
          snd (server_addr c) = 8000 \<and>
          (case hop_ports c of None \<Rightarrow> False | Some hop \<Rightarrow> contains hop 8001))"

definition test_from_profile_handles_ipv6_hosts :: "(string \<Rightarrow> u16 \<Rightarrow> string + socket_addr list) \<Rightarrow> bool" where
  "test_from_profile_handles_ipv6_hosts resolve \<longleftrightarrow>
     (case from_profile resolve (profile_default\<lparr>server := ''[::1]:8443''\<rparr>) of
        Inl _ \<Rightarrow> False
      | Inr c \<Rightarrow> server_addr c = (V6 1, 8443) \<and> server_name (config_tls c) = ''::1'') \<and>
     (case from_profile resolve (profile_default\<lparr>server := ''::1''\<rparr>) of
        Inl _ \<Rightarrow> False
      | Inr c \<Rightarrow> server_addr c = (V6 1, 443))"

definition test_from_profile_rejects_unsupported_obfs :: "(string \<Rightarrow> u16 \<Rightarrow> string + socket_addr list) \<Rightarrow> bool" where
  "test_from_profile_rejects_unsupported_obfs resolve \<longleftrightarrow>
     isl (from_profile resolve
       (profile_default\<lparr>server := ''127.0.0.1:443'',
          profile_obfs := Some \<lparr>obfs_type = ''gecko'', password = ''x''\<rparr>\<rparr>))"

lemma literal_hosts:
  "split_host_port ''127.0.0.1:8443'' = (''127.0.0.1'', ''8443'')"
  "split_host_port ''127.0.0.1:8000-8002'' = (''127.0.0.1'', ''8000-8002'')"
  "split_host_port ''127.0.0.1:443'' = (''127.0.0.1'', ''443'')"
  "split_host_port ''[::1]:8443'' = (''::1'', ''8443'')"
  "split_host_port ''::1'' = (''::1'', ''443'')"
  by code_simp+

lemma literal_ports:
  "primary_port ''8443'' = Inr 8443" "primary_port ''443'' = Inr 443" "primary_port ''8000-8002'' = Inr 8000"
  "parse_port_union ''8000-8002'' = Some [\<lparr>start_port = 8000, end_port = 8002\<rparr>]"
  "eq_ignore_ascii_case ''salamander'' ''salamander''" "\<not> eq_ignore_ascii_case ''gecko'' ''salamander''"
  by code_simp+

lemmas literal_profiles = resolves_literals_def from_profile_def literal_hosts literal_ports profile_default_def config_new_def

lemma from_profile_maps_connection_fields:
  "resolves_literals resolve \<Longrightarrow> test_from_profile_maps_connection_fields resolve"
  by (simp add: test_from_profile_maps_connection_fields_def literal_profiles)

lemma from_profile_defaults_sni_and_enables_port_hopping:
  "resolves_literals resolve \<Longrightarrow> test_from_profile_defaults_sni_and_enables_port_hopping resolve"
  by (simp add: test_from_profile_defaults_sni_and_enables_port_hopping_def literal_profiles contains_def)

lemma from_profile_handles_ipv6_hosts:
  "resolves_literals resolve \<Longrightarrow> test_from_profile_handles_ipv6_hosts resolve"
  by (simp add: test_from_profile_handles_ipv6_hosts_def literal_profiles)

lemma from_profile_rejects_unsupported_obfs:
  "resolves_literals resolve \<Longrightarrow> test_from_profile_rejects_unsupported_obfs resolve"
  by (simp add: test_from_profile_rejects_unsupported_obfs_def literal_profiles)

section \<open>transport.rs, connect\_error.rs, tls.rs, hop\_socket.rs\<close>

definition test_effective_tx_matches_go_rules :: bool where
  "test_effective_tx_matches_go_rules \<longleftrightarrow>
     effective_tx True 100 200 = 0 \<and>
     effective_tx False 0 200 = 200 \<and>
     effective_tx False 300 200 = 200 \<and>
     effective_tx False 150 200 = 150"

lemma effective_tx_matches_go_rules: test_effective_tx_matches_go_rules
  by code_simp

definition test_each_category_maps_to_its_conn_error :: bool where
  "test_each_category_maps_to_its_conn_error \<longleftrightarrow>
     list_all (\<lambda>(failure, expected). conn_error_of failure = expected)
     [(FailConfig ''x'', Unknown),
      (FailUnreachable ''x'', ServerUnreachable),
      (FailTimeout ''x'', Timeout),
      (FailAuth ''x'', AuthFailed)]"

lemma each_category_maps_to_its_conn_error: test_each_category_maps_to_its_conn_error
  by code_simp

definition test_display_carries_the_category_and_cause :: bool where
  "test_display_carries_the_category_and_cause \<longleftrightarrow>
     display_connect_failure (FailTimeout ''idle for 5s'') = ''connection timed out: idle for 5s''"

lemma display_carries_the_category_and_cause: test_display_carries_the_category_and_cause
  by code_simp

text \<open>
  The TLS tests rest on what the TLS library answers: the platform's verifier and the protocol
  versions are available, and bytes that are not a certificate are no trust anchor.
\<close>

definition test_platform_verifier_config_negotiates_h3 :: "rustls_env \<Rightarrow> bool" where
  "test_platform_verifier_config_negotiates_h3 re \<longleftrightarrow>
     (case build_rustls_client_config re \<lparr>server_name = ''example.com'', ca = None\<rparr> of
        Inl _ \<Rightarrow> False
      | Inr rc \<Rightarrow> alpn_protocols rc = [as_bytes ''h3''])"

lemma platform_verifier_config_negotiates_h3:
  "re_versions re = None \<Longrightarrow> re_platform re = None \<Longrightarrow> test_platform_verifier_config_negotiates_h3 re"
  by (simp add: test_platform_verifier_config_negotiates_h3_def build_rustls_client_config_def tls_err_def ALPN_H3_def)

definition test_invalid_ca_is_rejected :: "rustls_env \<Rightarrow> bool" where
  "test_invalid_ca_is_rejected re \<longleftrightarrow>
     isl (build_rustls_client_config re
       \<lparr>server_name = ''example.com'', ca = Some (as_bytes ''not a certificate'')\<rparr>)"

lemma invalid_ca_is_rejected:
  assumes "re_add_root re (as_bytes ''not a certificate'') \<noteq> None"
  shows "test_invalid_ca_is_rejected re"
  using rustls_rejects [of "\<lparr>server_name = ''example.com'', ca = Some (as_bytes ''not a certificate'')\<rparr>", OF _ assms]
  by (auto simp: test_invalid_ca_is_rejected_def)

definition test_next_delay_with_equal_bounds_is_constant :: "rng \<Rightarrow> bool" where
  "test_next_delay_with_equal_bounds_is_constant rng \<longleftrightarrow>
     next_delay rng \<lparr>hop_min = from_secs 7, hop_max = from_secs 7\<rparr> = from_secs 7"

lemma next_delay_with_equal_bounds_is_constant: "test_next_delay_with_equal_bounds_is_constant rng"
  by (simp add: test_next_delay_with_equal_bounds_is_constant_def next_delay_def)

text \<open>The loop of the test draws anew each round: \<open>rngs\<close> are the sources of the rounds.\<close>

definition test_next_delay_stays_within_inclusive_bounds :: "(nat \<Rightarrow> rng) \<Rightarrow> bool" where
  "test_next_delay_stays_within_inclusive_bounds rngs \<longleftrightarrow>
     list_all (\<lambda>k. let d = next_delay (rngs k) \<lparr>hop_min = from_secs 10, hop_max = from_secs 30\<rparr>
                   in from_secs 10 \<le> d \<and> d \<le> from_secs 30) [0..<1000]"

lemma next_delay_stays_within_inclusive_bounds:
  assumes "\<And>k. rng_ok (rngs k)"
  shows "test_next_delay_stays_within_inclusive_bounds rngs"
proof -
  have "from_secs 10 \<le> next_delay (rngs k) \<lparr>hop_min = from_secs 10, hop_max = from_secs 30\<rparr> \<and>
    next_delay (rngs k) \<lparr>hop_min = from_secs 10, hop_max = from_secs 30\<rparr> \<le> from_secs 30" for k
    using assms [of k] by (simp add: next_delay_def from_secs_def rng_ok_def Let_def less_Suc_eq_le [symmetric])
  then show ?thesis by (simp add: test_next_delay_stays_within_inclusive_bounds_def Let_def list_all_iff)
qed

section \<open>The crate conn-error\<close>

definition test_code_roundtrips_for_every_variant :: bool where
  "test_code_roundtrips_for_every_variant \<longleftrightarrow>
     list_all (\<lambda>err. from_code (code err) = err) [Unknown, AuthFailed, ServerUnreachable, Timeout]"

lemma code_roundtrips_for_every_variant: test_code_roundtrips_for_every_variant
  by code_simp

definition test_unrecognized_codes_map_to_unknown :: bool where
  "test_unrecognized_codes_map_to_unknown \<longleftrightarrow>
     list_all (\<lambda>c. from_code c = Unknown) [- 1, 3, 5, 42, 2147483647, - 2147483648]"

lemma unrecognized_codes_map_to_unknown: test_unrecognized_codes_map_to_unknown
  by code_simp

definition test_codes_are_the_stable_contract :: bool where
  "test_codes_are_the_stable_contract \<longleftrightarrow>
     code Unknown = 0 \<and> code AuthFailed = 1 \<and> code ServerUnreachable = 2 \<and> code Timeout = 4"

lemma codes_are_the_stable_contract: test_codes_are_the_stable_contract
  by code_simp

definition test_default_is_unknown :: bool where
  "test_default_is_unknown \<longleftrightarrow> conn_error_default = Unknown"

lemma default_is_unknown: test_default_is_unknown
  by code_simp

definition test_display_strings_are_stable :: bool where
  "test_display_strings_are_stable \<longleftrightarrow>
     display_conn_error Unknown = ''unknown error'' \<and>
     display_conn_error AuthFailed = ''authentication failed'' \<and>
     display_conn_error ServerUnreachable = ''server unreachable'' \<and>
     display_conn_error Timeout = ''connection timed out''"

lemma display_strings_are_stable: test_display_strings_are_stable
  by code_simp

section \<open>brutal.rs\<close>

text \<open>
  The tests compare floating-point results with decimal numbers; they are run with the rounding
  of \<^verbatim>\<open>f64\<close>, at an arbitrary start \<open>now\<close>. A tolerance of the test stays as written.
\<close>

definition test_sender :: "nat \<Rightarrow> brutal_sender" where
  "test_sender now = brutal_new 1000000 now 1200"

definition test_window_before_any_rtt_is_the_initial_window :: "nat \<Rightarrow> bool" where
  "test_window_before_any_rtt_is_the_initial_window now \<longleftrightarrow>
     brutal_window f64 (test_sender now) = INITIAL_WINDOW \<and> initial_window = INITIAL_WINDOW"

definition test_window_is_bandwidth_delay_product_times_multiplier :: "nat \<Rightarrow> bool" where
  "test_window_is_bandwidth_delay_product_times_multiplier now \<longleftrightarrow>
     brutal_window f64 ((test_sender now)\<lparr>rtt := 100000000\<rparr>) = 200000"

definition test_window_is_floored_at_one_datagram :: "nat \<Rightarrow> bool" where
  "test_window_is_floored_at_one_datagram now \<longleftrightarrow>
     brutal_window f64 ((brutal_new 1 now 1200)\<lparr>rtt := 1000000\<rparr>) = 1200"

definition rate_after :: "bool \<Rightarrow> (nat \<times> u64 \<times> u64) list \<Rightarrow> brutal_sender \<Rightarrow> real option" where
  "rate_after checked batches s =
     (case fold (\<lambda>(t, a, l) r. exec_bind r (add_samples f64 checked t a l)) batches (Ret s) of
        Panic \<Rightarrow> None
      | Ret s \<Rightarrow> Some (ack_rate s))"

definition rate_within :: "real option \<Rightarrow> real \<Rightarrow> bool" where
  "rate_within r want \<longleftrightarrow> (case r of None \<Rightarrow> False | Some x \<Rightarrow> \<bar>x - want\<bar> < 1 / 1000000000)"

definition test_ack_rate_stays_one_below_the_sample_threshold :: "bool \<Rightarrow> nat \<Rightarrow> bool" where
  "test_ack_rate_stays_one_below_the_sample_threshold checked now \<longleftrightarrow>
     rate_after checked [(now, 10, 5)] (test_sender now) = Some 1"

definition test_ack_rate_tracks_the_loss_fraction :: "bool \<Rightarrow> nat \<Rightarrow> bool" where
  "test_ack_rate_tracks_the_loss_fraction checked now \<longleftrightarrow>
     rate_within (rate_after checked [(now, 90, 10)] (test_sender now)) (9 / 10)"

definition test_ack_rate_is_clamped_to_the_floor :: "bool \<Rightarrow> nat \<Rightarrow> bool" where
  "test_ack_rate_is_clamped_to_the_floor checked now \<longleftrightarrow>
     rate_within (rate_after checked [(now, 10, 90)] (test_sender now)) (MIN_ACK_RATE f64)"

definition test_a_lower_ack_rate_inflates_the_window :: "nat \<Rightarrow> bool" where
  "test_a_lower_ack_rate_inflates_the_window now \<longleftrightarrow>
     brutal_window f64 ((test_sender now)\<lparr>rtt := 100000000, ack_rate := MIN_ACK_RATE f64\<rparr>) = 250000"

definition test_on_congestion_event_translates_bytes_to_packets_and_clamps :: "bool \<Rightarrow> nat \<Rightarrow> bool" where
  "test_on_congestion_event_translates_bytes_to_packets_and_clamps checked now \<longleftrightarrow>
     (case on_congestion_event f64 checked now (1200 * 60) (test_sender now) of
        Panic \<Rightarrow> False
      | Ret s \<Rightarrow> \<bar>ack_rate s - MIN_ACK_RATE f64\<bar> < 1 / 1000000000)"

definition test_ecn_only_event_records_nothing :: "bool \<Rightarrow> nat \<Rightarrow> bool" where
  "test_ecn_only_event_records_nothing checked now \<longleftrightarrow>
     (case on_congestion_event f64 checked now 0 (test_sender now) of
        Panic \<Rightarrow> False
      | Ret s \<Rightarrow> ack_rate s = 1)"

definition test_stale_samples_are_evicted_after_the_window :: "bool \<Rightarrow> nat \<Rightarrow> bool" where
  "test_stale_samples_are_evicted_after_the_window checked base \<longleftrightarrow>
     rate_within (rate_after checked [(base, 100, 0), (base + from_secs 6, 90, 10)] (brutal_new 1000000 base 1200)) (9 / 10)"

definition test_samples_in_the_same_second_accumulate :: "bool \<Rightarrow> nat \<Rightarrow> bool" where
  "test_samples_in_the_same_second_accumulate checked base \<longleftrightarrow>
     rate_within (rate_after checked [(base, 45, 0), (base, 5, 5)] (brutal_new 1000000 base 1200)) (50 / 55)"

definition test_mtu_update_changes_the_window_floor :: "nat \<Rightarrow> bool" where
  "test_mtu_update_changes_the_window_floor now \<longleftrightarrow>
     brutal_window f64 (on_mtu_update 1400 ((brutal_new 1 now 1200)\<lparr>rtt := 1000000\<rparr>)) = 1400"

lemmas brutal_eval = brutal_window_def congestion_window_def as_secs_f64_def u64_to_f64_def f64_to_u64_def
  CONGESTION_WINDOW_MULTIPLIER_def MIN_ACK_RATE_def INITIAL_WINDOW_def initial_window_def brutal_new_def
  test_sender_def on_mtu_update_def on_congestion_event_def div_ceil_def add_samples_def seconds_since_base_def
  update_ack_rate_def rate_of_def add_u64_def MIN_SAMPLE_COUNT_def PKT_INFO_SLOT_COUNT_def pkt_info_default_def
  index_at_def rate_after_def rate_within_def from_secs_def

lemma five_slots: "replicate 5 x = [x, x, x, x, x]"
  by (simp add: eval_nat_numeral)

text \<open>The roundings that occur: none of the quotients is exact.\<close>

lemma rounded:
  "f64 (1 / 10) = 3602879701896397 / 36028797018963968"
  "f64 (3602879701896397 / 36028797018963968) = 3602879701896397 / 36028797018963968"
  "f64 (56294995342131203125 / 562949953421312) = 100000"
  "f64 (4 / 5) = 3602879701896397 / 4503599627370496"
  "f64 (900719925474099200000 / 3602879701896397) = 250000"
  "f64 (1 / 1000) = 1152921504606847 / 1152921504606846976"
  "f64 (1152921504606847 / 1152921504606846976) = 1152921504606847 / 1152921504606846976"
  "f64 (1152921504606847 / 576460752303423488) = 1152921504606847 / 576460752303423488"
  "f64 (9 / 10) = 8106479329266893 / 9007199254740992"
  "f64 (10 / 11) = 8188362958855447 / 9007199254740992"
proof -
  show "f64 (1 / 10) = 3602879701896397 / 36028797018963968" by (subst f64_scaled [of _ 56]) (simp_all add: round_even_def Let_def)
  show "f64 (3602879701896397 / 36028797018963968) = 3602879701896397 / 36028797018963968" by (subst f64_scaled [of _ 56]) (simp_all add: round_even_def Let_def)
  show "f64 (56294995342131203125 / 562949953421312) = 100000" by (subst f64_scaled [of _ 36]) (simp_all add: round_even_def Let_def)
  show "f64 (4 / 5) = 3602879701896397 / 4503599627370496" by (subst f64_scaled [of _ 53]) (simp_all add: round_even_def Let_def)
  show "f64 (900719925474099200000 / 3602879701896397) = 250000" by (subst f64_scaled [of _ 35]) (simp_all add: round_even_def Let_def)
  show "f64 (1 / 1000) = 1152921504606847 / 1152921504606846976" by (subst f64_scaled [of _ 62]) (simp_all add: round_even_def Let_def)
  show "f64 (1152921504606847 / 1152921504606846976) = 1152921504606847 / 1152921504606846976" by (subst f64_scaled [of _ 62]) (simp_all add: round_even_def Let_def)
  show "f64 (1152921504606847 / 576460752303423488) = 1152921504606847 / 576460752303423488" by (subst f64_scaled [of _ 61]) (simp_all add: round_even_def Let_def)
  show "f64 (9 / 10) = 8106479329266893 / 9007199254740992" by (subst f64_scaled [of _ 53]) (simp_all add: round_even_def Let_def)
  show "f64 (10 / 11) = 8188362958855447 / 9007199254740992" by (subst f64_scaled [of _ 53]) (simp_all add: round_even_def Let_def)
qed

lemma window_tests:
  "test_window_before_any_rtt_is_the_initial_window now"
  "test_window_is_bandwidth_delay_product_times_multiplier now"
  "test_window_is_floored_at_one_datagram now"
  "test_a_lower_ack_rate_inflates_the_window now"
  "test_mtu_update_changes_the_window_floor now"
  by (simp_all add: test_window_before_any_rtt_is_the_initial_window_def
      test_window_is_bandwidth_delay_product_times_multiplier_def test_window_is_floored_at_one_datagram_def
      test_a_lower_ack_rate_inflates_the_window_def test_mtu_update_changes_the_window_floor_def brutal_eval Let_def rounded)

lemma ack_rate_tests:
  "test_ack_rate_stays_one_below_the_sample_threshold checked now"
  "test_ack_rate_tracks_the_loss_fraction checked now"
  "test_ack_rate_is_clamped_to_the_floor checked now"
  "test_on_congestion_event_translates_bytes_to_packets_and_clamps checked now"
  "test_ecn_only_event_records_nothing checked now"
  by (simp_all add: test_ack_rate_stays_one_below_the_sample_threshold_def
      test_ack_rate_tracks_the_loss_fraction_def test_ack_rate_is_clamped_to_the_floor_def
      test_on_congestion_event_translates_bytes_to_packets_and_clamps_def
      test_ecn_only_event_records_nothing_def brutal_eval Let_def five_slots rounded)

lemma sample_window_tests:
  "test_stale_samples_are_evicted_after_the_window checked now"
  "test_samples_in_the_same_second_accumulate checked now"
  by (simp_all add: test_stale_samples_are_evicted_after_the_window_def
      test_samples_in_the_same_second_accumulate_def brutal_eval Let_def five_slots rounded)

end
