(* ===== verification/DataplaneTests.thy ===== *)
theory DataplaneTests
  imports Relay FrontEnds LinkTests ClientTests
begin

text \<open>
  The unit tests of the UDP session manager, \<^verbatim>\<open>crates/hysteria/src/client/udp.rs\<close>, of the dataplane's
  session table and counting stream, \<^verbatim>\<open>crates/dataplane/src\<close>, and of the front ends' command lines,
  run on the model: one definition per test function, with a conjunct per assertion, and a lemma
  that it holds.
\<close>

section \<open>udp.rs\<close>

definition test_message :: "u32 \<Rightarrow> string \<Rightarrow> string \<Rightarrow> udp_message" where
  "test_message i a d =
     \<lparr>session_id = i, packet_id = 0, frag_id = 0, frag_count = 1, addr = a, data = as_bytes d\<rparr>"

text \<open>
  The manager's test, step by step. Its fake transport takes every message, so the connection here
  accepts every datagram, and what the test finds recorded is on the wire in serialized form.
\<close>

definition accepted_send :: "bool \<Rightarrow> rng \<Rightarrow> u32 \<Rightarrow> udp_message \<Rightarrow> (bytes \<times> bytes list \<times> (send_error + unit)) exec" where
  "accepted_send checked rng i m =
     conn_send checked (\<lambda>_. DatagramOk) None rng i (replicate MAX_UDP_SIZE 0) (data m) (addr m)"

definition sent_alone :: "(bytes \<times> bytes list \<times> (send_error + unit)) exec \<Rightarrow> bytes \<Rightarrow> bool" where
  "sent_alone e w \<longleftrightarrow> (case e of Ret (_, ds, r) \<Rightarrow> ds = [w] \<and> r = Inr () | Panic \<Rightarrow> False)"

definition test_udp_session_manager :: "bool \<Rightarrow> rng \<Rightarrow> bool" where
  "test_udp_session_manager checked rng \<longleftrightarrow>
     (let msg1 = test_message 1 ''random.site.com:9000'' ''hello friend'';
          msg2 = test_message 2 ''another.site.org:8000'' ''mr robot'';
          resp1 = test_message 1 (addr msg1) ''goodbye captain price'';
          resp2 = test_message 2 (addr msg2) ''white rose'';
          resp3 = test_message 55 ''burgerking.com:27017'' ''impossible whopper'' in
      case new_udp manager_new of
        (Inl _, _) \<Rightarrow> False
      | (Inr conn1, s) \<Rightarrow>
      (case new_udp s of
        (Inl _, _) \<Rightarrow> False
      | (Inr conn2, s) \<Rightarrow>
          sent_alone (accepted_send checked rng (conn_id (conns s ! conn1)) msg1) (udp_wire msg1) \<and>
          sent_alone (accepted_send checked rng (conn_id (conns s ! conn2)) msg2) (udp_wire msg2) \<and>
      (case receive checked conn1 (udp_step checked (RunPump resp1) s) of
        Panic \<Rightarrow> False
      | Ret (s, r1) \<Rightarrow>
          r1 = Got (data resp1) (addr resp1) \<and>
      (case receive checked conn2 (udp_step checked (RunPump resp2) s) of
        Panic \<Rightarrow> False
      | Ret (s, r2) \<Rightarrow>
          r2 = Got (data resp2) (addr resp2) \<and>
      (case receive checked conn1 (close_session conn1 (udp_step checked (RunPump resp3) s)) of
        Panic \<Rightarrow> False
      | Ret (s, r3) \<Rightarrow>
          r3 = Eof \<and>
      (case receive checked conn2 (udp_step checked RunEnd s) of
        Panic \<Rightarrow> False
      | Ret (s, r4) \<Rightarrow>
          r4 = Eof \<and> isl (fst (new_udp s)) \<and> session_count s = 0))))))"

lemma small_send:
  assumes "length (addr m) < 64" "length (data m) \<le> 1000" "whole_message i (data m) (addr m) = m"
  shows "sent_alone (accepted_send checked rng i m) (udp_wire m)"
proof -
  have a: "length (addr m) < 2 ^ 62" using assms(1) by simp
  have "varint_len (of_nat (length (addr m))) \<le> 8" by (simp add: varint_len_def)
  then have "udp_size m \<le> 4096" using assms by (simp add: udp_size_def header_size_def Let_def)
  then show ?thesis
    using length_udp_wire [OF a]
    by (simp add: accepted_send_def sent_alone_def conn_send_def assms(3) send_message_def serialize_wire [OF a] Let_def)
qed

lemma udp_session_manager: "test_udp_session_manager checked rng"
proof -
  have "sent_alone (accepted_send checked rng 1 (test_message 1 ''random.site.com:9000'' ''hello friend''))
      (udp_wire (test_message 1 ''random.site.com:9000'' ''hello friend''))"
    "sent_alone (accepted_send checked rng 2 (test_message 2 ''another.site.org:8000'' ''mr robot''))
      (udp_wire (test_message 2 ''another.site.org:8000'' ''mr robot''))"
    by (rule small_send; simp add: test_message_def as_bytes_def whole_message_def)+
  then show ?thesis
    by (simp add: test_udp_session_manager_def new_udp_def manager_new_def receive_def sender_alive_def
        feed_session_def UDP_MESSAGE_CHAN_SIZE_def feed_def close_session_def close_cleanup_def session_count_def
        test_message_def Let_def)
qed

section \<open>session.rs\<close>

text \<open>
  The fake upstream: creating one makes the next number; the datagrams handed to each are kept,
  and \<open>up\<close> tells whether its \<^verbatim>\<open>send\<close> succeeds.
\<close>

definition fake_create :: "(bytes \<times> string) list list \<Rightarrow> nat option \<times> (bytes \<times> string) list list" where
  "fake_create logs = (Some (length logs), logs @ [[]])"

definition fake_send ::
  "bool \<Rightarrow> nat \<Rightarrow> bytes \<Rightarrow> string \<Rightarrow> (bytes \<times> string) list list \<Rightarrow> bool \<times> (bytes \<times> string) list list" where
  "fake_send up k d a logs = (up, logs[k := logs ! k @ [(d, a)]])"

definition test_src :: socket_addr where "test_src = (V4 0x0a000002, 40000)"
definition test_dst :: socket_addr where "test_dst = (V4 0x01010101, 53)"

definition test_show :: "socket_addr \<Rightarrow> string" where
  "test_show a = (if a = test_dst then ''1.1.1.1:53'' else [])"

definition test_get_or_create_dedups_by_source :: "nat \<Rightarrow> bool" where
  "test_get_or_create_dedups_by_source now \<longleftrightarrow>
     (case get_or_create fake_create test_src now [] (sessions_new (2 ^ 64 - 1)) of
        (Some a, logs, s) \<Rightarrow>
          (case get_or_create fake_create test_src now logs s of
             (Some b, _, s) \<Rightarrow> a = b \<and> length (nat_map s) = 1
           | _ \<Rightarrow> False)
      | _ \<Rightarrow> False)"

definition test_reap_idle_drops_stale_sessions :: "nat \<Rightarrow> bool" where
  "test_reap_idle_drops_stale_sessions start \<longleftrightarrow>
     (case get_or_create fake_create test_src start [] (sessions_new (2 ^ 64 - 1)) of
        (Some _, _, s) \<Rightarrow>
          length (nat_map s) = 1 \<and>
          length (nat_map (reap_idle (start + from_secs 301) (from_secs (5 * 60)) s)) = 0
      | _ \<Rightarrow> False)"

definition test_forward_sends_datagram_and_reports_open :: "nat \<Rightarrow> bool" where
  "test_forward_sends_datagram_and_reports_open now \<longleftrightarrow>
     (let fwd = forward fake_create (fake_send True) test_show test_src test_dst in
      case fwd (as_bytes ''hi'') now [] (sessions_new (2 ^ 64 - 1)) of
        (o1, logs, s) \<Rightarrow>
          o1 = Sent True \<and>
          (case fwd (as_bytes ''yo'') now logs s of
             (o2, logs, s) \<Rightarrow>
               o2 = Sent False \<and>
               logs ! 0 = [(as_bytes ''hi'', ''1.1.1.1:53''), (as_bytes ''yo'', ''1.1.1.1:53'')]))"

definition test_open_is_reported_even_when_first_send_fails :: "nat \<Rightarrow> bool" where
  "test_open_is_reported_even_when_first_send_fails now \<longleftrightarrow>
     (let fwd = forward fake_create (fake_send False) test_show test_src test_dst in
      case fwd (as_bytes ''hi'') now [] (sessions_new (2 ^ 64 - 1)) of
        (o1, logs, s) \<Rightarrow>
          o1 = Dropped True \<and> length (nat_map s) = 1 \<and>
          fst (fwd (as_bytes ''yo'') now logs s) = Dropped False)"

definition test_refuses_new_source_when_session_table_is_full :: "nat \<Rightarrow> bool" where
  "test_refuses_new_source_when_session_table_is_full now \<longleftrightarrow>
     (case get_or_create fake_create (V4 0x0a000002, 40000) now [] (sessions_new 1) of
        (a, logs, s) \<Rightarrow>
          a \<noteq> None \<and>
          (case get_or_create fake_create (V4 0x0a000002, 40001) now logs s of
             (b, logs, s) \<Rightarrow>
               b = None \<and>
               (case get_or_create fake_create (V4 0x0a000002, 40000) now logs s of
                  (c, _, s) \<Rightarrow> c \<noteq> None \<and> length (nat_map s) = 1)))"

lemma session_tests:
  "test_get_or_create_dedups_by_source now"
  "test_reap_idle_drops_stale_sessions now"
  "test_forward_sends_datagram_and_reports_open now"
  "test_open_is_reported_even_when_first_send_fails now"
  "test_refuses_new_source_when_session_table_is_full now"
  by (simp_all add: test_get_or_create_dedups_by_source_def test_reap_idle_drops_stale_sessions_def
      test_forward_sends_datagram_and_reports_open_def test_open_is_reported_even_when_first_send_fails_def
      test_refuses_new_source_when_session_table_is_full_def get_or_create_def sessions_new_def fake_create_def
      fake_send_def forward_def reap_idle_def idle_keys_def from_secs_def test_src_def test_dst_def test_show_def Let_def)

section \<open>The command lines\<close>

text \<open>The resolver of the tests' server address, a literal.\<close>

definition resolves_ten :: "resolver \<Rightarrow> bool" where
  "resolves_ten resolve \<longleftrightarrow> (\<forall>p. resolve ''10.0.0.1'' p = Inr [(V4 0x0a000001, p)])"

definition test_build_config_rejects_non_link :: "resolver \<Rightarrow> bool" where
  "test_build_config_rejects_non_link resolve \<longleftrightarrow> isl (build_config sample_codec resolve ''https://example.com/'')"

definition test_cli_into_parts_parses_link ::
  "resolver \<Rightarrow> (string \<Rightarrow> string + bytes) \<Rightarrow> (bytes \<Rightarrow> string + bytes) \<Rightarrow> bool" where
  "test_cli_into_parts_parses_link resolve read_file from_pem \<longleftrightarrow>
     (case into_parts sample_codec resolve read_file from_pem
             \<lparr>socks5 = (V4 0x7f000001, 1080),
              cli_url = ''hysteria2://secret@10.0.0.1:443/?obfs=salamander&obfs-password=pw&sni=example.com'',
              cli_ca = None\<rparr> of
        Inl _ \<Rightarrow> False
      | Inr (listen, c) \<Rightarrow>
          listen = (V4 0x7f000001, 1080) \<and>
          server_addr c = (V4 0x0a000001, 443) \<and>
          config_auth c = ''secret'' \<and>
          server_name (config_tls c) = ''example.com'' \<and>
          ca (config_tls c) = None \<and>
          config_obfs c = Some (as_bytes ''pw''))"

definition test_cli_into_parts_rejects_non_link ::
  "resolver \<Rightarrow> (string \<Rightarrow> string + bytes) \<Rightarrow> (bytes \<Rightarrow> string + bytes) \<Rightarrow> bool" where
  "test_cli_into_parts_rejects_non_link resolve read_file from_pem \<longleftrightarrow>
     isl (into_parts sample_codec resolve read_file from_pem
       \<lparr>socks5 = (V4 0x7f000001, 1080), cli_url = ''https://example.com/'', cli_ca = None\<rparr>)"

lemma cli_links:
  "parse_uri sample_codec ''https://example.com/'' = None"
  "parse_uri sample_codec ''hysteria2://secret@10.0.0.1:443/?obfs=salamander&obfs-password=pw&sni=example.com'' =
     Some \<lparr>server = ''10.0.0.1:443'', auth = ''secret'', profile_tls = \<lparr>sni = ''example.com''\<rparr>,
       profile_obfs = Some \<lparr>obfs_type = ''salamander'', password = ''pw''\<rparr>, fast_open = False\<rparr>"
  "split_host_port ''10.0.0.1:443'' = (''10.0.0.1'', ''443'')"
  by code_simp+

lemma command_line_tests:
  "test_build_config_rejects_non_link resolve"
  "test_cli_into_parts_rejects_non_link resolve read_file from_pem"
  "resolves_ten resolve \<Longrightarrow> test_cli_into_parts_parses_link resolve read_file from_pem"
  by (simp_all add: test_build_config_rejects_non_link_def test_cli_into_parts_rejects_non_link_def
      test_cli_into_parts_parses_link_def into_parts_def build_config_def cli_links ok_or_else_def literal_profiles
      resolves_ten_def)

section \<open>count.rs\<close>

text \<open>
  The test's duplex: a stream that takes what is written and on which the far end's bytes wait.
\<close>

definition test_counts_reads_and_writes_once :: bool where
  "test_counts_reads_and_writes_once \<longleftrightarrow>
     (let near = \<lparr>tt_conn = \<lparr>tcp_recv = ReadyState [] 0, tcp_stream = [Chunk (as_bytes ''worldly'')]\<rparr>,
                  tt_sent = [], tt_finished = False\<rparr>;
          (c, w) = counting_poll_write (Wrote 5) (as_bytes ''hello'') (counting_new near counters_new)
      in w = Wrote 5 \<and> stats_tx (ct_stats c) = 5 \<and>
         (case counting_poll_read 7 c of
            Ret (c, ReadBytes b) \<Rightarrow> b = as_bytes ''worldly'' \<and> stats_rx (ct_stats c) = 7 \<and> stats_tx (ct_stats c) = 5
          | _ \<Rightarrow> False))"

lemma counts_reads_and_writes_once: test_counts_reads_and_writes_once
  by (simp add: test_counts_reads_and_writes_once_def counting_poll_write_def counting_new_def tcp_poll_write_def
      counting_write_def len_u64_def counters_new_def counting_poll_read_def tcp_poll_read_def poll_read_def
      poll_ready_def counting_read_def as_bytes_def)

end
