(* ===== verification/StoreTests.thy ===== *)
theory StoreTests
  imports Store "HOL-Library.Countable" "HOL-Library.Code_Target_Nat"
begin

text \<open>
  The unit tests of the profile store, \<^verbatim>\<open>crates/store/src/lib.rs\<close>, run on the model over the
  in-memory secure store and a file system that does not fail: one definition per test function,
  with a conjunct per assertion, and a lemma that it holds for every serializer that writes
  everything and reads back what it wrote, every drawn identifier and every time.
\<close>

definition json_works :: "json \<Rightarrow> bool" where
  "json_works json \<longleftrightarrow> json_ok json \<and>
     (\<forall>p. \<not> isl (profile_to_vec json p)) \<and> (\<forall>d. \<not> isl (doc_to_vec json d))"

text \<open>The tests' \<^verbatim>\<open>sample\<close>, and a store opened on a fresh path.\<close>

definition test_profile :: "string \<Rightarrow> string \<Rightarrow> profile" where
  "test_profile s a = profile_default\<lparr>server := s, auth := a\<rparr>"

abbreviation added where
  "added json i t st link nm \<equiv> add dev_ops json fs_ok i (Some t) st link nm"

definition test_add_then_list_and_load_round_trips :: "json \<Rightarrow> string \<Rightarrow> u64 \<Rightarrow> bool" where
  "test_add_then_list_and_load_round_trips json i t \<longleftrightarrow>
     (let link = test_profile ''example.com:443'' ''secret-token'' in
      case store_new json None None dev_new of
        Inl _ \<Rightarrow> False
      | Inr st \<Rightarrow>
          (case added json i t st link (Some ''Home'') of
             (Inl _, _) \<Rightarrow> False
           | (Inr e, st) \<Rightarrow>
               entry_name e = ''Home'' \<and>
               store_list st = [e] \<and>
               load dev_ops json st (entry_id e) = Inr (Some link)))"

definition test_name_falls_back_to_host :: "json \<Rightarrow> string \<Rightarrow> u64 \<Rightarrow> bool" where
  "test_name_falls_back_to_host json i t \<longleftrightarrow>
     (case store_new json None None dev_new of
        Inl _ \<Rightarrow> False
      | Inr st \<Rightarrow>
          (case added json i t st (test_profile ''vpn.example.com:7000-8000,9000'' []) None of
             (Inl _, _) \<Rightarrow> False
           | (Inr e, st) \<Rightarrow> entry_name e = ''vpn.example.com''))"

text \<open>The second, equal link draws no identifier; the third draws \<open>j\<close>.\<close>

definition test_add_is_idempotent_by_profile :: "json \<Rightarrow> string \<Rightarrow> string \<Rightarrow> string \<Rightarrow> u64 \<Rightarrow> bool" where
  "test_add_is_idempotent_by_profile json i i' j t \<longleftrightarrow>
     (let link = test_profile ''example.com:443'' ''tok'' in
      case store_new json None None dev_new of
        Inl _ \<Rightarrow> False
      | Inr st \<Rightarrow>
          (case added json i t st link (Some ''A'') of
             (Inl _, _) \<Rightarrow> False
           | (Inr first, st) \<Rightarrow>
               (case added json i' t st link (Some ''B'') of
                  (Inl _, _) \<Rightarrow> False
                | (Inr second, st) \<Rightarrow>
                    first = second \<and> length (store_list st) = 1 \<and>
                    (case added json j t st (test_profile ''example.com:443'' ''other'') None of
                       (Inl _, _) \<Rightarrow> False
                     | (Inr _, st) \<Rightarrow> length (store_list st) = 2))))"

definition test_delete_removes_metadata_and_secret :: "json \<Rightarrow> string \<Rightarrow> u64 \<Rightarrow> bool" where
  "test_delete_removes_metadata_and_secret json i t \<longleftrightarrow>
     (case store_new json None None dev_new of
        Inl _ \<Rightarrow> False
      | Inr st \<Rightarrow>
          (case added json i t st (test_profile ''example.com:443'' ''tok'') None of
             (Inl _, _) \<Rightarrow> False
           | (Inr e, st) \<Rightarrow>
               (case delete dev_ops json fs_ok st (entry_id e) of
                  (r, st) \<Rightarrow>
                    r = Inr True \<and> store_list st = [] \<and> load dev_ops json st (entry_id e) = Inr None \<and>
                    fst (delete dev_ops json fs_ok st (entry_id e)) = Inr False)))"

definition test_rename_changes_only_the_name_not_the_secret :: "json \<Rightarrow> string \<Rightarrow> u64 \<Rightarrow> bool" where
  "test_rename_changes_only_the_name_not_the_secret json i t \<longleftrightarrow>
     (let link = test_profile ''example.com:443'' ''tok'' in
      case store_new json None None dev_new of
        Inl _ \<Rightarrow> False
      | Inr st \<Rightarrow>
          (case added json i t st link (Some ''Home'') of
             (Inl _, _) \<Rightarrow> False
           | (Inr e, st) \<Rightarrow>
               (case rename dev_ops json fs_ok st (entry_id e) ''Work'' of
                  (r, st) \<Rightarrow>
                    r = Inr True \<and>
                    entry_name (store_list st ! 0) = ''Work'' \<and>
                    entry_id (store_list st ! 0) = entry_id e \<and>
                    created_at (store_list st ! 0) = created_at e \<and>
                    load dev_ops json st (entry_id e) = Inr (Some link) \<and>
                    (case rename dev_ops json fs_ok st (entry_id e) ''   '' of
                       (r, st) \<Rightarrow>
                         r = Inr True \<and>
                         entry_name (store_list st ! 0) = ''example.com'' \<and>
                         fst (rename dev_ops json fs_ok st ''no-such-id'' ''X'') = Inr False))))"

definition test_metadata_persists_across_reopen :: "json \<Rightarrow> string \<Rightarrow> u64 \<Rightarrow> bool" where
  "test_metadata_persists_across_reopen json i t \<longleftrightarrow>
     (case store_new json None None dev_new of
        Inl _ \<Rightarrow> False
      | Inr st \<Rightarrow>
          (case added json i t st (test_profile ''example.com:443'' ''tok'') (Some ''Home'') of
             (Inl _, _) \<Rightarrow> False
           | (Inr e, st) \<Rightarrow>
               (case store_new json None (doc_file st) (secure st) of
                  Inl _ \<Rightarrow> False
                | Inr reopened \<Rightarrow>
                    store_list reopened = [e] \<and>
                    (case load dev_ops json reopened (entry_id e) of
                       Inr (Some p) \<Rightarrow> auth p = ''tok''
                     | _ \<Rightarrow> False))))"

text \<open>The document \<^verbatim>\<open>{"schema_version":999,"entries":[]}\<close> on disk, as the serializer reads it.\<close>

definition test_newer_schema_is_refused :: "json \<Rightarrow> bytes \<Rightarrow> bool" where
  "test_newer_schema_is_refused json file \<longleftrightarrow>
     (doc_from_slice json file = Inr \<lparr>schema_version = 999, doc_entries = []\<rparr> \<longrightarrow>
      store_new json None (Some file) dev_new = Inl (UnsupportedSchema 999))"

text \<open>\<^verbatim>\<open>FailDeleteStore\<close>: the in-memory store whose \<^verbatim>\<open>delete\<close> always fails.\<close>

definition fail_delete_ops :: "dev_secure_store secure_ops" where
  "fail_delete_ops =
     \<lparr>ss_get = dev_get, ss_set = dev_set, ss_delete = \<lambda>d _. (Inl \<lparr>secure_message = ''backend offline''\<rparr>, d)\<rparr>"

definition test_delete_succeeds_when_secret_removal_fails :: "json \<Rightarrow> string \<Rightarrow> u64 \<Rightarrow> bool" where
  "test_delete_succeeds_when_secret_removal_fails json i t \<longleftrightarrow>
     (case store_new json None None dev_new of
        Inl _ \<Rightarrow> False
      | Inr st \<Rightarrow>
          (case add fail_delete_ops json fs_ok i (Some t) st (test_profile ''example.com:443'' ''tok'') (Some ''Home'') of
             (Inl _, _) \<Rightarrow> False
           | (Inr e, st) \<Rightarrow>
               (case delete fail_delete_ops json fs_ok st (entry_id e) of
                  (r, st) \<Rightarrow> r = Inr True \<and> store_list st = [])))"

section \<open>The tests pass\<close>

lemma test_strings:
  "str_trim ''Home'' = ''Home''" "str_trim ''Work'' = ''Work''" "str_trim ''A'' = ''A''" "str_trim ''B'' = ''B''"
  "str_trim ''   '' = []" "host_of ''example.com:443'' = ''example.com''"
  "host_of ''vpn.example.com:7000-8000,9000'' = ''vpn.example.com''"
  by code_simp+

lemmas store_eval = store_new_def read_entries_def io_check_def add_def find_matching_def load_def persist_def
  persist_bytes_def secure_err_def serde_err_def dev_ops_def dev_get_def dev_set_def dev_delete_def dev_lock_def
  dev_new_def fs_ok_def store_list_def test_profile_def profile_default_def delete_def rename_def vec_remove_def
  fail_delete_ops_def SCHEMA_VERSION_def test_strings

lemma json_worksE:
  assumes "json_works json"
  obtains pv dv where "\<And>p. profile_to_vec json p = Inr (pv p)" "\<And>p. profile_from_slice json (pv p) = Inr p"
    "\<And>d. doc_to_vec json d = Inr (dv d)" "\<And>d. doc_from_slice json (dv d) = Inr d"
proof -
  have "\<forall>p. \<exists>bs. profile_to_vec json p = Inr bs" "\<forall>d. \<exists>bs. doc_to_vec json d = Inr bs"
    using assms by (metis json_works_def sum.collapse(2))+
  then obtain pv dv where "\<And>p. profile_to_vec json p = Inr (pv p)" "\<And>d. doc_to_vec json d = Inr (dv d)" by metis
  with assms that show ?thesis by (simp add: json_works_def json_ok_def)
qed

text \<open>Such serializers exist: profiles and documents are countable.\<close>

lemma writable:
  fixes f :: "'a \<Rightarrow> 'b::countable"
  assumes "inj f"
  shows "\<exists>(w :: 'a \<Rightarrow> bytes) r. \<forall>x. r (w x) = x"
  using assms by (intro exI [of _ "\<lambda>x. replicate (to_nat (f x)) 0"] exI [of _ "\<lambda>b. inv f (from_nat (length b))"]) simp

lemma json_works_exists: "\<exists>json. json_works json"
proof -
  have "inj (\<lambda>p :: profile. (server p, auth p, sni (profile_tls p),
      map_option (\<lambda>x. (obfs_type x, password x)) (profile_obfs p), fast_open p))"
    by (rule injI) (auto simp: map_option_case split: option.splits)
  from writable [OF this] obtain pw :: "profile \<Rightarrow> bytes" and pr where p: "\<And>x. pr (pw x) = x" by blast
  have "inj (\<lambda>d :: document. (schema_version d, map (\<lambda>e. (entry_id e, entry_name e, created_at e)) (doc_entries d)))"
    by (rule injI) (auto dest!: map_injective intro!: injI)
  from writable [OF this] obtain dw :: "document \<Rightarrow> bytes" and dr where d: "\<And>x. dr (dw x) = x" by blast
  show ?thesis
    by (intro exI [of _ "\<lparr>doc_to_vec = Inr \<circ> dw, doc_from_slice = Inr \<circ> dr,
        profile_to_vec = Inr \<circ> pw, profile_from_slice = Inr \<circ> pr\<rparr>"]) (simp add: json_works_def json_ok_def p d)
qed

lemma store_tests:
  assumes "json_works json"
  shows "test_add_then_list_and_load_round_trips json i t"
    "test_name_falls_back_to_host json i t"
    "test_delete_removes_metadata_and_secret json i t"
    "i \<noteq> ''no-such-id'' \<Longrightarrow> test_rename_changes_only_the_name_not_the_secret json i t"
    "test_metadata_persists_across_reopen json i t"
    "test_delete_succeeds_when_secret_removal_fails json i t"
  using assms
  by (auto elim!: json_worksE simp: test_add_then_list_and_load_round_trips_def test_name_falls_back_to_host_def
      test_delete_removes_metadata_and_secret_def test_rename_changes_only_the_name_not_the_secret_def
      test_metadata_persists_across_reopen_def test_delete_succeeds_when_secret_removal_fails_def
      store_eval Let_def)

lemma add_is_idempotent_by_profile:
  assumes "json_works json" "i \<noteq> j"
  shows "test_add_is_idempotent_by_profile json i i' j t"
  using assms
  by (auto elim!: json_worksE simp: test_add_is_idempotent_by_profile_def store_eval Let_def)

lemma newer_schema_is_refused: "test_newer_schema_is_refused json file"
  by (simp add: test_newer_schema_is_refused_def store_eval)

end
