(* ===== verification/ModelTests.thy ===== *)
theory ModelTests
  imports StoreTests LinkTests FfiApp
begin

text \<open>
  The unit tests of the model actor, \<^verbatim>\<open>crates/model/src/lib.rs\<close>, and of the facade over it,
  \<^verbatim>\<open>crates/ffi-app/src/lib.rs\<close>, run on the model: one definition per test function, with a conjunct
  per assertion, and a lemma that it holds for every working serializer, every drawn identifier
  and every time. What a test reads from its channels are the outputs of the actor.
\<close>

section \<open>The model's harness\<close>

definition LINK :: string where
  "LINK = ''hysteria2://token@example.com:443/?sni=example.com#Home''"

definition link_profile :: profile where
  "link_profile = profile_default\<lparr>server := ''example.com:443'', auth := ''token'', profile_tls := \<lparr>sni = ''example.com''\<rparr>\<rparr>"

definition test_env :: "string \<Rightarrow> u64 \<Rightarrow> call_env" where
  "test_env i t = \<lparr>env_io = fs_ok, env_uuid = i, env_now = Some t\<rparr>"

text \<open>Everything a fresh model lets out while it works through the commands sent.\<close>

definition harness :: "json \<Rightarrow> call_env \<Rightarrow> command list \<Rightarrow> actor_out list" where
  "harness json env cmds =
     (case store_new json None None dev_new of
        Inl _ \<Rightarrow> []
      | Inr st \<Rightarrow>
          let ((_, w), out) = model_new st
          in out @ snd (run_actor dev_ops json sample_codec (map (Pair env) cmds) w))"

fun snapshots :: "actor_out list \<Rightarrow> snapshot list" where
  "snapshots [] = []"
| "snapshots (OnState s # outs) = s # snapshots outs"
| "snapshots (_ # outs) = snapshots outs"

text \<open>The spy on the tunnel control.\<close>

fun tunnel_calls :: "actor_out list \<Rightarrow> string list" where
  "tunnel_calls [] = []"
| "tunnel_calls (TunnelStart i # outs) = (''start:'' @ i) # tunnel_calls outs"
| "tunnel_calls (TunnelStop # outs) = ''stop'' # tunnel_calls outs"
| "tunnel_calls (_ # outs) = tunnel_calls outs"

section \<open>The model's tests\<close>

definition test_emits_initial_empty_snapshot :: "json \<Rightarrow> call_env \<Rightarrow> bool" where
  "test_emits_initial_empty_snapshot json env \<longleftrightarrow>
     (case snapshots (harness json env []) of
        [s] \<Rightarrow> snap_schema_version s = SNAPSHOT_SCHEMA_VERSION \<and> snap_profiles s = [] \<and>
          snap_connection s = Disconnected
      | _ \<Rightarrow> False)"

definition test_add_parses_link_names_it_and_selects_it :: "json \<Rightarrow> call_env \<Rightarrow> bool" where
  "test_add_parses_link_names_it_and_selects_it json env \<longleftrightarrow>
     (case snapshots (harness json env (model_send (AddProfileFromUri LINK) [])) of
        [_, s] \<Rightarrow>
          (case snap_profiles s of
             [e] \<Rightarrow> entry_name e = ''Home'' \<and> snap_selected_id s = Some (entry_id e) \<and> snap_last_error s = None
           | _ \<Rightarrow> False)
      | _ \<Rightarrow> False)"

definition test_add_rejects_a_non_link_with_a_sentence :: "json \<Rightarrow> call_env \<Rightarrow> bool" where
  "test_add_rejects_a_non_link_with_a_sentence json env \<longleftrightarrow>
     (case snapshots (harness json env (model_send (AddProfileFromUri ''not a link'') [])) of
        [_, s] \<Rightarrow> snap_profiles s = [] \<and> snap_last_error s \<noteq> None
      | _ \<Rightarrow> False)"

text \<open>Where a test reads the identifier of the added profile off a snapshot, it is the one drawn.\<close>

definition test_model_rename_changes_only_the_name :: "json \<Rightarrow> call_env \<Rightarrow> bool" where
  "test_model_rename_changes_only_the_name json env \<longleftrightarrow>
     (case snapshots (harness json env
             (model_send (RenameProfile (env_uuid env) ''Work'') (model_send (AddProfileFromUri LINK) []))) of
        [_, s1, s] \<Rightarrow>
          (case (snap_profiles s1, snap_profiles s) of
             ([e], [e']) \<Rightarrow> entry_id e = env_uuid env \<and> entry_name e' = ''Work'' \<and> entry_id e' = entry_id e
           | _ \<Rightarrow> False)
      | _ \<Rightarrow> False)"

definition test_delete_removes_and_clears_selection :: "json \<Rightarrow> call_env \<Rightarrow> bool" where
  "test_delete_removes_and_clears_selection json env \<longleftrightarrow>
     (case snapshots (harness json env
             (model_send (DeleteProfile (env_uuid env)) (model_send (AddProfileFromUri LINK) []))) of
        [_, _, s] \<Rightarrow> snap_profiles s = [] \<and> snap_selected_id s = None
      | _ \<Rightarrow> False)"

definition test_connect_asks_os_but_state_stays_until_os_reports :: "json \<Rightarrow> call_env \<Rightarrow> bool" where
  "test_connect_asks_os_but_state_stays_until_os_reports json env \<longleftrightarrow>
     (let outs = harness json env
            (on_os_status Connected None (model_send Connect (model_send (AddProfileFromUri LINK) [])))
      in (case snapshots outs of
            [_, _, s, s'] \<Rightarrow> snap_connection s = Disconnected \<and> snap_connection s' = Connected
          | _ \<Rightarrow> False) \<and>
         tunnel_calls outs = [''start:'' @ env_uuid env])"

definition test_connect_without_selection_errors :: "json \<Rightarrow> call_env \<Rightarrow> bool" where
  "test_connect_without_selection_errors json env \<longleftrightarrow>
     (let outs = harness json env (model_send Connect [])
      in (case snapshots outs of
            [_, s] \<Rightarrow> snap_last_error s \<noteq> None
          | _ \<Rightarrow> False) \<and>
         tunnel_calls outs = [])"

definition test_os_failure_sets_an_error_sentence :: "json \<Rightarrow> call_env \<Rightarrow> bool" where
  "test_os_failure_sets_an_error_sentence json env \<longleftrightarrow>
     (case snapshots (harness json env (on_os_status Disconnected (Some AuthFailed) [])) of
        [_, s] \<Rightarrow> snap_last_error s = Some ''Authentication failed. Check the profile's credentials.''
      | _ \<Rightarrow> False)"

definition test_stats_go_to_their_own_channel_not_a_snapshot :: "json \<Rightarrow> call_env \<Rightarrow> bool" where
  "test_stats_go_to_their_own_channel_not_a_snapshot json env \<longleftrightarrow>
     (let outs = harness json env (on_stats \<lparr>tx_bytes = 10, rx_bytes = 20\<rparr> [])
      in OnStats \<lparr>tx_bytes = 10, rx_bytes = 20\<rparr> \<in> set outs \<and> length (snapshots outs) = 1)"

text \<open>The texts in the \<^verbatim>\<open>Debug\<close> form of a snapshot.\<close>

definition snapshot_texts :: "snapshot \<Rightarrow> string list" where
  "snapshot_texts s =
     concat (map (\<lambda>e. [entry_id e, entry_name e]) (snap_profiles s)) @
     (case snap_selected_id s of Some i \<Rightarrow> [i] | None \<Rightarrow> []) @
     (case snap_last_error s of Some m \<Rightarrow> [m] | None \<Rightarrow> [])"

definition test_export_reencodes_link_with_name_and_is_secret_free_in_snapshots :: "json \<Rightarrow> call_env \<Rightarrow> bool" where
  "test_export_reencodes_link_with_name_and_is_secret_free_in_snapshots json env \<longleftrightarrow>
     (case harness json env (export_profile_uri (env_uuid env) (model_send (AddProfileFromUri LINK) [])) of
        [_, OnState s, Reply (Inr (Some bs))] \<Rightarrow>
          (case from_utf8 bs of
             Some uri \<Rightarrow> strip_prefix ''hysteria2://'' uri \<noteq> None \<and> str_contains uri ''#Home''
           | None \<Rightarrow> False) \<and>
          list_all (\<lambda>x. \<not> str_contains x ''token'') (snapshot_texts s)
      | _ \<Rightarrow> False)"

section \<open>The model passes them\<close>

lemma link_parses:
  "parse_uri sample_codec LINK = Some link_profile" "name_from_uri sample_codec LINK = Some ''Home''"
  "parse_uri sample_codec ''not a link'' = None"
  by code_simp+

lemma link_prints:
  "to_uri_with_name sample_codec link_profile (Some ''Home'') = LINK"
  "from_utf8 (as_bytes LINK) = Some LINK" "strip_prefix ''hysteria2://'' LINK \<noteq> None" "str_contains LINK ''#Home''"
  "\<not> str_contains ''Home'' ''token''"
  by code_simp+

lemmas model_eval = harness_def model_new_def actor_start_def state_default_def state_snapshot_def
  SNAPSHOT_SCHEMA_VERSION_def model_send_def on_os_status_def on_stats_def export_profile_uri_def export_def
  test_env_def link_parses link_prints

lemma model_tests_without_profile:
  "test_emits_initial_empty_snapshot json (test_env i t)"
  "test_add_rejects_a_non_link_with_a_sentence json (test_env i t)"
  "test_connect_without_selection_errors json (test_env i t)"
  "test_os_failure_sets_an_error_sentence json (test_env i t)"
  "test_stats_go_to_their_own_channel_not_a_snapshot json (test_env i t)"
  by (simp_all add: test_emits_initial_empty_snapshot_def test_add_rejects_a_non_link_with_a_sentence_def
      test_connect_without_selection_errors_def test_os_failure_sets_an_error_sentence_def
      test_stats_go_to_their_own_channel_not_a_snapshot_def model_eval store_eval Let_def)

lemma model_tests_with_profile:
  assumes "json_works json"
  shows "test_add_parses_link_names_it_and_selects_it json (test_env i t)"
    "test_model_rename_changes_only_the_name json (test_env i t)"
    "test_delete_removes_and_clears_selection json (test_env i t)"
    "test_connect_asks_os_but_state_stays_until_os_reports json (test_env i t)"
    "\<not> str_contains i ''token'' \<Longrightarrow>
       test_export_reencodes_link_with_name_and_is_secret_free_in_snapshots json (test_env i t)"
  using assms
  by (auto elim!: json_worksE simp: test_add_parses_link_names_it_and_selects_it_def
      test_model_rename_changes_only_the_name_def test_delete_removes_and_clears_selection_def
      test_connect_asks_os_but_state_stays_until_os_reports_def 
      test_export_reencodes_link_with_name_and_is_secret_free_in_snapshots_def snapshot_texts_def model_eval store_eval Let_def)

section \<open>The facade's tests\<close>

text \<open>Every call is worked off by the actor before the test goes on.\<close>

definition app_harness ::
  "(io_error \<Rightarrow> string) \<Rightarrow> json \<Rightarrow> call_env \<Rightarrow> 'o app_call list \<Rightarrow> 'o foreign_out list" where
  "app_harness dio json env calls =
     (case app_new dio json None None Map.empty of
        Inl _ \<Rightarrow> []
      | Inr (a, out) \<Rightarrow>
          out @ snd (app_run (secure_adapter mem_store) json sample_codec dio
            (concat (map (\<lambda>c. [AppCall c, ActorTurn env]) calls)) a))"

definition test_add_then_export_round_trips_through_the_ffi_surface ::
  "(io_error \<Rightarrow> string) \<Rightarrow> json \<Rightarrow> call_env \<Rightarrow> bool" where
  "test_add_then_export_round_trips_through_the_ffi_surface dio json env \<longleftrightarrow>
     (case app_harness dio json env [CallAdd LINK, CallExport (env_uuid env) :: unit app_call] of
        [ForeignState s0, ForeignState s, ExportReply (Inr (Some bs))] \<Rightarrow>
          as_profiles s0 = [] \<and> as_schema_version s0 = SNAPSHOT_SCHEMA_VERSION \<and>
          (case as_profiles s of [e] \<Rightarrow> pe_id e = env_uuid env \<and> pe_name e = ''Home'' | _ \<Rightarrow> False) \<and>
          (case from_utf8 bs of Some uri \<Rightarrow> str_contains uri ''#Home'' | None \<Rightarrow> False)
      | _ \<Rightarrow> False)"

definition test_os_status_drives_connection_state :: "(io_error \<Rightarrow> string) \<Rightarrow> json \<Rightarrow> call_env \<Rightarrow> bool" where
  "test_os_status_drives_connection_state dio json env \<longleftrightarrow>
     (case app_harness dio json env [CallOsStatus AppConnected None :: unit app_call] of
        [_, ForeignState s] \<Rightarrow> as_connection s = AppConnected
      | _ \<Rightarrow> False)"

definition test_subscribed_stats_reach_the_foreign_observer ::
  "(io_error \<Rightarrow> string) \<Rightarrow> json \<Rightarrow> call_env \<Rightarrow> bool" where
  "test_subscribed_stats_reach_the_foreign_observer dio json env \<longleftrightarrow>
     (case app_harness dio json env [CallSubscribe (), CallStats \<lparr>as_tx_bytes = 10, as_rx_bytes = 20\<rparr>] of
        [_, ForeignStats ob st] \<Rightarrow> as_tx_bytes st = 10 \<and> as_rx_bytes st = 20
      | _ \<Rightarrow> False)"

lemmas app_eval = app_harness_def app_new_def perform_call_def actor_turn_def to_app_snapshot_def
  to_profile_entry_def to_app_stats_def of_app_stats_def secure_adapter_def adapt_result_def mem_store_def
  mem_get_def mem_set_def mem_delete_def

lemma facade_tests:
  "test_os_status_drives_connection_state dio json (test_env i t)"
  "test_subscribed_stats_reach_the_foreign_observer dio json (test_env i t)"
  by (simp_all add: test_os_status_drives_connection_state_def
      test_subscribed_stats_reach_the_foreign_observer_def app_eval model_eval store_eval Let_def)

lemma add_then_export_round_trips_through_the_ffi_surface:
  assumes "json_works json"
  shows "test_add_then_export_round_trips_through_the_ffi_surface dio json (test_env i t)"
  using assms
  by (auto elim!: json_worksE simp: test_add_then_export_round_trips_through_the_ffi_surface_def app_eval model_eval
      store_eval Let_def)

end
