(* ===== verification/Spec2Isabelle.thy ===== *)
theory Spec2Isabelle
  imports Frag Brutal FrontEnds Relay Uplink SendLock ModelActor FfiApp StrTypes
    WireTests ProtocolTests ClientTests DataplaneTests ModelTests
begin

text \<open>
  Verification of the Hysteria 2 client and its app core (the crates under \<^verbatim>\<open>src/crates\<close>).

  \<^bold>\<open>The program.\<close> A share link (\<^verbatim>\<open>config\<close>) is parsed into a profile (\<^verbatim>\<open>profile\<close>), which the profile
  store (\<^verbatim>\<open>store\<close>) keeps: metadata in a document on disk, the link in a secure store. The model actor
  (\<^verbatim>\<open>model\<close>) serialises user intents, OS status and queries over that store. On connecting, the client
  (\<^verbatim>\<open>hysteria\<close>) turns a profile into a configuration, opens a QUIC endpoint through optional
  obfuscation and port hopping, authenticates over HTTP/3, and then relays TCP streams and UDP
  datagrams; the latter are fragmented and multiplexed over sessions. The dataplane (\<^verbatim>\<open>dataplane\<close>)
  accepts flows from the user-space network stack (\<^verbatim>\<open>netstack\<close>) and feeds them to the client. Two
  front ends, \<^verbatim>\<open>transport-tun\<close> and \<^verbatim>\<open>transport-socks5\<close>, run this from a command line; the app reaches
  the actor through a foreign function interface (\<^verbatim>\<open>ffi-app\<close>).

  \<^bold>\<open>The theories\<close>, in the order of their imports:

  \<^item> \<open>Prelude\<close>: widths, byte and string helpers, UTF-8, Rust's panics as \<open>exec\<close> and its errors as
    sums, the random source as a parameter, the locales \<open>event_system\<close> and \<open>traced_system\<close> (an
    invariant kept by every step holds after every run, and every output is good).
  \<^item> \<open>Varint\<close>, \<open>Proxy\<close>: \<^verbatim>\<open>internal/protocol\<close>. The locale \<open>prefix_codec\<close> states what a self-delimiting
    format promises (decode after encode, every strict prefix waits) and is interpreted on varints
    and on TCP responses.
  \<^item> \<open>Frag\<close>: \<^verbatim>\<open>internal/frag.rs\<close>, fragmentation and reassembly, with the \<open>u8\<close> arithmetic of both build
    profiles (\<open>checked\<close> is a build with overflow checks).
  \<^item> \<open>PortUnion\<close>, \<open>Obfs\<close>, \<open>Errors\<close>, \<open>Profile\<close>, \<open>ClientConfig\<close>: the modules of those names.
  \<^item> \<open>Sockets\<close>: \<^verbatim>\<open>client/obfs_socket.rs\<close> and \<^verbatim>\<open>client/hop_socket.rs\<close>. The locale \<open>datagram_layer\<close> is a
    layer that delivers what it carries, \<open>layer_stack\<close> the composition of two.
  \<^item> \<open>AuthHeader\<close>: \<^verbatim>\<open>internal/protocol/http.rs\<close> over the locale \<open>header\<close>, a container that keeps what is
    stored.
  \<^item> \<open>UdpSession\<close>: \<^verbatim>\<open>client/udp.rs\<close>; its operations are steps of an event system.
  \<^item> \<open>Tls\<close>, \<open>Transport\<close>: \<^verbatim>\<open>client/tls.rs\<close> and \<^verbatim>\<open>client/transport.rs\<close>.
  \<^item> \<open>Brutal\<close>: \<^verbatim>\<open>internal/congestion/brutal.rs\<close>, the congestion controller. \<open>Float64\<close>: IEEE rounding to 53 bits,
    shown to satisfy the laws assumed of the rounding.
  \<^item> \<open>Dataplane\<close>: \<^verbatim>\<open>crates/dataplane\<close>, an event system.
  \<^item> \<open>Netstack\<close>: \<^verbatim>\<open>crates/netstack\<close>, the pumps and the reply writer, an event system.
  \<^item> \<open>Tunnel\<close>: \<^verbatim>\<open>dataplane::spawn\<close> and its handle over the network stack, an event system that composes
    the two.
  \<^item> \<open>Relay\<close>: \<^verbatim>\<open>relay_tcp\<close> and the counting stream of \<^verbatim>\<open>dataplane/src/count.rs\<close>; \<^verbatim>\<open>copy_bidirectional\<close> is any
    schedule of its reads and writes.
  \<^item> \<open>Upstream\<close>: the client as the upstream of the UDP sessions (\<^verbatim>\<open>dataplane/src/session.rs\<close>) and the
    reply tasks, composed with the tunnel and the session manager into one event system.
  \<^item> \<open>Uplink\<close>: the invariant of that system, and its properties.
  \<^item> \<open>SendLock\<close>: concurrent \<^verbatim>\<open>UdpConn::send\<close> calls on one session as an inductive step relation over the lock,
    the shared scratch buffer and the wire, finer than the atomic calls of the other theories.
  \<^item> \<open>UrlCodec\<close>, \<open>Uri\<close>: \<^verbatim>\<open>crates/config\<close>, over the laws of the two encoding crates.
  \<^item> \<open>Store\<close>: \<^verbatim>\<open>crates/store\<close>, over the locale \<open>secure_store\<close>, interpreted on \<^verbatim>\<open>DevSecureStore\<close>.
  \<^item> \<open>FrontEnds\<close>: \<^verbatim>\<open>crates/transport-tun\<close> and \<^verbatim>\<open>crates/transport-socks5\<close>.
  \<^item> \<open>ModelActor\<close>: \<^verbatim>\<open>crates/model\<close>, a traced system.
  \<^item> \<open>FfiApp\<close>: \<^verbatim>\<open>crates/ffi-app\<close>; its locale \<open>foreign_store\<close> is a sublocale of \<open>secure_store\<close>.
  \<^item> \<open>StrTypes\<close>: UTF-8 validity of every string, from links and files to what the actor shows.
  \<^item> \<open>WireTests\<close>, \<open>ProtocolTests\<close>, \<open>ClientTests\<close>, \<open>LinkTests\<close>, \<open>DataplaneTests\<close>, \<open>StoreTests\<close>, \<open>ModelTests\<close>: the unit
    tests of the crates, transcribed with their tables and run on the model. They tie the
    definitions to values that the code is known to produce.

  \<^bold>\<open>How state and effects are modelled.\<close> A struct is a record and an enum a datatype. A fallible call
  returns a sum with the error on the left; a call that can panic returns in \<open>exec\<close>. Methods that
  mutate take and return the record. Mutexes and the actor's channel make operations atomic, so
  concurrency is the order of the events of a run, over which the theorems quantify; for the sends on
  one session, the only calls that hold a lock over several outside calls, the atomicity itself is a theorem. What a call
  into another crate or the operating system returned is an argument; its documented laws, where a
  theorem needs any, are the assumptions \<open>codec_ok\<close>, \<open>codec_typed\<close>, \<open>json_ok\<close>, \<open>json_typed\<close>, \<open>rng_ok\<close>, \<open>f64_ok\<close>,
  \<open>secure_store\<close>, \<open>foreign_store\<close> and \<open>header\<close>, each shown to be satisfiable. Waiting on a stream is the end of its list of events.

  \<^bold>\<open>What the theorems show.\<close> The wire formats round-trip and reject everything else; any order and
  repetition of fragments reassembles exactly the message, and arbitrary input never assembles
  anything else; the socket layers deliver each datagram; a proxied stream is transparent for every
  chunking and with or without fast open, and so is a relayed flow in both directions; sessions are isolated and bounded, and their task refines
  the event system; concurrent sends on a session are linearizable and always complete; connecting fails only for the stated reasons and otherwise sets up what was
  configured, and the wait for a dial's answer ends; the congestion controller keeps a true sliding
  window and its window stays near the exact product; the dataplane keeps its caps and its counts,
  replies reach the app that asked, UDP flows of different apps stay apart from the app to the wire
  and back, no session is leaked, an exchange works, and a tunnel told to stop stops; a SOCKS5 association serves its
  first client only, and a front end trusts what its command line says; links round-trip; the store in memory
  agrees with the disk after any failures; the actor's snapshots are consistent, an imported
  link can be shared again, the foreign interface refines the actor, and no string is ever cut inside
  a character.

  \<^bold>\<open>Bounds and termination.\<close> Every definition is total. Loops over a stream or a list of datagrams
  end because each turn consumes input, which their termination proofs show; no definition uses
  fuel. Integers keep their width where the code can wrap or overflow (varints, ports, fragment
  counters, session ids, counters); lengths are natural numbers.

  \<^bold>\<open>Not modelled.\<close> quinn, h3, rustls, tokio, netstack-smoltcp, tun-rs, fast-socks5, serde and the encoding,
  hashing and random-number crates are parameters. The \<^verbatim>\<open>f64\<close> arithmetic of the congestion controller is that of
  the reals followed by a rounding that is a parameter, in its tests the IEEE rounding; subnormal and overflowing results are left out. The pollers of the sockets, flushing, logging, the printing of the front ends, derived serialisation and the unit tests of it, the parsing of command lines by clap, and the binding generators
  (\<^verbatim>\<open>uniffi-bindgen\<close> and the UniFFI scaffolding) have no logic of their own. The integration tests
  run against the reference server and are not modelled.
\<close>

section \<open>Importing and sharing a link\<close>

text \<open>The link of an exported profile, with the name of its entry.\<close>

lemma export_link:
  assumes "export ops json u st s i = Inr (Some b)"
  obtains p where "load ops json st i = Inr (Some p)"
    "b = as_bytes (to_uri_with_name u p (map_option entry_name (find (\<lambda>e. entry_id e = i) (state_entries s))))"
  using assms by (auto simp: export_def Let_def split: sum.splits)

lemma find_by_id:
  assumes "distinct (map entry_id es)" "e \<in> set es"
  shows "find (\<lambda>x. entry_id x = entry_id e) es = Some e"
  using assms by (induction es) (auto simp: image_iff)

section \<open>Properties\<close>

text \<open>
  C15. A link that was imported can be shared again: after the actor has added the profile of a
  link, that profile is selected, and exporting it answers with a link that parses to the very same
  profile and carries the entry's name, unless the secure store fails.
\<close>

theorem import_then_export:
  assumes "secure_store ops secrets" "json_ok json" "codec_ok u" "parse_uri u uri = Some p"
    and "add ops json (env_io env) (env_uuid env) (env_now env) st p (name_from_uri u uri) = (Inr e, st')"
  shows "\<exists>s' r. run_actor ops json u [(env, Intent (AddProfileFromUri uri)), (env', ExportUri (entry_id e))] (st, s) =
      ((st', s'), [OnState (state_snapshot s'), Reply r]) \<and>
    selected_id s' = Some (entry_id e) \<and> state_entries s' = store_list st' \<and> r \<noteq> Inr None \<and>
    (\<forall>b. r = Inr (Some b) \<longrightarrow>
       (\<exists>link. b = as_bytes link \<and> parse_uri u link = Some p \<and>
          (distinct (map entry_id (entries st')) \<and> is_str (str_trim (entry_name e)) \<longrightarrow>
             name_from_uri u link = non_empty (Some (str_trim (entry_name e))))))"
proof -
  note links = secure_store.add_links [OF assms(1,2,5)]
  let ?s = "s\<lparr>selected_id := Some (entry_id e), last_error := None, state_entries := store_list st'\<rparr>"
  let ?r = "export ops json u st' ?s (entry_id e)"
  have run: "run_actor ops json u [(env, Intent (AddProfileFromUri uri)), (env', ExportUri (entry_id e))] (st, s) =
      ((st', ?s), [OnState (state_snapshot ?s), Reply ?r])"
    by (simp add: assms(4,5) Let_def)
  have load: "load ops json st' (entry_id e) = Inr r \<Longrightarrow> r = Some p" for r
    using secure_store.load_link [OF assms(1)] links by blast
  have "?r \<noteq> Inr None" using load by (auto simp: export_def split: sum.splits)
  moreover have "\<exists>link. b = as_bytes link \<and> parse_uri u link = Some p \<and>
      (distinct (map entry_id (entries st')) \<and> is_str (str_trim (entry_name e)) \<longrightarrow>
         name_from_uri u link = non_empty (Some (str_trim (entry_name e))))" if b: "?r = Inr (Some b)" for b
  proof -
    let ?name = "map_option entry_name (find (\<lambda>x. entry_id x = entry_id e) (store_list st'))"
    let ?link = "to_uri_with_name u p ?name"
    obtain q where q: "load ops json st' (entry_id e) = Inr (Some q)"
      "b = as_bytes (to_uri_with_name u q (map_option entry_name
         (find (\<lambda>x. entry_id x = entry_id e) (state_entries ?s))))"
      by (rule export_link [OF b])
    have "q = p" using load [OF q(1)] by simp
    with q(2) have "b = as_bytes ?link" by simp
    moreover have lk: "linkable p" by (rule parse_uri_linkable [OF assms(4)])
    moreover have "name_from_uri u ?link = non_empty (Some (str_trim (entry_name e)))"
      if d: "distinct (map entry_id (entries st'))" and n: "is_str (str_trim (entry_name e))"
    proof -
      have "find (\<lambda>x. entry_id x = entry_id e) (store_list st') = Some e"
        unfolding store_list_def using find_by_id [OF d] links by blast
      then show ?thesis using name_printed [OF assms(3) lk, of ?name] n by (simp add: non_empty_def)
    qed
    ultimately show ?thesis using parse_printed [OF assms(3) lk, of ?name] by blast
  qed
  ultimately show ?thesis using run by auto
qed

theorem import_then_export_witness:
  "\<exists>s'. run_actor dev_ops sample_json sample_codec
     [(\<lparr>env_io = fs_ok, env_uuid = ''u'', env_now = Some 5\<rparr>, Intent (AddProfileFromUri ''hy2://h:1'')),
      (\<lparr>env_io = fs_ok, env_uuid = ''v'', env_now = None\<rparr>, ExportUri ''u'')]
     (fst (actor_start \<lparr>secure = dev_new, entries = [], doc_file = None\<rparr>)) =
     ((sample_store, s'), [OnState (state_snapshot s'),
        Reply (Inr (Some (as_bytes (to_uri_with_name sample_codec sample_profile (Some ''h''))))) ]) \<and>
     parse_uri sample_codec (to_uri_with_name sample_codec sample_profile (Some ''h'')) = Some sample_profile"
proof -
  let ?env = "\<lparr>env_io = fs_ok, env_uuid = ''u'', env_now = Some 5\<rparr>"
  let ?env' = "\<lparr>env_io = fs_ok, env_uuid = ''v'', env_now = None\<rparr>"
  let ?s = "state_default\<lparr>state_entries := []\<rparr>"
  have p: "parse_uri sample_codec ''hy2://h:1'' = Some sample_profile" by code_simp
  have n: "name_from_uri sample_codec ''hy2://h:1'' = None" by code_simp
  have a: "add dev_ops sample_json (env_io ?env) (env_uuid ?env) (env_now ?env)
      \<lparr>secure = dev_new, entries = [], doc_file = None\<rparr> sample_profile
      (name_from_uri sample_codec ''hy2://h:1'') = (Inr sample_entry, sample_store)"
    using sample_add by (simp add: n)
  obtain s' r where run: "run_actor dev_ops sample_json sample_codec
      [(?env, Intent (AddProfileFromUri ''hy2://h:1'')), (?env', ExportUri (entry_id sample_entry))]
      (\<lparr>secure = dev_new, entries = [], doc_file = None\<rparr>, ?s) =
      ((sample_store, s'), [OnState (state_snapshot s'), Reply r])" and st: "state_entries s' = [sample_entry]"
    using import_then_export [OF dev.secure_store_axioms sample_json_ok sample_codec_ok p a, of ?env' ?s]
    by (auto simp: sample_store_def store_list_def)
  have "load dev_ops sample_json sample_store ''u'' = Inr (Some sample_profile)"
    by (simp add: load_def sample_store_def dev_ops_def dev_get_def dev_lock_def dev_new_def
        secure_err_def serde_err_def sample_json_def)
  moreover have "r = export dev_ops sample_json sample_codec sample_store s' ''u''"
    using run by (auto simp: p n sample_add Let_def sample_entry_def)
  ultimately have r: "r = Inr (Some (as_bytes (to_uri_with_name sample_codec sample_profile (Some ''h''))))"
    by (simp add: export_def st sample_entry_def)
  have "linkable sample_profile" using parse_uri_linkable [OF p] .
  then have "parse_uri sample_codec (to_uri_with_name sample_codec sample_profile (Some ''h'')) = Some sample_profile"
    using parse_printed sample_codec_ok by blast
  with run r show ?thesis
    by (auto simp: actor_start_def Let_def store_list_def sample_entry_def)
qed

end
